(* ===== verification/Prelude.thy ===== *)
theory Prelude
  imports Main "HOL-Library.AList" "HOL-Library.Multiset" "HOL-Library.Word"
    "HOL-Library.Sublist" "HOL-Library.List_Lexorder" "HOL-Library.Char_ord" "HOL-Library.Product_Lexorder"
begin

text \<open>
  The vocabulary every component shares.

  A Go map is an association list. Its list order stands for the order in which one
  \<^verbatim>\<open>range\<close> over the map happens to visit the keys; every lemma holds for every list, hence for
  every iteration order, and facts about contents are stated through \<^const>\<open>map_of\<close> only.
  The interface \<open>go_map\<close> collects the laws the components rely on; it is interpreted on the
  association-list operations below. A Go set (\<^verbatim>\<open>map[K]struct{}\<close>, \<^verbatim>\<open>map[K]bool\<close> that only ever
  stores true) is a list without duplicates.

  Strings are byte lists ordered bytewise, as \<^verbatim>\<open>sort.Strings\<close> and \<^verbatim>\<open><\<close> order them in Go.
\<close>

named_theorems go_map_simps \<open>lookup after put and delete on a Go map\<close>
named_theorems wf_intros \<open>well-formedness of Go maps and sets is kept\<close>

type_synonym u32 = "32 word"
type_synonym u64 = "64 word"
type_synonym ('k, 'v) gomap = "('k \<times> 'v) list"
type_synonym 'k goset = "'k list"

text \<open>Keys are often pairs; quantifiers over them are kept as one variable.\<close>

declare split_paired_All [simp del] split_paired_Ex [simp del]

section \<open>Go maps\<close>

definition mget :: "('k, 'v) gomap \<Rightarrow> 'k \<Rightarrow> 'v option" where
  "mget m k = map_of m k"

definition mput :: "'k \<Rightarrow> 'v \<Rightarrow> ('k, 'v) gomap \<Rightarrow> ('k, 'v) gomap" where
  "mput k v m = AList.update k v m"

definition mdel :: "'k \<Rightarrow> ('k, 'v) gomap \<Rightarrow> ('k, 'v) gomap" where
  "mdel k m = AList.delete k m"

definition mkeys :: "('k, 'v) gomap \<Rightarrow> 'k list" where
  "mkeys m = map fst m"

definition mwf :: "('k, 'v) gomap \<Rightarrow> bool" where
  "mwf m \<longleftrightarrow> distinct (map fst m)"

text \<open>What a client of a Go map may rely on.\<close>

locale go_map =
  fixes empty :: "'m"
    and get :: "'m \<Rightarrow> 'k \<Rightarrow> 'v option"
    and put :: "'k \<Rightarrow> 'v \<Rightarrow> 'm \<Rightarrow> 'm"
    and del :: "'k \<Rightarrow> 'm \<Rightarrow> 'm"
    and keys :: "'m \<Rightarrow> 'k list"
    and wf :: "'m \<Rightarrow> bool"
  assumes get_empty: "get empty k = None"
    and get_put: "get (put k v m) k' = (if k' = k then Some v else get m k')"
    and get_del: "get (del k m) k' = (if k' = k then None else get m k')"
    and set_keys: "set (keys m) = {k. get m k \<noteq> None}"
    and wf_empty: "wf empty"
    and wf_put: "wf m \<Longrightarrow> wf (put k v m)"
    and wf_del: "wf m \<Longrightarrow> wf (del k m)"
    and wf_keys: "wf m \<Longrightarrow> distinct (keys m)"
begin

lemma keys_put: "set (keys (put k v m)) = insert k (set (keys m))"
  by (auto simp: set_keys get_put)

lemma keys_del: "set (keys (del k m)) = set (keys m) - {k}"
  by (auto simp: set_keys get_del)

lemma put_put_get: "get (put k v (put k v' m)) = get (put k v m)"
  by (auto simp: get_put)

lemma del_put_get: "get m k = None \<Longrightarrow> get (del k (put k v m)) = get m"
  by (auto simp: get_put get_del)

text \<open>Removing a list of keys one after the other, whatever their order.\<close>

lemma get_fold_del: "get (fold del ks m) k = (if k \<in> set ks then None else get m k)"
  by (induction ks arbitrary: m) (auto simp: get_del)

lemma wf_fold_del: "wf m \<Longrightarrow> wf (fold del ks m)"
  by (induction ks arbitrary: m) (auto simp: wf_del)

end

lemma mget_put [go_map_simps, simp]:
  "mget (mput k v m) k' = (if k' = k then Some v else mget m k')"
  by (auto simp: mget_def mput_def AList.update_conv')

lemma mget_del [go_map_simps, simp]:
  "mget (mdel k m) k' = (if k' = k then None else mget m k')"
  by (auto simp: mget_def mdel_def AList.delete_conv')

lemma mget_empty [go_map_simps, simp]: "mget [] k = None"
  by (simp add: mget_def)

lemma mdel_empty [simp]: "mdel k [] = []"
  by (simp add: mdel_def)

lemma mdel_idem [simp]: "mdel k (mdel k m) = mdel k m"
  by (simp add: mdel_def AList.delete_idem)

lemma mkeys_iff: "k \<in> set (mkeys m) \<longleftrightarrow> mget m k \<noteq> None"
  by (simp add: mkeys_def mget_def map_of_eq_None_iff)

lemma mwf_empty [wf_intros, simp]: "mwf []"
  by (simp add: mwf_def)

lemma mwf_put [wf_intros, simp]: "mwf m \<Longrightarrow> mwf (mput k v m)"
  by (simp add: mwf_def mput_def AList.distinct_update)

lemma mwf_del [wf_intros, simp]: "mwf m \<Longrightarrow> mwf (mdel k m)"
  by (simp add: mwf_def mdel_def AList.distinct_delete)

interpretation gm: go_map "[]" mget mput mdel mkeys mwf
proof (unfold_locales, goal_cases)
  case (4 m) show ?case by (auto simp: mkeys_iff)
next
  case (8 m) then show ?case by (simp add: mwf_def mkeys_def)
qed auto

lemma mget_in: "mget m k = Some v \<Longrightarrow> (k, v) \<in> set m"
  by (auto simp: mget_def dest: map_of_SomeD)

lemma mget_iff: "mwf m \<Longrightarrow> (k, v) \<in> set m \<longleftrightarrow> mget m k = Some v"
  by (auto simp: mwf_def mget_def)

lemma mget_Nil_iff: "(\<forall>k. mget m k = None) \<longleftrightarrow> m = []"
  by (cases m) (auto simp: mget_def)

lemma mput_not_Nil [simp]: "mput k v m \<noteq> []"
  by (simp add: mput_def)

text \<open>A Go map lookup with the zero value for a missing key.\<close>

definition mget0 :: "'v \<Rightarrow> ('k, 'v) gomap \<Rightarrow> 'k \<Rightarrow> 'v" where
  "mget0 z m k = (case mget m k of None \<Rightarrow> z | Some v \<Rightarrow> v)"

lemma mget0_put [simp]: "mget0 z (mput k v m) k' = (if k' = k then v else mget0 z m k')"
  by (simp add: mget0_def)

lemma mget0_del [simp]: "mget0 z (mdel k m) k' = (if k' = k then z else mget0 z m k')"
  by (simp add: mget0_def)

lemma mget0_empty [simp]: "mget0 z [] k = z"
  by (simp add: mget0_def)

section \<open>Maps of maps\<close>

text \<open>
  A Go \<^verbatim>\<open>map[A]map[B]V\<close>: reading through a missing inner map finds nothing, a put creates the inner
  map, and a delete drops an inner map that has become empty.
\<close>

definition nget :: "('a, ('b, 'v) gomap) gomap \<Rightarrow> 'a \<Rightarrow> 'b \<Rightarrow> 'v option" where
  "nget m a b = mget (mget0 [] m a) b"

definition nput :: "'a \<Rightarrow> 'b \<Rightarrow> 'v \<Rightarrow> ('a, ('b, 'v) gomap) gomap \<Rightarrow> ('a, ('b, 'v) gomap) gomap" where
  "nput a b v m = mput a (mput b v (mget0 [] m a)) m"

definition ndel :: "'a \<Rightarrow> 'b \<Rightarrow> ('a, ('b, 'v) gomap) gomap \<Rightarrow> ('a, ('b, 'v) gomap) gomap" where
  "ndel a b m = (case mget m a of
     None \<Rightarrow> m
   | Some inner \<Rightarrow> let inner1 = mdel b inner in if length inner1 = 0 then mdel a m else mput a inner1 m)"

definition nkeys :: "('a, ('b, 'v) gomap) gomap \<Rightarrow> ('a \<times> 'b) list" where
  "nkeys m = concat (map (\<lambda>(a, inner). map (\<lambda>b. (a, b)) (mkeys inner)) m)"

definition nwf :: "('a, ('b, 'v) gomap) gomap \<Rightarrow> bool" where
  "nwf m \<longleftrightarrow> mwf m \<and> list_all (\<lambda>(_, inner). mwf inner) m"

lemma nget_empty [go_map_simps, simp]: "nget [] a b = None"
  by (simp add: nget_def)

lemma nget_put [go_map_simps, simp]:
  "nget (nput a b v m) a' b' = (if a' = a \<and> b' = b then Some v else nget m a' b')"
  by (simp add: nget_def nput_def)

lemma nget_del [go_map_simps, simp]:
  "nget (ndel a b m) a' b' = (if a' = a \<and> b' = b then None else nget m a' b')"
proof (cases "mget m a")
  case (Some inner)
  have "mget inner b' = None" if "mdel b inner = []" "b' \<noteq> b"
    using that mget_del [of b inner b'] by simp
  with Some show ?thesis by (auto simp: nget_def ndel_def mget0_def Let_def)
qed (simp add: nget_def ndel_def mget0_def)

lemma nget_drop: "nget (mdel a m) a' b = (if a' = a then None else nget m a' b)"
  by (simp add: nget_def)

lemma nwf_empty [wf_intros, simp]: "nwf []"
  by (simp add: nwf_def)

lemma nwf_outer: "nwf m \<Longrightarrow> mwf m"
  by (simp add: nwf_def)

lemma nwf_inner: "nwf m \<Longrightarrow> mwf (mget0 [] m a)"
  by (auto simp: nwf_def mget0_def list_all_iff split: option.splits dest!: mget_in)

lemma nwf_iff: "nwf m \<longleftrightarrow> mwf m \<and> (\<forall>a inner. mget m a = Some inner \<longrightarrow> mwf inner)"
  by (auto simp: nwf_def list_all_iff mget_iff)

lemma nwf_put [wf_intros, simp]: "nwf m \<Longrightarrow> nwf (nput a b v m)"
  using nwf_inner [of m a] by (auto simp: nwf_iff nput_def split: if_splits)

lemma nwf_del [wf_intros, simp]: "nwf m \<Longrightarrow> nwf (ndel a b m)"
  by (auto simp: nwf_iff ndel_def Let_def split: option.splits if_splits)

lemma nwf_drop [wf_intros, simp]: "nwf m \<Longrightarrow> nwf (mdel a m)"
  by (auto simp: nwf_iff split: if_splits)

lemma set_nkeys:
  assumes "nwf m"
  shows "(a, b) \<in> set (nkeys m) \<longleftrightarrow> nget m a b \<noteq> None"
proof -
  have "(a, b) \<in> set (nkeys m) \<longleftrightarrow> (\<exists>inner. (a, inner) \<in> set m \<and> b \<in> set (mkeys inner))"
    by (force simp: nkeys_def)
  with assms show ?thesis
    by (auto simp: nget_def mget0_def nwf_def mget_iff mkeys_iff split: option.splits)
qed

section \<open>Go sets\<close>

definition sput :: "'k \<Rightarrow> 'k goset \<Rightarrow> 'k goset" where
  "sput k s = List.insert k s"

definition sdel :: "'k \<Rightarrow> 'k goset \<Rightarrow> 'k goset" where
  "sdel k s = removeAll k s"

lemma set_sput [simp]: "set (sput k s) = insert k (set s)"
  by (simp add: sput_def)

lemma set_sdel [simp]: "set (sdel k s) = set s - {k}"
  by (simp add: sdel_def)

lemma distinct_sput [wf_intros, simp]: "distinct s \<Longrightarrow> distinct (sput k s)"
  by (simp add: sput_def)

lemma distinct_sdel [wf_intros, simp]: "distinct s \<Longrightarrow> distinct (sdel k s)"
  by (simp add: sdel_def distinct_removeAll)

lemma sput_not_Nil [simp]: "sput k s \<noteq> []"
  by (auto simp: sput_def List.insert_def)

section \<open>Sorted unions\<close>

text \<open>\<^verbatim>\<open>sort.Strings\<close> of the keys of a set: the canonical list of its elements.\<close>

definition sorted_union :: "'a::linorder list list \<Rightarrow> 'a list" where
  "sorted_union xss = sort (remdups (concat xss))"

lemma set_sorted_union [simp]: "set (sorted_union xss) = (\<Union>xs \<in> set xss. set xs)"
  by (simp add: sorted_union_def)

lemma sorted_sorted_union [simp]: "sorted (sorted_union xss)"
  by (simp add: sorted_union_def)

lemma distinct_sorted_union [simp]: "distinct (sorted_union xss)"
  by (simp add: sorted_union_def)

text \<open>Two sorted duplicate-free lists with the same elements are equal.\<close>

lemma sorted_distinct_eq:
  "sorted xs \<Longrightarrow> distinct xs \<Longrightarrow> sorted ys \<Longrightarrow> distinct ys \<Longrightarrow> set xs = set ys \<Longrightarrow> xs = ys"
  by (rule sorted_distinct_set_unique)

lemma sorted_union_cong:
  "(\<Union>xs \<in> set xss. set xs) = (\<Union>xs \<in> set yss. set xs) \<Longrightarrow> sorted_union xss = sorted_union yss"
  by (rule sorted_distinct_eq) simp_all

end
