(* ===== verification/Netip.thy ===== *)
theory Netip
  imports Prelude
begin

text \<open>
  The parts of Go's \<^verbatim>\<open>net\<close> and \<^verbatim>\<open>net/netip\<close> packages the control plane calls: parsing and printing
  of addresses and prefixes, membership, masking and stepping. An address is a word of its
  family's width. The parsers follow the standard library's loops: decimal octets without
  leading zeros, up to four hexadecimal digits per group, one \<^verbatim>\<open>::\<close>, an embedded IPv4 tail, and
  an IPv6 zone after \<^verbatim>\<open>%\<close>.
\<close>

section \<open>Characters and numbers\<close>

definition digit_val :: "char \<Rightarrow> int option" where
  "digit_val c = (let n = (of_char c :: int) in if 48 \<le> n \<and> n \<le> 57 then Some (n - 48) else None)"

definition hex_val :: "char \<Rightarrow> int option" where
  "hex_val c = (let n = (of_char c :: int) in
     if 48 \<le> n \<and> n \<le> 57 then Some (n - 48)
     else if 97 \<le> n \<and> n \<le> 102 then Some (n - 87)
     else if 65 \<le> n \<and> n \<le> 70 then Some (n - 55)
     else None)"

definition digit_char :: "int \<Rightarrow> char" where
  "digit_char d = (if d < 10 then char_of (48 + d) else char_of (87 + d))"

function show_base :: "int \<Rightarrow> int \<Rightarrow> string" where
  "show_base b n = (if b \<le> 1 \<or> n < b then [digit_char n] else show_base b (n div b) @ [digit_char (n mod b)])"
  by pat_completeness auto
termination
  by (relation "measure (\<lambda>(b, n). nat n)") (auto intro: int_div_less_self)

declare show_base.simps [simp del]

definition itoa :: "int \<Rightarrow> string" where
  "itoa n = show_base 10 n"

section \<open>Addresses\<close>

datatype Addr = V4 "32 word" | V6 "128 word" string

fun Is4 :: "Addr \<Rightarrow> bool" where
  "Is4 (V4 _) = True"
| "Is4 (V6 _ _) = False"

definition Is6 :: "Addr \<Rightarrow> bool" where
  "Is6 a = (\<not> Is4 a)"

fun addr_zone :: "Addr \<Rightarrow> string" where
  "addr_zone (V4 _) = []"
| "addr_zone (V6 _ z) = z"

fun BitLen :: "Addr \<Rightarrow> nat" where
  "BitLen (V4 _) = 32"
| "BitLen (V6 _ _) = 128"

definition Is4In6 :: "Addr \<Rightarrow> bool" where
  "Is4In6 a = (case a of V4 _ \<Rightarrow> False | V6 w _ \<Rightarrow> drop_bit 32 w = 65535)"

text \<open>The successor address; \<^const>\<open>None\<close> is the invalid address past the last one.\<close>

fun Next :: "Addr \<Rightarrow> Addr option" where
  "Next (V4 a) = (if a + 1 = 0 then None else Some (V4 (a + 1)))"
| "Next (V6 a z) = (if a + 1 = 0 then None else Some (V6 (a + 1) z))"

subsection \<open>Parsing\<close>

fun v4_fields :: "string \<Rightarrow> bool \<Rightarrow> int \<Rightarrow> nat \<Rightarrow> int list \<Rightarrow> int list option" where
  "v4_fields [] start val digLen fields =
     (if length fields < 3 then None else Some (rev (val # fields)))"
| "v4_fields (c # cs) start val digLen fields =
     (case digit_val c of
        Some d \<Rightarrow>
          if digLen = 1 \<and> val = 0 then None
          else if val * 10 + d > 255 then None
          else v4_fields cs False (val * 10 + d) (Suc digLen) fields
      | None \<Rightarrow>
          if c = CHR ''.'' then
            (if start \<or> cs = [] then None
             else if length fields = 3 then None
             else v4_fields cs True 0 0 (val # fields))
          else None)"

definition parseIPv4Fields :: "string \<Rightarrow> int list option" where
  "parseIPv4Fields s = v4_fields s True 0 0 []"

definition parseIPv4 :: "string \<Rightarrow> Addr option" where
  "parseIPv4 s = map_option (\<lambda>fs. V4 (of_int (foldl (\<lambda>a f. a * 256 + f) 0 fs))) (parseIPv4Fields s)"

fun hex_run :: "string \<Rightarrow> nat \<Rightarrow> int \<Rightarrow> (nat \<times> int \<times> string) option" where
  "hex_run [] off acc = Some (off, acc, [])"
| "hex_run (c # cs) off acc =
     (case hex_val c of
        None \<Rightarrow> Some (off, acc, c # cs)
      | Some d \<Rightarrow> if off > 3 then None else hex_run cs (Suc off) (acc * 16 + d))"

fun v6_loop :: "nat \<Rightarrow> string \<Rightarrow> int list \<Rightarrow> nat option \<Rightarrow> (string \<times> int list \<times> nat option) option" where
  "v6_loop 0 s gs ellipsis = Some (s, gs, ellipsis)"
| "v6_loop (Suc n) s gs ellipsis =
     (case hex_run s 0 0 of
        None \<Rightarrow> None
      | Some (off, acc, rest) \<Rightarrow>
          if off = 0 then None
          else if rest \<noteq> [] \<and> hd rest = CHR ''.'' then
            (if ellipsis = None \<and> length gs \<noteq> 6 then None
             else if length gs + 2 > 8 then None
             else (case parseIPv4Fields s of
                     Some [a, b, c, d] \<Rightarrow> Some ([], gs @ [a * 256 + b, c * 256 + d], ellipsis)
                   | _ \<Rightarrow> None))
          else (case rest of
              [] \<Rightarrow> Some ([], gs @ [acc], ellipsis)
            | c # rest1 \<Rightarrow>
                if c \<noteq> CHR '':'' then None
                else (case rest1 of
                    [] \<Rightarrow> None
                  | c1 # rest2 \<Rightarrow>
                      if c1 = CHR '':'' then
                        (if ellipsis \<noteq> None then None
                         else if rest2 = [] then Some ([], gs @ [acc], Some (Suc (length gs)))
                         else v6_loop n rest2 (gs @ [acc]) (Some (Suc (length gs))))
                      else v6_loop n rest1 (gs @ [acc]) ellipsis)))"

definition v6_expand :: "string \<times> int list \<times> nat option \<Rightarrow> int list option" where
  "v6_expand r = (case r of (s, gs, ellipsis) \<Rightarrow>
     if s \<noteq> [] then None
     else if length gs < 8 then
       (case ellipsis of None \<Rightarrow> None
        | Some p \<Rightarrow> Some (take p gs @ replicate (8 - length gs) 0 @ drop p gs))
     else if ellipsis \<noteq> None then None
     else Some gs)"

definition parseIPv6 :: "string \<Rightarrow> Addr option" where
  "parseIPv6 s0 =
     (let s = takeWhile (\<lambda>c. c \<noteq> CHR ''%'') s0;
          z = dropWhile (\<lambda>c. c \<noteq> CHR ''%'') s0;
          zone = tl z;
          mk = (\<lambda>gs. V6 (of_int (foldl (\<lambda>a g. a * 65536 + g) 0 gs)) zone)
      in if z \<noteq> [] \<and> zone = [] then None
         else if take 2 s = ''::'' then
           (if drop 2 s = [] then Some (V6 0 zone)
            else map_option mk (Option.bind (v6_loop 8 (drop 2 s) [] (Some 0)) v6_expand))
         else map_option mk (Option.bind (v6_loop 8 s [] None) v6_expand))"

definition ParseAddr :: "string \<Rightarrow> Addr option" where
  "ParseAddr s = (case dropWhile (\<lambda>c. c \<noteq> CHR ''.'' \<and> c \<noteq> CHR '':'' \<and> c \<noteq> CHR ''%'') s of
     [] \<Rightarrow> None
   | c # _ \<Rightarrow> if c = CHR ''.'' then parseIPv4 s else if c = CHR '':'' then parseIPv6 s else None)"

subsection \<open>Printing\<close>

definition string4 :: "32 word \<Rightarrow> string" where
  "string4 a = itoa (uint (drop_bit 24 a)) @ ''.'' @ itoa (uint (take_bit 8 (drop_bit 16 a))) @ ''.''
     @ itoa (uint (take_bit 8 (drop_bit 8 a))) @ ''.'' @ itoa (uint (take_bit 8 a))"

definition v6_groups :: "128 word \<Rightarrow> int list" where
  "v6_groups a = map (\<lambda>i. uint (take_bit 16 (drop_bit (16 * i) a))) [7, 6, 5, 4, 3, 2, 1, 0]"

text \<open>The leftmost longest run of at least two zero groups, as (start, end).\<close>

definition zero_run :: "int list \<Rightarrow> (nat \<times> nat) option" where
  "zero_run gs = foldl (\<lambda>best i.
     let j = i + length (takeWhile (\<lambda>g. g = 0) (drop i gs))
     in if 2 \<le> j - i \<and> (case best of None \<Rightarrow> True | Some (s, e) \<Rightarrow> e - s < j - i)
        then Some (i, j) else best) None [0..<length gs]"

fun join_groups :: "int list \<Rightarrow> string" where
  "join_groups [] = []"
| "join_groups [g] = show_base 16 g"
| "join_groups (g # gs) = show_base 16 g @ '':'' @ join_groups gs"

definition string6 :: "128 word \<Rightarrow> string" where
  "string6 a = (let gs = v6_groups a in
     case zero_run gs of
       None \<Rightarrow> join_groups gs
     | Some (s, e) \<Rightarrow> join_groups (take s gs) @ ''::'' @ join_groups (drop e gs))"

definition addr_string :: "Addr \<Rightarrow> string" where
  "addr_string a = (case a of
     V4 w \<Rightarrow> string4 w
   | V6 w z \<Rightarrow> (if drop_bit 32 w = 65535 then ''::ffff:'' @ string4 (ucast w) else string6 w)
       @ (if z = [] then [] else ''%'' @ z))"

section \<open>\<^verbatim>\<open>net.IP\<close> and \<^verbatim>\<open>net.IPNet\<close>\<close>

text \<open>A parsed \<^verbatim>\<open>net.IP\<close> is always 16 bytes; an IPv4 address is its v4-mapped form.\<close>

type_synonym IP = "128 word"

definition As16 :: "Addr \<Rightarrow> IP" where
  "As16 a = (case a of V4 w \<Rightarrow> 0xffff00000000 + ucast w | V6 w _ \<Rightarrow> w)"

definition To4 :: "IP \<Rightarrow> 32 word option" where
  "To4 ip = (if drop_bit 32 ip = 65535 then Some (ucast ip) else None)"

definition ParseIP :: "string \<Rightarrow> IP option" where
  "ParseIP s = (case ParseAddr s of None \<Rightarrow> None | Some a \<Rightarrow> if addr_zone a \<noteq> [] then None else Some (As16 a))"

text \<open>A network with its mask length: 4-byte address and mask, or 16-byte address and mask.\<close>

datatype IPNet = IPNet4 "32 word" nat | IPNet16 "128 word" nat

definition mask4 :: "nat \<Rightarrow> 32 word \<Rightarrow> 32 word" where
  "mask4 n a = push_bit (32 - n) (drop_bit (32 - n) a)"

definition mask16 :: "nat \<Rightarrow> 128 word \<Rightarrow> 128 word" where
  "mask16 n a = push_bit (128 - n) (drop_bit (128 - n) a)"

fun dec_val :: "string \<Rightarrow> int \<Rightarrow> int option" where
  "dec_val [] n = Some n"
| "dec_val (c # cs) n = (case digit_val c of None \<Rightarrow> None | Some d \<Rightarrow> dec_val cs (n * 10 + d))"

text \<open>\<^verbatim>\<open>dtoi\<close> on the whole mask text: decimal digits only, below \<^verbatim>\<open>0xFFFFFF\<close>.\<close>

definition dtoi :: "string \<Rightarrow> nat option" where
  "dtoi s = (if s = [] then None else
     case dec_val s 0 of None \<Rightarrow> None | Some n \<Rightarrow> if n < 16777215 then Some (nat n) else None)"

definition ParseCIDR :: "string \<Rightarrow> (IP \<times> IPNet) option" where
  "ParseCIDR s =
     (let addr = takeWhile (\<lambda>c. c \<noteq> CHR ''/'') s; rest = dropWhile (\<lambda>c. c \<noteq> CHR ''/'') s
      in if rest = [] then None
         else (case ParseAddr addr of
             None \<Rightarrow> None
           | Some a \<Rightarrow>
               if addr_zone a \<noteq> [] then None
               else (case dtoi (tl rest) of
                   None \<Rightarrow> None
                 | Some n \<Rightarrow>
                     if n > BitLen a then None
                     else Some (As16 a, (case a of V4 w \<Rightarrow> IPNet4 (mask4 n w) n | V6 w _ \<Rightarrow> IPNet16 (mask16 n w) n)))))"

definition networkNumberAndMask :: "IPNet \<Rightarrow> IPNet" where
  "networkNumberAndMask n = (case n of
     IPNet4 a l \<Rightarrow> IPNet4 a l
   | IPNet16 a l \<Rightarrow> (case To4 a of Some b \<Rightarrow> IPNet4 b (l - 96) | None \<Rightarrow> IPNet16 a l))"

definition ipnet_contains :: "IPNet \<Rightarrow> IP \<Rightarrow> bool" where
  "ipnet_contains n ip = (case networkNumberAndMask n of
     IPNet4 a l \<Rightarrow> (case To4 ip of Some b \<Rightarrow> mask4 l a = mask4 l b | None \<Rightarrow> False)
   | IPNet16 a l \<Rightarrow> (case To4 ip of Some _ \<Rightarrow> False | None \<Rightarrow> mask16 l a = mask16 l ip))"

definition ipnet_string :: "IPNet \<Rightarrow> string" where
  "ipnet_string n = (case networkNumberAndMask n of
     IPNet4 a l \<Rightarrow> string4 a @ ''/'' @ itoa (int l)
   | IPNet16 a l \<Rightarrow> string6 a @ ''/'' @ itoa (int l))"

section \<open>\<^verbatim>\<open>netip.Prefix\<close>\<close>

record Prefix =
  pfx_addr :: Addr
  pfx_bits :: nat

definition ParsePrefix :: "string \<Rightarrow> Prefix option" where
  "ParsePrefix s =
     (let r = rev s;
          bitsStr = rev (takeWhile (\<lambda>c. c \<noteq> CHR ''/'') r);
          head = dropWhile (\<lambda>c. c \<noteq> CHR ''/'') r
      in if head = [] then None
         else (case ParseAddr (rev (tl head)) of
             None \<Rightarrow> None
           | Some a \<Rightarrow>
               if addr_zone a \<noteq> [] then None
               else if bitsStr = [] then None
               else if length bitsStr > 1 \<and> hd bitsStr = CHR ''0'' then None
               else (case dec_val bitsStr 0 of
                   None \<Rightarrow> None
                 | Some n \<Rightarrow> if n > int (BitLen a) then None else Some \<lparr>pfx_addr = a, pfx_bits = nat n\<rparr>)))"

definition prefix_string :: "Prefix \<Rightarrow> string" where
  "prefix_string p = addr_string (pfx_addr p) @ ''/'' @ itoa (int (pfx_bits p))"

definition IsSingleIP :: "Prefix \<Rightarrow> bool" where
  "IsSingleIP p \<longleftrightarrow> pfx_bits p = BitLen (pfx_addr p)"

definition Masked :: "Prefix \<Rightarrow> Prefix" where
  "Masked p = p\<lparr>pfx_addr := (case pfx_addr p of
     V4 a \<Rightarrow> V4 (mask4 (pfx_bits p) a) | V6 a _ \<Rightarrow> V6 (mask16 (pfx_bits p) a) [])\<rparr>"

definition prefix_contains :: "Prefix \<Rightarrow> Addr \<Rightarrow> bool" where
  "prefix_contains p a = (case (pfx_addr p, a) of
     (V4 x, V4 y) \<Rightarrow> mask4 (pfx_bits p) x = mask4 (pfx_bits p) y
   | (V6 x _, V6 y z) \<Rightarrow> z = [] \<and> mask16 (pfx_bits p) x = mask16 (pfx_bits p) y
   | _ \<Rightarrow> False)"

end
