(* ===== verification/Routebus.thy ===== *)
theory Routebus
  imports Prelude
begin

text \<open>
  The route-bus wire types (\<^verbatim>\<open>api/proto/routebus/v1\<close>, \<^verbatim>\<open>mesh/gen/routebusv1\<close>) and the structs the
  agent and the reflector share (\<^verbatim>\<open>mesh/routebus\<close>). A protobuf \<^verbatim>\<open>oneof\<close> is a datatype; the message
  structs with several fields are records.
\<close>

datatype RouteOp = ROUTE_OP_UNSPECIFIED | ROUTE_OP_ADD | ROUTE_OP_WITHDRAW

datatype PublicKind =
    PUBLIC_KIND_UNSPECIFIED
  | PUBLIC_KIND_EDGE_UNDERLAY
  | PUBLIC_KIND_NAT_IP
  | PUBLIC_KIND_LB_IP
  | PUBLIC_KIND_FLOATING_IP

datatype GlobalFeed = GLOBAL_FEED_ALL | GLOBAL_FEED_NONE

record NatBlock =
  nb_Vni :: u32
  nb_SourceIP :: string
  nb_NatIP :: string
  nb_PortMin :: u32
  nb_PortMax :: u32
  nb_OwnerUnderlay :: string

record LbPort =
  lp_Port :: u32
  lp_Proto :: u32

fun LbPortsEqual :: "LbPort list \<Rightarrow> LbPort list \<Rightarrow> bool" where
  "LbPortsEqual a b = (if length a \<noteq> length b then False
     else list_all (\<lambda>i. a ! i = b ! i) [0..<length a])"

text \<open>
  \<^verbatim>\<open>pb.PublicPrefix\<close>, the agent's \<^verbatim>\<open>PublicPrefix\<close> and the reflector's \<^verbatim>\<open>PublicRecord\<close> have the same
  fields; the conversions between them copy each one.
\<close>

record PublicRecord =
  pr_Kind :: PublicKind
  pr_Prefix :: string
  pr_OwnerUnderlay :: string
  pr_Vni :: u32
  pr_PortMin :: u32
  pr_PortMax :: u32
  pr_OverlayIP :: string
  pr_Ports :: "LbPort list"

text \<open>The route key: a prefix in a VNI.\<close>

type_synonym routeKey = "u32 \<times> string"

datatype ServerMsg =
    RouteUpdate (ru_key: routeKey) (ru_nexthops: "string list") (ru_op: RouteOp) (ru_external: bool)
  | EndOfRIB u32 u32
  | ServerKeepAlive
  | NatUpdate NatBlock RouteOp
  | PublicUpdate PublicRecord RouteOp
  | EndOfGlobal u32

record Announce_msg =
  an_Vni :: u32
  an_Prefix :: string
  an_NexthopUnderlay :: string
  an_ExtraNexthops :: "string list"
  an_External :: bool

datatype ClientMsg =
    Hello string string GlobalFeed
  | Subscribe u32
  | Unsubscribe u32
  | Announce Announce_msg
  | Withdraw u32 string
  | ClientKeepAlive
  | AnnounceNat NatBlock
  | WithdrawNat string u32 u32
  | AnnouncePublic PublicRecord
  | WithdrawPublic PublicRecord

text \<open>Service tuples are compared element by element, order included.\<close>

lemma LbPortsEqual_iff [simp]: "LbPortsEqual a b \<longleftrightarrow> a = b"
  by (auto simp: list_all_iff intro: nth_equalityI)

declare LbPortsEqual.simps [simp del]

end
