(* ===== verification/Session_Queue.thy ===== *)
theory Session_Queue
  imports Routebus
begin

text \<open>
  A session's outbound queue (\<^verbatim>\<open>mesh/reflector/queue.go\<close>). The queue is one record; every method
  runs under the queue's mutex, so it is one function from state to state. \<^verbatim>\<open>take\<close> is a loop with
  two atomic parts: \<open>q_take\<close>, what it does under the mutex (hand out a batch, report the end, or
  go and wait), and \<open>q_wake_up\<close>, its receive on the \<^verbatim>\<open>wake\<close> channel, which blocks while the channel
  is empty. The step relation \<open>drain_step\<close> interleaves both with the callers. The interface \<open>sink\<close> is what the RIB asks of
  a subscriber's outbound path; it is interpreted on the queue.
\<close>

definition maxPendingDeltas :: nat where
  "maxPendingDeltas = 1024"

record sessionQueue =
  q_id :: string
  q_wake :: bool
  q_pending :: "ServerMsg list"
  q_deltas :: nat
  q_dropping :: bool
  q_dropped :: u64
  q_closed :: bool

definition newSessionQueue :: "string \<Rightarrow> sessionQueue" where
  "newSessionQueue i = \<lparr>q_id = i, q_wake = False, q_pending = [], q_deltas = 0,
     q_dropping = False, q_dropped = 0, q_closed = False\<rparr>"

text \<open>The non-blocking send on the capacity-one \<^verbatim>\<open>wake\<close> channel.\<close>

definition q_notify :: "sessionQueue \<Rightarrow> sessionQueue" where
  "q_notify q = q\<lparr>q_wake := True\<rparr>"

definition q_Send :: "ServerMsg \<Rightarrow> sessionQueue \<Rightarrow> sessionQueue" where
  "q_Send m q =
     (if q_closed q then q
      else if maxPendingDeltas \<le> q_deltas q
           then q\<lparr>q_dropping := True, q_dropped := q_dropped q + 1\<rparr>
           else q_notify (q\<lparr>q_pending := q_pending q @ [m], q_deltas := q_deltas q + 1\<rparr>))"

definition q_SendSnapshot :: "ServerMsg list \<Rightarrow> sessionQueue \<Rightarrow> sessionQueue" where
  "q_SendSnapshot ms q =
     (if q_closed q then q else q_notify (q\<lparr>q_pending := q_pending q @ ms\<rparr>))"

datatype take_result = Batch "ServerMsg list" | Done | Wait

definition q_take :: "sessionQueue \<Rightarrow> take_result \<times> sessionQueue" where
  "q_take q =
     (if q_pending q \<noteq> []
      then (Batch (q_pending q), q\<lparr>q_pending := [], q_deltas := 0, q_dropping := False\<rparr>)
      else if q_closed q then (Done, q)
      else (Wait, q))"

definition q_wake_up :: "sessionQueue \<Rightarrow> sessionQueue option" where
  "q_wake_up q = (if q_wake q then Some (q\<lparr>q_wake := False\<rparr>) else None)"

definition q_close :: "sessionQueue \<Rightarrow> sessionQueue" where
  "q_close q = q_notify (q\<lparr>q_closed := True\<rparr>)"

section \<open>The sink interface\<close>

text \<open>
  What \<^verbatim>\<open>RIB\<close> requires of a \<^verbatim>\<open>Sink\<close>: \<open>out\<close> is the messages accepted and not yet handed out,
  \<open>open_for\<close> whether the path still takes messages. A snapshot is queued whole and in order; a
  single delta is appended or dropped, and dropped only at the cap.
\<close>

locale sink =
  fixes send :: "'m \<Rightarrow> 's \<Rightarrow> 's"
    and send_snapshot :: "'m list \<Rightarrow> 's \<Rightarrow> 's"
    and out :: "'s \<Rightarrow> 'm list"
    and is_open :: "'s \<Rightarrow> bool"
    and full :: "'s \<Rightarrow> bool"
    and ident :: "'s \<Rightarrow> 'i"
  assumes snapshot_whole: "is_open s \<Longrightarrow> out (send_snapshot ms s) = out s @ ms"
    and snapshot_full: "full (send_snapshot ms s) = full s"
    and send_out: "is_open s \<Longrightarrow> \<not> full s \<Longrightarrow> out (send m s) = out s @ [m]"
    and send_full: "is_open s \<Longrightarrow> full s \<Longrightarrow> out (send m s) = out s"
    and closed_snapshot: "\<not> is_open s \<Longrightarrow> out (send_snapshot ms s) = out s"
    and closed_send: "\<not> is_open s \<Longrightarrow> out (send m s) = out s"
    and open_send: "is_open (send m s) = is_open s"
    and open_snapshot: "is_open (send_snapshot ms s) = is_open s"
    and ident_send: "ident (send m s) = ident s"
    and ident_snapshot: "ident (send_snapshot ms s) = ident s"
    and full_mono: "full s \<Longrightarrow> full (send m s)"
begin

text \<open>A run of deltas followed by a snapshot: the snapshot is at the end, whole.\<close>

lemma sends_open: "is_open (fold send ms s) = is_open s"
  by (induction ms arbitrary: s) (auto simp: open_send)

lemma sends_full: "full s \<Longrightarrow> out (fold send ms s) = out s"
proof (induction ms arbitrary: s)
  case (Cons m ms)
  have "out (send m s) = out s"
    using Cons.prems by (cases "is_open s") (auto simp: send_full closed_send)
  with Cons show ?case by (simp add: full_mono)
qed simp

text \<open>
  The messages accepted from a run of deltas are a prefix of the run: once one is dropped, every
  later one is dropped too (until the drain), so what is queued is never a gapped history.
\<close>

lemma sends_prefix: "\<exists>n. out (fold send ms s) = out s @ take n ms"
proof (induction ms arbitrary: s)
  case (Cons m ms)
  show ?case
  proof (cases "is_open s \<and> \<not> full s")
    case True
    from Cons.IH [of "send m s"] obtain n
      where "out (fold send ms (send m s)) = out (send m s) @ take n ms" by blast
    with True have "out (fold send (m # ms) s) = out s @ take (Suc n) (m # ms)"
      by (simp add: send_out)
    then show ?thesis by blast
  next
    case False
    then consider "full s" | "\<not> is_open s" by blast
    then have "out (fold send (m # ms) s) = out s"
    proof cases
      case 1 then show ?thesis by (rule sends_full)
    next
      case 2
      have "out (fold send ks t) = out t" if "\<not> is_open t" for ks t
        using that by (induction ks arbitrary: t) (auto simp: closed_send open_send)
      with 2 show ?thesis by blast
    qed
    then show ?thesis by (metis append_Nil2 take_0)
  qed
qed (metis append_Nil2 fold_Nil id_apply take_0)

lemma snapshot_after_sends:
  "is_open s \<Longrightarrow> \<exists>n. out (send_snapshot snap (fold send ms s)) = out s @ take n ms @ snap"
  using sends_prefix [of ms s] by (auto simp: snapshot_whole sends_open)

end

lemmas queue_defs = q_Send_def q_SendSnapshot_def q_notify_def

interpretation sq: sink q_Send q_SendSnapshot q_pending "\<lambda>q. \<not> q_closed q"
  "\<lambda>q. maxPendingDeltas \<le> q_deltas q" q_id
  by unfold_locales (auto simp: queue_defs)

section \<open>The queue and its drain\<close>

text \<open>
  The drain goroutine of \<^verbatim>\<open>Server.Session\<close> beside the callers of the queue: it takes batches until
  the queue reports its end, or closes the queue when the stream refuses a message. \<open>dr_handed\<close> is
  everything taken so far.
\<close>

record drain =
  dr_queue :: sessionQueue
  dr_waiting :: bool
  dr_ended :: bool
  dr_handed :: "ServerMsg list"

definition drain_init :: "string \<Rightarrow> drain" where
  "drain_init i = \<lparr>dr_queue = newSessionQueue i, dr_waiting = False, dr_ended = False, dr_handed = []\<rparr>"

datatype queue_ev = EvSend ServerMsg | EvSnapshot "ServerMsg list" | EvClose | EvTake | EvWake | EvFail

inductive drain_step :: "drain \<Rightarrow> queue_ev \<Rightarrow> drain \<Rightarrow> bool" where
  send: "drain_step d (EvSend m) (d\<lparr>dr_queue := q_Send m (dr_queue d)\<rparr>)"
| snapshot: "drain_step d (EvSnapshot ms) (d\<lparr>dr_queue := q_SendSnapshot ms (dr_queue d)\<rparr>)"
| close: "drain_step d EvClose (d\<lparr>dr_queue := q_close (dr_queue d)\<rparr>)"
| take_batch: "\<not> dr_waiting d \<Longrightarrow> \<not> dr_ended d \<Longrightarrow> q_take (dr_queue d) = (Batch ms, q) \<Longrightarrow>
    drain_step d EvTake (d\<lparr>dr_queue := q, dr_handed := dr_handed d @ ms\<rparr>)"
| take_done: "\<not> dr_waiting d \<Longrightarrow> \<not> dr_ended d \<Longrightarrow> q_take (dr_queue d) = (Done, q) \<Longrightarrow>
    drain_step d EvTake (d\<lparr>dr_queue := q, dr_ended := True\<rparr>)"
| take_wait: "\<not> dr_waiting d \<Longrightarrow> \<not> dr_ended d \<Longrightarrow> q_take (dr_queue d) = (Wait, q) \<Longrightarrow>
    drain_step d EvTake (d\<lparr>dr_queue := q, dr_waiting := True\<rparr>)"
| wake: "dr_waiting d \<Longrightarrow> q_wake_up (dr_queue d) = Some q \<Longrightarrow>
    drain_step d EvWake (d\<lparr>dr_queue := q, dr_waiting := False\<rparr>)"
| fail: "\<not> dr_waiting d \<Longrightarrow> \<not> dr_ended d \<Longrightarrow>
    drain_step d EvFail (d\<lparr>dr_queue := q_close (dr_queue d), dr_ended := True\<rparr>)"

inductive drain_run :: "drain \<Rightarrow> queue_ev list \<Rightarrow> drain \<Rightarrow> bool" where
  stop: "drain_run d [] d"
| step: "drain_run d evs d1 \<Longrightarrow> drain_step d1 ev d2 \<Longrightarrow> drain_run d (evs @ [ev]) d2"

inductive_cases drain_stepE: "drain_step d ev d'"
inductive_simps drain_step_simps:
  "drain_step d EvWake d'" "drain_step d EvTake d'" "drain_step d (EvSend m) d'" "drain_step d (EvSnapshot ms) d'"

section \<open>Invariant\<close>

text \<open>
  The deltas counted never exceed the cap, and a drain that went to wait has a wake-up coming
  whenever something is queued or the queue is closed (otherwise it could sleep on a non-empty
  queue).
\<close>

definition drain_inv :: "drain \<Rightarrow> bool" where
  "drain_inv d \<longleftrightarrow> q_deltas (dr_queue d) \<le> maxPendingDeltas
     \<and> q_deltas (dr_queue d) \<le> length (q_pending (dr_queue d))
     \<and> (dr_waiting d \<and> (q_pending (dr_queue d) \<noteq> [] \<or> q_closed (dr_queue d)) \<longrightarrow> q_wake (dr_queue d))
     \<and> (dr_ended d \<longrightarrow> q_closed (dr_queue d) \<and> \<not> dr_waiting d)"

lemma drain_inv_init: "drain_inv (drain_init i)"
  by (simp add: drain_inv_def drain_init_def newSessionQueue_def)

lemma drain_inv_step: "drain_step d ev d' \<Longrightarrow> drain_inv d \<Longrightarrow> drain_inv d'"
  by (induction rule: drain_step.induct)
    (auto simp: drain_inv_def queue_defs q_take_def q_close_def q_wake_up_def split: if_splits)

lemma drain_inv_run: "drain_run d evs d' \<Longrightarrow> drain_inv d \<Longrightarrow> drain_inv d'"
  by (induction rule: drain_run.induct) (auto intro: drain_inv_step)

section \<open>What is handed out\<close>

fun ev_msgs :: "queue_ev \<Rightarrow> ServerMsg list" where
  "ev_msgs (EvSend m) = [m]"
| "ev_msgs (EvSnapshot ms) = ms"
| "ev_msgs _ = []"

fun is_snapshot :: "queue_ev \<Rightarrow> bool" where
  "is_snapshot (EvSnapshot ms) = True"
| "is_snapshot _ = False"

text \<open>Nothing closes the queue: neither the session nor a failed send.\<close>

definition no_close :: "queue_ev list \<Rightarrow> bool" where
  "no_close evs \<longleftrightarrow> EvClose \<notin> set evs \<and> EvFail \<notin> set evs"

definition in_flight :: "drain \<Rightarrow> ServerMsg list" where
  "in_flight d = dr_handed d @ q_pending (dr_queue d)"

lemma in_flight_step:
  assumes "drain_step d ev d'"
  shows "in_flight d' = in_flight d @ (if q_closed (dr_queue d) then []
     else if \<not> is_snapshot ev \<and> maxPendingDeltas \<le> q_deltas (dr_queue d) then [] else ev_msgs ev)"
  using assms
  by (induction rule: drain_step.induct)
    (auto simp: in_flight_def queue_defs q_take_def q_close_def q_wake_up_def split: if_splits)

lemma open_step:
  assumes "drain_step d ev d'" and "ev \<noteq> EvClose" and "ev \<noteq> EvFail" 
  shows "q_closed (dr_queue d') = q_closed (dr_queue d)"
  using assms
  by (induction rule: drain_step.induct)
    (auto simp: queue_defs q_take_def q_wake_up_def split: if_splits)

lemma open_run:
  assumes "drain_run d evs d'" and "no_close evs"
  shows "q_closed (dr_queue d') = q_closed (dr_queue d)"
  using assms by (induction rule: drain_run.induct) (auto simp: no_close_def open_step)

lemma fifo_run:
  assumes "drain_run d evs d'" and "no_close evs" and "\<not> q_closed (dr_queue d)"
  shows "\<exists>acc. subseq acc evs \<and> filter is_snapshot acc = filter is_snapshot evs
     \<and> in_flight d' = in_flight d @ concat (map ev_msgs acc)"
  using assms
proof (induction rule: drain_run.induct)
  case (step d evs d1 ev d2)
  then obtain acc where acc: "subseq acc evs" "filter is_snapshot acc = filter is_snapshot evs"
      "in_flight d1 = in_flight d @ concat (map ev_msgs acc)"
    by (auto simp: no_close_def)
  have "\<not> q_closed (dr_queue d1)"
    using open_run [OF step.hyps(1)] step.prems by (auto simp: no_close_def)
  then have flight: "in_flight d2 = in_flight d1 @ (if \<not> is_snapshot ev \<and> maxPendingDeltas \<le> q_deltas (dr_queue d1) then [] else ev_msgs ev)"
    using in_flight_step [OF step.hyps(2)] by simp
  show ?case
  proof (cases "\<not> is_snapshot ev \<and> maxPendingDeltas \<le> q_deltas (dr_queue d1)")
    case True
    with acc flight show ?thesis by (intro exI [of _ acc]) (auto intro: subseq_rev_drop_many)
  next
    case False
    with acc flight show ?thesis
      by (intro exI [of _ "acc @ [ev]"]) (auto simp: list_emb_append_mono)
  qed
qed (auto intro: exI [of _ "[]"])

text \<open>When no delta was dropped the history is exact.\<close>

lemma dropped_step:
  assumes "drain_step d ev d'" and "\<not> q_closed (dr_queue d)"
  shows "q_dropped (dr_queue d') = q_dropped (dr_queue d) +
     (if (\<exists>m. ev = EvSend m) \<and> maxPendingDeltas \<le> q_deltas (dr_queue d) then 1 else 0)"
  using assms
  by (induction rule: drain_step.induct)
    (auto simp: queue_defs q_take_def q_close_def q_wake_up_def split: if_splits)

lemma exact_run:
  assumes "drain_run d evs d'" and "no_close evs" and "\<not> q_closed (dr_queue d)"
  shows "\<exists>n \<le> length (concat (map ev_msgs evs)). q_dropped (dr_queue d') = q_dropped (dr_queue d) + of_nat n
     \<and> (n = 0 \<longrightarrow> in_flight d' = in_flight d @ concat (map ev_msgs evs))"
  using assms
proof (induction rule: drain_run.induct)
  case (step d evs d1 ev d2)
  then obtain n where n: "n \<le> length (concat (map ev_msgs evs))" "q_dropped (dr_queue d1) = q_dropped (dr_queue d) + of_nat n"
      "n = 0 \<Longrightarrow> in_flight d1 = in_flight d @ concat (map ev_msgs evs)"
    by (auto simp: no_close_def)
  have "\<not> q_closed (dr_queue d1)"
    using open_run [OF step.hyps(1)] step.prems by (auto simp: no_close_def)
  note last = dropped_step [OF step.hyps(2) this] in_flight_step [OF step.hyps(2)] this
  show ?case
  proof (cases "(\<exists>m. ev = EvSend m) \<and> maxPendingDeltas \<le> q_deltas (dr_queue d1)")
    case True
    with n last show ?thesis by (intro exI [of _ "Suc n"]) (auto simp: algebra_simps)
  next
    case False
    then have "is_snapshot ev \<or> q_deltas (dr_queue d1) < maxPendingDeltas \<or> ev_msgs ev = []"
      by (cases ev) auto
    with False n last show ?thesis by (intro exI [of _ n]) auto
  qed
qed auto

lemma drain_takes:
  assumes "drain_inv d" and "q_pending (dr_queue d) \<noteq> []" and "\<not> dr_ended d"
  shows "\<exists>evs d'. (evs = [EvTake] \<or> evs = [EvWake, EvTake]) \<and> drain_run d evs d'
     \<and> dr_handed d' = dr_handed d @ q_pending (dr_queue d) \<and> q_pending (dr_queue d') = []"
proof -
  have take: "\<exists>d'. drain_step d1 EvTake d' \<and> dr_handed d' = dr_handed d1 @ q_pending (dr_queue d1)
      \<and> q_pending (dr_queue d') = []"
    if "\<not> dr_waiting d1" "\<not> dr_ended d1" "q_pending (dr_queue d1) \<noteq> []" for d1
    using that take_batch [of d1 "q_pending (dr_queue d1)"] by (fastforce simp: q_take_def)
  show ?thesis
  proof (cases "dr_waiting d")
    case False
    with take [of d] assms show ?thesis
      by (metis append_Nil drain_run.simps)
  next
    case True
    let ?d1 = "d\<lparr>dr_queue := (dr_queue d)\<lparr>q_wake := False\<rparr>, dr_waiting := False\<rparr>"
    have "drain_step d EvWake ?d1"
      using True assms by (intro wake) (auto simp: drain_inv_def q_wake_up_def)
    moreover obtain d' where "drain_step ?d1 EvTake d'" "q_pending (dr_queue d') = []"
        "dr_handed d' = dr_handed d @ q_pending (dr_queue d)"
      using take [of ?d1] assms by auto
    ultimately have "drain_run d [EvWake, EvTake] d'"
      by (metis append_Cons append_Nil drain_run.simps)
    with \<open>q_pending _ = []\<close> \<open>dr_handed _ = _\<close> show ?thesis by blast
  qed
qed

section \<open>Properties\<close>

text \<open>
  C28: Messages leave a session's queue in the order they were queued, and every snapshot whole: as
  long as nothing closes the queue, what was handed out followed by what is pending is the queued
  events with some single deltas left out and no snapshot left out.
\<close>

theorem drain_history:
  assumes "drain_run (drain_init i) evs d" and "no_close evs"
  shows "\<exists>acc. subseq acc evs \<and> filter is_snapshot acc = filter is_snapshot evs
     \<and> dr_handed d @ q_pending (dr_queue d) = concat (map ev_msgs acc)"
  using fifo_run [OF assms] by (auto simp: in_flight_def drain_init_def newSessionQueue_def)

text \<open>When the queue counted no dropped delta, the history is complete as well.\<close>

theorem drain_exact:
  assumes "drain_run (drain_init i) evs d" and "no_close evs"
    and "length (concat (map ev_msgs evs)) < 2 ^ 64" and "q_dropped (dr_queue d) = 0"
  shows "dr_handed d @ q_pending (dr_queue d) = concat (map ev_msgs evs)"
proof -
  obtain n where n: "n \<le> length (concat (map ev_msgs evs))" "q_dropped (dr_queue d) = of_nat n"
      "n = 0 \<Longrightarrow> in_flight d = concat (map ev_msgs evs)"
    using exact_run [OF assms(1,2)] by (auto simp: in_flight_def drain_init_def newSessionQueue_def)
  with assms(4) have "2 ^ 64 dvd n" by (simp add: word_of_nat_eq_0_iff)
  with n(1) assms(3) have "n = 0" by (auto dest: dvd_imp_le)
  with n(3) show ?thesis by (simp add: in_flight_def)
qed

text \<open>
  C26: No wake-up is lost: whatever interleaving of callers and drain led to a state in which
  something is queued, the drain's own next one or two steps hand all of it out, and at most
  \<open>maxPendingDeltas\<close> deltas are waiting there.
\<close>

theorem drain_no_lost_wakeup:
  assumes "drain_run (drain_init i) evs d" and "q_pending (dr_queue d) \<noteq> []" and "\<not> dr_ended d"
  shows "q_deltas (dr_queue d) \<le> maxPendingDeltas
     \<and> (\<exists>evs' d'. (evs' = [EvTake] \<or> evs' = [EvWake, EvTake]) \<and> drain_run d evs' d'
          \<and> dr_handed d' = dr_handed d @ q_pending (dr_queue d) \<and> q_pending (dr_queue d') = [])"
proof
  have inv: "drain_inv d" using assms(1) drain_inv_init by (rule drain_inv_run)
  then show "q_deltas (dr_queue d) \<le> maxPendingDeltas" by (simp add: drain_inv_def)
  from drain_takes [OF inv assms(2,3)]
  show "\<exists>evs' d'. (evs' = [EvTake] \<or> evs' = [EvWake, EvTake]) \<and> drain_run d evs' d'
      \<and> dr_handed d' = dr_handed d @ q_pending (dr_queue d) \<and> q_pending (dr_queue d') = []" .
qed

text \<open>
  A run for the three: the drain finds nothing and waits, a delta and a snapshot are queued, it
  wakes up.
\<close>

definition example_evs :: "queue_ev list" where
  "example_evs = [EvTake, EvSend ServerKeepAlive, EvSnapshot [EndOfRIB 7 0, EndOfGlobal 0], EvWake]"

definition example_drain :: drain where
  "example_drain = \<lparr>dr_queue = \<lparr>q_id = ''n1'', q_wake = False,
      q_pending = [ServerKeepAlive, EndOfRIB 7 0, EndOfGlobal 0], q_deltas = 1, q_dropping = False,
      q_dropped = 0, q_closed = False\<rparr>, dr_waiting = False, dr_ended = False, dr_handed = []\<rparr>"

lemma example_run: "drain_run (drain_init ''n1'') example_evs example_drain"
proof -
  let ?q = "newSessionQueue ''n1''"
  let ?d1 = "(drain_init ''n1'')\<lparr>dr_waiting := True\<rparr>"
  let ?d2 = "?d1\<lparr>dr_queue := q_Send ServerKeepAlive ?q\<rparr>"
  let ?d3 = "?d2\<lparr>dr_queue := q_SendSnapshot [EndOfRIB 7 0, EndOfGlobal 0] (q_Send ServerKeepAlive ?q)\<rparr>"
  have 1: "drain_step (drain_init ''n1'') EvTake ?d1"
    using take_wait [of "drain_init ''n1''" ?q] by (simp add: drain_init_def q_take_def newSessionQueue_def)
  have 2: "drain_step ?d1 (EvSend ServerKeepAlive) ?d2"
    using send [of ?d1 ServerKeepAlive] by (simp add: drain_init_def)
  have 3: "drain_step ?d2 (EvSnapshot [EndOfRIB 7 0, EndOfGlobal 0]) ?d3"
    using snapshot [of ?d2 "[EndOfRIB 7 0, EndOfGlobal 0]"] by simp
  have 4: "drain_step ?d3 EvWake example_drain"
    using wake [of ?d3 "dr_queue example_drain"]
    by (simp add: drain_init_def example_drain_def queue_defs q_wake_up_def newSessionQueue_def maxPendingDeltas_def)
  from drain_run.step [OF drain_run.step [OF drain_run.step [OF drain_run.step [OF drain_run.stop 1] 2] 3] 4]
  show ?thesis by (simp add: example_evs_def)
qed

lemma example_no_close: "no_close example_evs"
  by (simp add: no_close_def example_evs_def)

theorem drain_history_witness:
  "\<exists>acc. subseq acc example_evs \<and> filter is_snapshot acc = filter is_snapshot example_evs
     \<and> dr_handed example_drain @ q_pending (dr_queue example_drain) = concat (map ev_msgs acc)"
  by (rule drain_history [OF example_run example_no_close])

theorem drain_exact_witness:
  "dr_handed example_drain @ q_pending (dr_queue example_drain) = concat (map ev_msgs example_evs)"
  by (rule drain_exact [OF example_run example_no_close]) (simp_all add: example_evs_def example_drain_def)

theorem drain_no_lost_wakeup_witness:
  "q_deltas (dr_queue example_drain) \<le> maxPendingDeltas
     \<and> (\<exists>evs' d'. (evs' = [EvTake] \<or> evs' = [EvWake, EvTake]) \<and> drain_run example_drain evs' d'
          \<and> dr_handed d' = dr_handed example_drain @ q_pending (dr_queue example_drain)
          \<and> q_pending (dr_queue d') = [])"
  by (rule drain_no_lost_wakeup [OF example_run]) (simp_all add: example_drain_def)

end
