(* ===== verification/Rib.thy ===== *)
theory Rib
  imports Netip Session_Queue
begin

text \<open>
  The reflector's route table (\<^verbatim>\<open>mesh/reflector/rib.go\<close>): its state, the per-VNI route operations,
  fencing and the session claim. The global NAT and public tables are in \<open>Rib_Global\<close>; the state
  record holds their fields too, as the Go struct does.

  Every method runs under \<^verbatim>\<open>RIB.mu\<close>, so it is one atomic function of the state. What a method
  hands to a sink is returned as a list of effects in call order; \<open>Reflector\<close> applies them to the
  session queues. A sink is a reference together with its id; comparing two sinks compares the
  references.
\<close>

section \<open>State\<close>

datatype Sink = Sink (sink_ref: nat) (ID: string)

datatype effect = Send Sink ServerMsg | SendSnapshot Sink "ServerMsg list"

record routeEntry =
  re_origins :: "(string, string list) gomap"
  re_external :: bool

type_synonym natKey = "string \<times> u32"
type_synonym publicKey = "PublicKind \<times> string \<times> string \<times> string"

record RIB =
  rb_routes :: "(routeKey, routeEntry) gomap"
  rb_byOrigin :: "(string, routeKey goset) gomap"
  rb_subscribers :: "(u32, (string, Sink) gomap) gomap"
  rb_nat :: "(natKey, NatBlock) gomap"
  rb_natByOrigin :: "(string, natKey goset) gomap"
  rb_public :: "(publicKey, PublicRecord) gomap"
  rb_publicByOrigin :: "(string, publicKey goset) gomap"
  rb_natOrigin :: "(natKey, string) gomap"
  rb_publicOrigin :: "(publicKey, string) gomap"
  rb_sinks :: "(string, Sink) gomap"
  rb_globalSnap :: "ServerMsg list option"
  rb_fenced :: "(string, IPNet) gomap"
  rb_origins :: "(string, u64) gomap"
  rb_nextToken :: u64

definition NewRIB :: RIB where
  "NewRIB = \<lparr>rb_routes = [], rb_byOrigin = [], rb_subscribers = [], rb_nat = [], rb_natByOrigin = [],
     rb_public = [], rb_publicByOrigin = [], rb_natOrigin = [], rb_publicOrigin = [], rb_sinks = [],
     rb_globalSnap = None, rb_fenced = [], rb_origins = [], rb_nextToken = 0\<rparr>"

text \<open>A step of the RIB: the new state and what was handed to the sinks.\<close>

type_synonym act = "RIB \<Rightarrow> RIB \<times> effect list"

definition then_act :: "act \<Rightarrow> act \<Rightarrow> act" where
  "then_act f g r = (let (r1, e1) = f r; (r2, e2) = g r1 in (r2, e1 @ e2))"

fun for_each :: "('a \<Rightarrow> act) \<Rightarrow> 'a list \<Rightarrow> act" where
  "for_each f [] r = (r, [])"
| "for_each f (x # xs) r = (let (r1, e1) = f x r; (r2, e2) = for_each f xs r1 in (r2, e1 @ e2))"

text \<open>Deleting a key from a set stored in a map: nothing when the map has no such set.\<close>

definition del_in :: "'a \<Rightarrow> 'k \<Rightarrow> ('a, 'k goset) gomap \<Rightarrow> ('a, 'k goset) gomap" where
  "del_in a k m = (case mget m a of None \<Rightarrow> m | Some s \<Rightarrow> mput a (sdel k s) m)"

text \<open>Adding a key to a set stored in a map, creating the set when it is missing.\<close>

definition add_in :: "'a \<Rightarrow> 'k \<Rightarrow> ('a, 'k goset) gomap \<Rightarrow> ('a, 'k goset) gomap" where
  "add_in a k m = mput a (sput k (mget0 [] m a)) m"

section \<open>What is advertised\<close>

definition mergeNexthops :: "(string, string list) gomap \<Rightarrow> string list" where
  "mergeNexthops origins = sorted_union (map snd origins)"

fun equalStrs :: "string list \<Rightarrow> string list \<Rightarrow> bool" where
  "equalStrs a b = (if length a \<noteq> length b then False else list_all (\<lambda>i. a ! i = b ! i) [0..<length a])"

definition nexthopFenced :: "string \<Rightarrow> (string, IPNet) gomap \<Rightarrow> bool" where
  "nexthopFenced nh fenced = (case ParseIP nh of
     None \<Rightarrow> False
   | Some ip \<Rightarrow> list_ex (\<lambda>(_, ipnet). ipnet_contains ipnet ip) fenced)"

definition advertised :: "RIB \<Rightarrow> routeEntry \<Rightarrow> string list" where
  "advertised r e = (let merged = mergeNexthops (re_origins e) in
     if rb_fenced r = [] then merged else filter (\<lambda>nh. \<not> nexthopFenced nh (rb_fenced r)) merged)"

definition no_entry :: routeEntry where
  "no_entry = \<lparr>re_origins = [], re_external = False\<rparr>"

definition Advertised :: "u32 \<Rightarrow> string \<Rightarrow> RIB \<Rightarrow> string list" where
  "Advertised vni pfx r = advertised r (mget0 no_entry (rb_routes r) (vni, pfx))"

definition HasRoute :: "u32 \<Rightarrow> string \<Rightarrow> RIB \<Rightarrow> bool" where
  "HasRoute vni pfx r = (case mget (rb_routes r) (vni, pfx) of
     None \<Rightarrow> False | Some e \<Rightarrow> length (advertised r e) > 0)"

section \<open>Fanout\<close>

definition routeUpdate :: "routeKey \<Rightarrow> string list \<Rightarrow> RouteOp \<Rightarrow> bool \<Rightarrow> ServerMsg" where
  "routeUpdate k nexthops op external = RouteUpdate k nexthops op external"

definition only :: "string \<Rightarrow> string \<Rightarrow> bool" where
  "only origin i = (i = origin)"

definition originsOf :: "routeEntry \<Rightarrow> string \<Rightarrow> bool" where
  "originsOf e i = (mget (re_origins e) i \<noteq> None)"

text \<open>The Go \<^verbatim>\<open>nil\<close> skip function.\<close>

definition skip_none :: "string \<Rightarrow> bool" where
  "skip_none i = False"

definition fanout :: "RIB \<Rightarrow> routeKey \<Rightarrow> string list \<Rightarrow> RouteOp \<Rightarrow> (string \<Rightarrow> bool) \<Rightarrow> bool \<Rightarrow> effect list" where
  "fanout r k nexthops op skip external =
     map (\<lambda>(_, s). Send s (routeUpdate k nexthops op external))
       (filter (\<lambda>(i, _). \<not> skip i) (mget0 [] (rb_subscribers r) (fst k)))"

definition fanoutChange ::
  "RIB \<Rightarrow> routeKey \<Rightarrow> string list \<Rightarrow> string list \<Rightarrow> (string \<Rightarrow> bool) \<Rightarrow> bool \<Rightarrow> effect list" where
  "fanoutChange r k before after skip external =
     (if equalStrs before after then []
      else if length after = 0 then fanout r k [] ROUTE_OP_WITHDRAW skip external
      else fanout r k after ROUTE_OP_ADD skip external)"

section \<open>Subscriptions\<close>

text \<open>The keys of one VNI, sorted by prefix.\<close>

definition vni_keys :: "u32 \<Rightarrow> RIB \<Rightarrow> routeKey list" where
  "vni_keys vni r = sort_key snd (filter (\<lambda>k. fst k = vni) (mkeys (rb_routes r)))"

definition snapshot_routes :: "u32 \<Rightarrow> RIB \<Rightarrow> ServerMsg list" where
  "snapshot_routes vni r =
     map (\<lambda>k. let e = mget0 no_entry (rb_routes r) k
               in routeUpdate k (advertised r e) ROUTE_OP_ADD (re_external e))
       (filter (\<lambda>k. length (advertised r (mget0 no_entry (rb_routes r) k)) \<noteq> 0) (vni_keys vni r))"

definition RIB_Subscribe :: "u32 \<Rightarrow> Sink \<Rightarrow> act" where
  "RIB_Subscribe vni s r =
     (let subs = mget0 [] (rb_subscribers r) vni in
      if mget subs (ID s) = Some s then (r, [])
      else let r1 = r\<lparr>rb_subscribers := mput vni (mput (ID s) s subs) (rb_subscribers r)\<rparr>;
               snap = snapshot_routes vni r1
           in (r1, [SendSnapshot s (snap @ [EndOfRIB vni (of_nat (length snap))])]))"

text \<open>Dropping one sink id from one VNI's subscribers, and the VNI with its last subscriber.\<close>

definition drop_sub :: "string \<Rightarrow> u32 \<Rightarrow> (u32, (string, Sink) gomap) gomap \<Rightarrow> (u32, (string, Sink) gomap) gomap" where
  "drop_sub sinkID vni m = (case mget m vni of
     None \<Rightarrow> m
   | Some subs \<Rightarrow> let subs1 = mdel sinkID subs in
       if length subs1 = 0 then mdel vni m else mput vni subs1 m)"

definition RIB_Unsubscribe :: "u32 \<Rightarrow> string \<Rightarrow> act" where
  "RIB_Unsubscribe vni sinkID r = (r\<lparr>rb_subscribers := drop_sub sinkID vni (rb_subscribers r)\<rparr>, [])"

section \<open>Announce and withdraw\<close>

definition RIB_Announce :: "string \<Rightarrow> u32 \<Rightarrow> string \<Rightarrow> string list \<Rightarrow> bool \<Rightarrow> act" where
  "RIB_Announce origin vni pfx nexthops external r =
     (let k = (vni, pfx);
          e = mget0 no_entry (rb_routes r) k;
          before = advertised r e;
          e1 = e\<lparr>re_origins := mput origin nexthops (re_origins e), re_external := external\<rparr>;
          r1 = r\<lparr>rb_routes := mput k e1 (rb_routes r), rb_byOrigin := add_in origin k (rb_byOrigin r)\<rparr>
      in (r1, fanoutChange r1 k before (advertised r1 e1) (only origin) external))"

definition withdrawRouteOrigin :: "string \<Rightarrow> routeKey \<Rightarrow> act" where
  "withdrawRouteOrigin origin k r = (case mget (rb_routes r) k of
     None \<Rightarrow> (r, [])
   | Some e \<Rightarrow>
       (case mget (re_origins e) origin of
          None \<Rightarrow> (r, [])
        | Some _ \<Rightarrow>
            let before = advertised r e;
                e1 = e\<lparr>re_origins := mdel origin (re_origins e)\<rparr>;
                r1 = r\<lparr>rb_routes := (if length (re_origins e1) = 0 then mdel k (rb_routes r)
                                     else mput k e1 (rb_routes r))\<rparr>
            in (r1, fanoutChange r1 k before (advertised r1 e1) skip_none (re_external e))))"

definition RIB_Withdraw :: "string \<Rightarrow> u32 \<Rightarrow> string \<Rightarrow> act" where
  "RIB_Withdraw origin vni pfx r =
     (let k = (vni, pfx);
          r1 = r\<lparr>rb_byOrigin := del_in origin k (rb_byOrigin r)\<rparr>
      in withdrawRouteOrigin origin k r1)"

section \<open>Fencing\<close>

definition fenceKey :: "string \<Rightarrow> (string \<times> IPNet) option" where
  "fenceKey pfx = (case ParseCIDR pfx of
     None \<Rightarrow> None | Some (_, ipnet) \<Rightarrow> Some (ipnet_string ipnet, ipnet))"

definition refilter :: "(RIB \<Rightarrow> RIB) \<Rightarrow> act" where
  "refilter change r =
     (let before = map (\<lambda>(k, e). (k, advertised r e)) (rb_routes r);
          r1 = change r
      in (r1, concat (map (\<lambda>(k, e).
            fanoutChange r1 k (mget0 [] before k) (advertised r1 e) (originsOf e) (re_external e))
          (rb_routes r1))))"

definition SetFence :: "string \<Rightarrow> act" where
  "SetFence pfx r = (case fenceKey pfx of
     None \<Rightarrow> (r, [])
   | Some (key, ipnet) \<Rightarrow>
       (case mget (rb_fenced r) key of
          Some _ \<Rightarrow> (r, [])
        | None \<Rightarrow> refilter (\<lambda>r. r\<lparr>rb_fenced := mput key ipnet (rb_fenced r)\<rparr>) r))"

definition ClearFence :: "string \<Rightarrow> act" where
  "ClearFence pfx r = (case fenceKey pfx of
     None \<Rightarrow> (r, [])
   | Some (key, _) \<Rightarrow>
       (case mget (rb_fenced r) key of
          None \<Rightarrow> (r, [])
        | Some _ \<Rightarrow> refilter (\<lambda>r. r\<lparr>rb_fenced := mdel key (rb_fenced r)\<rparr>) r))"

section \<open>Who still announces from inside a prefix\<close>

record RouteHolding =
  rh_Key :: routeKey
  rh_Origin :: string
  rh_Nexthop :: string

definition holdersWithin :: "routeKey \<Rightarrow> routeKey \<Rightarrow> (string, IPNet) gomap \<Rightarrow> RIB \<Rightarrow> RouteHolding list" where
  "holdersWithin k asked nets r =
     (let origins = re_origins (mget0 no_entry (rb_routes r) k)
      in concat (map (\<lambda>i. map (\<lambda>nh. \<lparr>rh_Key = asked, rh_Origin = i, rh_Nexthop = nh\<rparr>)
             (filter (\<lambda>nh. nexthopFenced nh nets) (sort (mget0 [] origins i))))
           (sort (mkeys origins))))"

definition spellings :: "routeKey \<Rightarrow> routeKey list" where
  "spellings k = (case ParsePrefix (snd k) of
     None \<Rightarrow> [k]
   | Some p \<Rightarrow> if prefix_string p = snd k then [k] else [k, (fst k, prefix_string p)])"

text \<open>The first spelling with a holder answers for the asked key.\<close>

fun first_holders :: "routeKey list \<Rightarrow> routeKey \<Rightarrow> (string, IPNet) gomap \<Rightarrow> RIB \<Rightarrow> RouteHolding list" where
  "first_holders [] asked nets r = []"
| "first_holders (k # ks) asked nets r =
     (let hs = holdersWithin k asked nets r in if length hs > 0 then hs else first_holders ks asked nets r)"

fun announced_loop :: "routeKey list \<Rightarrow> routeKey goset \<Rightarrow> (string, IPNet) gomap \<Rightarrow> RIB \<Rightarrow> RouteHolding list" where
  "announced_loop [] seen nets r = []"
| "announced_loop (asked # qs) seen nets r =
     (if asked \<in> set seen then announced_loop qs seen nets r
      else first_holders (spellings asked) asked nets r @ announced_loop qs (sput asked seen) nets r)"

definition AnnouncedFrom :: "string \<Rightarrow> routeKey list \<Rightarrow> RIB \<Rightarrow> RouteHolding list option" where
  "AnnouncedFrom within keys r = (case ParseCIDR within of
     None \<Rightarrow> None
   | Some (_, ipnet) \<Rightarrow> Some (announced_loop keys [] [(within, ipnet)] r))"

section \<open>Facts about the advertised set\<close>

lemma equalStrs_iff [simp]: "equalStrs a b \<longleftrightarrow> a = b"
  by (auto simp: list_all_iff intro: nth_equalityI)

declare equalStrs.simps [simp del]

lemma nexthopFenced_none [simp]: "nexthopFenced nh [] = False"
  by (simp add: nexthopFenced_def split: option.split)

lemma nexthopFenced_iff:
  "mwf fs \<Longrightarrow> nexthopFenced nh fs \<longleftrightarrow>
     (\<exists>ip key net. ParseIP nh = Some ip \<and> mget fs key = Some net \<and> ipnet_contains net ip)"
  by (auto simp: nexthopFenced_def list_ex_iff mget_iff [symmetric] split: option.split)

lemma advertised_eq:
  "advertised r e = filter (\<lambda>nh. \<not> nexthopFenced nh (rb_fenced r)) (mergeNexthops (re_origins e))"
  by (simp add: advertised_def Let_def)

lemma advertised_cong: "rb_fenced r = rb_fenced r' \<Longrightarrow> advertised r e = advertised r' e"
  by (simp add: advertised_eq)

lemma set_mergeNexthops:
  "mwf os \<Longrightarrow> set (mergeNexthops os) = {nh. \<exists>orig nhs. mget os orig = Some nhs \<and> nh \<in> set nhs}"
  by (auto simp: mergeNexthops_def mget_iff [symmetric]) force+

lemma set_advertised:
  "mwf (re_origins e) \<Longrightarrow>
     set (advertised r e) = {nh. (\<exists>orig nhs. mget (re_origins e) orig = Some nhs \<and> nh \<in> set nhs)
                                 \<and> \<not> nexthopFenced nh (rb_fenced r)}"
  by (auto simp: advertised_eq set_mergeNexthops)

lemma advertised_sorted [simp]: "sorted (advertised r e)"
  by (simp add: advertised_eq mergeNexthops_def sorted_wrt_filter)

lemma advertised_distinct [simp]: "distinct (advertised r e)"
  by (simp add: advertised_eq mergeNexthops_def)

lemma advertised_no_origins [simp]: "re_origins e = [] \<Longrightarrow> advertised r e = []"
  by (simp add: advertised_eq mergeNexthops_def sorted_union_def)

lemma advertised_no_entry [simp]: "advertised r no_entry = []"
  by (simp add: no_entry_def)

text \<open>The stored origins of a key decide what is advertised for it, as sets of nexthops.\<close>

lemma advertised_set_eq:
  "set (advertised r e) = set (advertised r' e') \<Longrightarrow> advertised r e = advertised r' e'"
  by (rule sorted_distinct_eq) simp_all

section \<open>Index operations\<close>

lemma mget_del_in: "mget0 [] (del_in a k m) b = (if b = a then sdel k (mget0 [] m a) else mget0 [] m b)"
  by (auto simp: del_in_def mget0_def sdel_def split: option.split)

lemma mget_add_in [simp]: "mget0 [] (add_in a k m) b = (if b = a then sput k (mget0 [] m a) else mget0 [] m b)"
  by (simp add: add_in_def)

lemma mwf_del_in [simp, wf_intros]: "mwf m \<Longrightarrow> mwf (del_in a k m)"
  by (simp add: del_in_def split: option.split)

lemma mwf_add_in [simp, wf_intros]: "mwf m \<Longrightarrow> mwf (add_in a k m)"
  by (simp add: add_in_def)

lemma set_del_in [simp]:
  "set (mget0 [] (del_in a k m) b) = (if b = a then set (mget0 [] m b) - {k} else set (mget0 [] m b))"
  by (simp add: mget_del_in)

section \<open>Invariant of the route table\<close>

text \<open>
  Every stored route has at least one origin, and the per-origin index lists exactly the keys an
  origin is stored under.
\<close>

definition announces :: "RIB \<Rightarrow> string \<Rightarrow> routeKey \<Rightarrow> bool" where
  "announces r origin k = (mget (re_origins (mget0 no_entry (rb_routes r) k)) origin \<noteq> None)"

definition routes_inv :: "RIB \<Rightarrow> bool" where
  "routes_inv r \<longleftrightarrow> mwf (rb_routes r) \<and> mwf (rb_byOrigin r) \<and> mwf (rb_fenced r)
     \<and> (\<forall>k e. mget (rb_routes r) k = Some e \<longrightarrow> mwf (re_origins e) \<and> re_origins e \<noteq> [])
     \<and> (\<forall>orig k. k \<in> set (mget0 [] (rb_byOrigin r) orig) \<longleftrightarrow> announces r orig k)"

text \<open>Subscriber maps are keyed by the sink's own id and a VNI without subscribers is absent.\<close>

definition subs_inv :: "RIB \<Rightarrow> bool" where
  "subs_inv r \<longleftrightarrow> mwf (rb_subscribers r) \<and> mwf (rb_sinks r)
     \<and> (\<forall>vni subs. mget (rb_subscribers r) vni = Some subs \<longrightarrow>
          subs \<noteq> [] \<and> mwf subs \<and> (\<forall>i s. mget subs i = Some s \<longrightarrow> ID s = i))
     \<and> (\<forall>i s. mget (rb_sinks r) i = Some s \<longrightarrow> ID s = i)"

lemma routes_invD:
  assumes "routes_inv r"
  shows "mwf (rb_routes r)" "mwf (rb_byOrigin r)" "mwf (rb_fenced r)"
    and "mget (rb_routes r) k = Some e \<Longrightarrow> mwf (re_origins e)"
    and "mget (rb_routes r) k = Some e \<Longrightarrow> re_origins e \<noteq> []"
    and "k \<in> set (mget0 [] (rb_byOrigin r) orig) \<longleftrightarrow> announces r orig k"
  using assms unfolding routes_inv_def by blast+

lemma routes_inv_origins: "routes_inv r \<Longrightarrow> mwf (re_origins (mget0 no_entry (rb_routes r) k))"
  by (auto simp: mget0_def no_entry_def dest: routes_invD split: option.split)

lemma routes_inv_cong:
  "rb_routes r' = rb_routes r \<Longrightarrow> rb_byOrigin r' = rb_byOrigin r \<Longrightarrow> rb_fenced r' = rb_fenced r \<Longrightarrow>
     routes_inv r' \<longleftrightarrow> routes_inv r"
  by (simp add: routes_inv_def announces_def)

lemma subs_inv_cong:
  "rb_subscribers r' = rb_subscribers r \<Longrightarrow> rb_sinks r' = rb_sinks r \<Longrightarrow> subs_inv r' \<longleftrightarrow> subs_inv r"
  by (simp add: subs_inv_def)

lemma routes_inv_new: "routes_inv NewRIB"
  by (simp add: routes_inv_def NewRIB_def announces_def no_entry_def)

lemma subs_inv_new: "subs_inv NewRIB"
  by (simp add: subs_inv_def NewRIB_def)

subsection \<open>Announce\<close>

lemma announce_routes:
  "mget0 no_entry (rb_routes (fst (RIB_Announce orig vni p nhs ext r))) k =
     (let e = mget0 no_entry (rb_routes r) (vni, p)
      in if k = (vni, p) then e\<lparr>re_origins := mput orig nhs (re_origins e), re_external := ext\<rparr>
         else mget0 no_entry (rb_routes r) k)"
  by (simp add: RIB_Announce_def Let_def)

lemma announce_announces:
  "announces (fst (RIB_Announce orig vni p nhs ext r)) o' k \<longleftrightarrow>
     announces r o' k \<or> (o' = orig \<and> k = (vni, p))"
  by (auto simp: announces_def announce_routes Let_def)

lemma routes_inv_Announce: "routes_inv r \<Longrightarrow> routes_inv (fst (RIB_Announce orig vni p nhs ext r))"
  using routes_inv_origins [of r "(vni, p)"]
  unfolding routes_inv_def announce_announces
  by (auto simp: RIB_Announce_def Let_def)

subsection \<open>Withdraw\<close>

lemma withdraw_origin_routes:
  "mget (rb_routes (fst (withdrawRouteOrigin orig k r))) k' =
     (if k' \<noteq> k then mget (rb_routes r) k'
      else case mget (rb_routes r) k of
        None \<Rightarrow> None
      | Some e \<Rightarrow> if mget (re_origins e) orig = None then Some e
          else if mdel orig (re_origins e) = [] then None
          else Some (e\<lparr>re_origins := mdel orig (re_origins e)\<rparr>))"
  by (auto simp: withdrawRouteOrigin_def Let_def split: option.split)

lemma withdraw_origin_frame:
  "rb_byOrigin (fst (withdrawRouteOrigin orig k r)) = rb_byOrigin r"
  "rb_fenced (fst (withdrawRouteOrigin orig k r)) = rb_fenced r"
  "rb_subscribers (fst (withdrawRouteOrigin orig k r)) = rb_subscribers r"
  "rb_sinks (fst (withdrawRouteOrigin orig k r)) = rb_sinks r"
  "rb_nat (fst (withdrawRouteOrigin orig k r)) = rb_nat r"
  "rb_natOrigin (fst (withdrawRouteOrigin orig k r)) = rb_natOrigin r"
  "rb_natByOrigin (fst (withdrawRouteOrigin orig k r)) = rb_natByOrigin r"
  "rb_public (fst (withdrawRouteOrigin orig k r)) = rb_public r"
  "rb_publicOrigin (fst (withdrawRouteOrigin orig k r)) = rb_publicOrigin r"
  "rb_publicByOrigin (fst (withdrawRouteOrigin orig k r)) = rb_publicByOrigin r"
  "rb_globalSnap (fst (withdrawRouteOrigin orig k r)) = rb_globalSnap r"
  "rb_origins (fst (withdrawRouteOrigin orig k r)) = rb_origins r"
  "rb_nextToken (fst (withdrawRouteOrigin orig k r)) = rb_nextToken r"
  by (auto simp: withdrawRouteOrigin_def Let_def split: option.split)

lemma withdraw_origin_announces:
  "announces (fst (withdrawRouteOrigin orig k r)) o' k' \<longleftrightarrow>
     announces r o' k' \<and> \<not> (o' = orig \<and> k' = k)"
proof (cases "mget (rb_routes r) k")
  case None
  then show ?thesis
    by (auto simp: announces_def mget0_def withdraw_origin_routes no_entry_def)
next
  case (Some e)
  have "mget (re_origins e) o' = None" if "o' \<noteq> orig" "mdel orig (re_origins e) = []"
    using that by (metis mget_del mget_empty)
  with Some show ?thesis
    by (auto simp: announces_def mget0_def withdraw_origin_routes no_entry_def)
qed

lemma withdraw_origin_wf:
  "mwf (rb_routes r) \<Longrightarrow> mwf (rb_routes (fst (withdrawRouteOrigin orig k r)))"
  by (auto simp: withdrawRouteOrigin_def Let_def split: option.split)

text \<open>
  During a teardown the index entry of the leaving origin is already gone: the invariant then
  holds for every other origin, and for the leaving one the routes it is still stored under.
\<close>

definition routes_inv_but :: "string \<Rightarrow> routeKey set \<Rightarrow> RIB \<Rightarrow> bool" where
  "routes_inv_but gone ks r \<longleftrightarrow> mwf (rb_routes r) \<and> mwf (rb_byOrigin r) \<and> mwf (rb_fenced r)
     \<and> (\<forall>k e. mget (rb_routes r) k = Some e \<longrightarrow> mwf (re_origins e) \<and> re_origins e \<noteq> [])
     \<and> (\<forall>orig k. announces r orig k \<longleftrightarrow>
          k \<in> set (mget0 [] (rb_byOrigin r) orig) \<or> (orig = gone \<and> k \<in> ks))"

lemma routes_inv_but_empty: "routes_inv_but gone {} r \<longleftrightarrow> routes_inv r"
  by (auto simp: routes_inv_but_def routes_inv_def)

lemma routes_inv_but_withdraw:
  assumes "routes_inv_but gone ks r" and "k \<notin> set (mget0 [] (rb_byOrigin r) gone)"
  shows "routes_inv_but gone (ks - {k}) (fst (withdrawRouteOrigin gone k r))"
proof -
  from assms(1) have "\<forall>k' e. mget (rb_routes (fst (withdrawRouteOrigin gone k r))) k' = Some e \<longrightarrow>
      mwf (re_origins e) \<and> re_origins e \<noteq> []"
    unfolding routes_inv_but_def withdraw_origin_routes by (auto split: if_splits option.splits)
  moreover have "announces (fst (withdrawRouteOrigin gone k r)) orig k' \<longleftrightarrow>
      k' \<in> set (mget0 [] (rb_byOrigin r) orig) \<or> (orig = gone \<and> k' \<in> ks - {k})" for orig k'
    using assms unfolding routes_inv_but_def withdraw_origin_announces by blast
  ultimately show ?thesis
    using assms(1) unfolding routes_inv_but_def
    by (simp add: withdraw_origin_frame withdraw_origin_wf)
qed

lemma routes_inv_Withdraw:
  assumes "routes_inv r"
  shows "routes_inv (fst (RIB_Withdraw orig vni p r))"
proof -
  let ?r1 = "r\<lparr>rb_byOrigin := del_in orig (vni, p) (rb_byOrigin r)\<rparr>"
  let ?ks = "if announces r orig (vni, p) then {(vni, p)} else {}"
  have same: "announces ?r1 orig' k = announces r orig' k" for orig' k
    by (simp add: announces_def)
  have "routes_inv_but orig ?ks ?r1"
    unfolding routes_inv_but_def same using routes_invD [OF assms] by auto
  then have "routes_inv_but orig (?ks - {(vni, p)}) (fst (withdrawRouteOrigin orig (vni, p) ?r1))"
    by (rule routes_inv_but_withdraw) simp
  then have "routes_inv_but orig {} (fst (withdrawRouteOrigin orig (vni, p) ?r1))"
    by (simp split: if_splits)
  then show ?thesis by (simp add: routes_inv_but_empty RIB_Withdraw_def Let_def)
qed

end
