(* ===== verification/Rib_Global.thy ===== *)
theory Rib_Global
  imports Rib
begin

text \<open>
  The global NAT table (\<^verbatim>\<open>mesh/reflector/nattable.go\<close>) and the global public-prefix table
  (\<^verbatim>\<open>mesh/reflector/publictable.go\<close>). Both keep a record per key, the origin that announced it and
  the keys of each origin; the interface \<open>owned_table\<close> states what the two
  have in common and what follows from it.
\<close>

section \<open>Owner permission and outcomes\<close>

text \<open>The session certificate's check; \<^const>\<open>None\<close> is the nil permit, which allows everything.\<close>

type_synonym OwnerPermit = "(string \<Rightarrow> bool) option"

definition allows :: "OwnerPermit \<Rightarrow> string \<Rightarrow> bool" where
  "allows p ownerUnderlay = (case p of None \<Rightarrow> True | Some f \<Rightarrow> f ownerUnderlay)"

datatype WithdrawOutcome = WithdrawApplied | WithdrawAbsent | WithdrawRefused

section \<open>NAT blocks\<close>

definition natUpdate :: "NatBlock \<Rightarrow> RouteOp \<Rightarrow> ServerMsg" where
  "natUpdate b op = NatUpdate b op"

definition natFanout :: "NatBlock \<Rightarrow> RouteOp \<Rightarrow> act" where
  "natFanout b op r = (r\<lparr>rb_globalSnap := None\<rparr>, map (\<lambda>(_, s). Send s (natUpdate b op)) (rb_sinks r))"

definition nat_key :: "NatBlock \<Rightarrow> natKey" where
  "nat_key b = (nb_NatIP b, nb_PortMin b)"

definition RIB_AnnounceNat :: "string \<Rightarrow> NatBlock \<Rightarrow> act" where
  "RIB_AnnounceNat origin b r =
     (let k = nat_key b;
          byo = (case mget (rb_natOrigin r) k of
                   Some prev \<Rightarrow> if prev \<noteq> origin then del_in prev k (rb_natByOrigin r) else rb_natByOrigin r
                 | None \<Rightarrow> rb_natByOrigin r);
          r1 = r\<lparr>rb_nat := mput k b (rb_nat r),
                 rb_natOrigin := mput k origin (rb_natOrigin r),
                 rb_natByOrigin := add_in origin k byo\<rparr>
      in natFanout b ROUTE_OP_ADD r1)"

definition RIB_WithdrawNat ::
  "string \<Rightarrow> string \<Rightarrow> u32 \<Rightarrow> u32 \<Rightarrow> OwnerPermit \<Rightarrow> RIB \<Rightarrow> WithdrawOutcome \<times> RIB \<times> effect list" where
  "RIB_WithdrawNat origin natIP portMin portMax permit r =
     (let k = (natIP, portMin) in
      case mget (rb_nat r) k of
        None \<Rightarrow> (WithdrawAbsent, r, [])
      | Some b \<Rightarrow>
          if mget0 [] (rb_natOrigin r) k \<noteq> origin \<or> \<not> allows permit (nb_OwnerUnderlay b)
          then (WithdrawRefused, r, [])
          else let r1 = r\<lparr>rb_nat := mdel k (rb_nat r),
                          rb_natOrigin := mdel k (rb_natOrigin r),
                          rb_natByOrigin := del_in origin k (rb_natByOrigin r)\<rparr>
               in (WithdrawApplied, natFanout b ROUTE_OP_WITHDRAW r1))"

definition drop_nat_key :: "string \<Rightarrow> natKey \<Rightarrow> act" where
  "drop_nat_key origin k r =
     (if mget0 [] (rb_natOrigin r) k \<noteq> origin then (r, [])
      else (case mget (rb_nat r) k of
              None \<Rightarrow> (r, [])
            | Some b \<Rightarrow>
                natFanout b ROUTE_OP_WITHDRAW
                  (r\<lparr>rb_nat := mdel k (rb_nat r), rb_natOrigin := mdel k (rb_natOrigin r)\<rparr>)))"

definition dropOriginNat :: "string \<Rightarrow> act" where
  "dropOriginNat origin r =
     (let owned = mget0 [] (rb_natByOrigin r) origin
      in for_each (drop_nat_key origin) owned (r\<lparr>rb_natByOrigin := mdel origin (rb_natByOrigin r)\<rparr>))"

section \<open>Public records\<close>

definition public_key :: "PublicRecord \<Rightarrow> publicKey" where
  "public_key rec = (pr_Kind rec, pr_Prefix rec, pr_OwnerUnderlay rec, pr_OverlayIP rec)"

definition publicUpdate :: "PublicRecord \<Rightarrow> RouteOp \<Rightarrow> ServerMsg" where
  "publicUpdate rec op = PublicUpdate (rec\<lparr>pr_Ports :=
     map (\<lambda>p. \<lparr>lp_Port = lp_Port p, lp_Proto = lp_Proto p\<rparr>) (pr_Ports rec)\<rparr>) op"

definition publicRecordFromPB :: "PublicRecord \<Rightarrow> PublicRecord" where
  "publicRecordFromPB p = p\<lparr>pr_Ports :=
     map (\<lambda>pp. \<lparr>lp_Port = lp_Port pp, lp_Proto = lp_Proto pp\<rparr>) (pr_Ports p)\<rparr>"

definition publicFanout :: "PublicRecord \<Rightarrow> RouteOp \<Rightarrow> act" where
  "publicFanout rec op r =
     (r\<lparr>rb_globalSnap := None\<rparr>, map (\<lambda>(_, s). Send s (publicUpdate rec op)) (rb_sinks r))"

definition RIB_AnnouncePublic :: "string \<Rightarrow> PublicRecord \<Rightarrow> act" where
  "RIB_AnnouncePublic origin rec r =
     (let k = public_key rec;
          byo = (case mget (rb_publicOrigin r) k of
                   Some prev \<Rightarrow> if prev \<noteq> origin then del_in prev k (rb_publicByOrigin r) else rb_publicByOrigin r
                 | None \<Rightarrow> rb_publicByOrigin r);
          r1 = r\<lparr>rb_public := mput k rec (rb_public r),
                 rb_publicOrigin := mput k origin (rb_publicOrigin r),
                 rb_publicByOrigin := add_in origin k byo\<rparr>
      in publicFanout rec ROUTE_OP_ADD r1)"

definition RIB_WithdrawPublic ::
  "string \<Rightarrow> PublicRecord \<Rightarrow> OwnerPermit \<Rightarrow> RIB \<Rightarrow> WithdrawOutcome \<times> RIB \<times> effect list" where
  "RIB_WithdrawPublic origin rec permit r =
     (let k = public_key rec in
      case mget (rb_public r) k of
        None \<Rightarrow> (WithdrawAbsent, r, [])
      | Some stored \<Rightarrow>
          if mget0 [] (rb_publicOrigin r) k \<noteq> origin \<or> \<not> allows permit (pr_OwnerUnderlay stored)
          then (WithdrawRefused, r, [])
          else let r1 = r\<lparr>rb_public := mdel k (rb_public r),
                          rb_publicOrigin := mdel k (rb_publicOrigin r),
                          rb_publicByOrigin := del_in origin k (rb_publicByOrigin r)\<rparr>
               in (WithdrawApplied, publicFanout stored ROUTE_OP_WITHDRAW r1))"

definition drop_public_key :: "string \<Rightarrow> publicKey \<Rightarrow> act" where
  "drop_public_key origin k r =
     (if mget0 [] (rb_publicOrigin r) k \<noteq> origin then (r, [])
      else (case mget (rb_public r) k of
              None \<Rightarrow> (r, [])
            | Some rec \<Rightarrow>
                publicFanout rec ROUTE_OP_WITHDRAW
                  (r\<lparr>rb_public := mdel k (rb_public r), rb_publicOrigin := mdel k (rb_publicOrigin r)\<rparr>)))"

definition dropOriginPublic :: "string \<Rightarrow> act" where
  "dropOriginPublic origin r =
     (let owned = mget0 [] (rb_publicByOrigin r) origin
      in for_each (drop_public_key origin) owned
           (r\<lparr>rb_publicByOrigin := mdel origin (rb_publicByOrigin r)\<rparr>))"

section \<open>The global replay\<close>

definition global_records :: "RIB \<Rightarrow> ServerMsg list" where
  "global_records r = map (\<lambda>(_, b). natUpdate b ROUTE_OP_ADD) (rb_nat r)
     @ map (\<lambda>(_, rec). publicUpdate rec ROUTE_OP_ADD) (rb_public r)"

definition globalSnapshotLocked :: "RIB \<Rightarrow> ServerMsg list \<times> RIB" where
  "globalSnapshotLocked r = (case rb_globalSnap r of
     Some snap \<Rightarrow> (snap, r)
   | None \<Rightarrow> let recs = global_records r;
                  snap = recs @ [EndOfGlobal (of_nat (length recs))]
              in (snap, r\<lparr>rb_globalSnap := Some snap\<rparr>))"

definition RegisterSink :: "Sink \<Rightarrow> act" where
  "RegisterSink s r =
     (let r1 = r\<lparr>rb_sinks := mput (ID s) s (rb_sinks r)\<rparr>;
          (snap, r2) = globalSnapshotLocked r1
      in (r2, [SendSnapshot s snap]))"

definition unregisterSink :: "string \<Rightarrow> act" where
  "unregisterSink sinkID r = (r\<lparr>rb_sinks := mdel sinkID (rb_sinks r)\<rparr>, [])"

section \<open>The session claim\<close>

definition drop_subs :: "string \<Rightarrow> (u32, (string, Sink) gomap) gomap \<Rightarrow> (u32, (string, Sink) gomap) gomap" where
  "drop_subs origin m = fold (drop_sub origin) (mkeys m) m"

definition dropOriginLocked :: "string \<Rightarrow> act" where
  "dropOriginLocked origin =
     then_act (\<lambda>r. for_each (withdrawRouteOrigin origin) (mget0 [] (rb_byOrigin r) origin)
                     (r\<lparr>rb_byOrigin := mdel origin (rb_byOrigin r)\<rparr>))
    (then_act (\<lambda>r. (r\<lparr>rb_subscribers := drop_subs origin (rb_subscribers r)\<rparr>, []))
    (then_act (dropOriginNat origin) (dropOriginPublic origin)))"

definition ClaimOrigin :: "string \<Rightarrow> RIB \<Rightarrow> u64 \<times> RIB \<times> effect list" where
  "ClaimOrigin nodeID r =
     (let superseded = (mget (rb_origins r) nodeID \<noteq> None);
          token = rb_nextToken r + 1;
          r1 = r\<lparr>rb_nextToken := token, rb_origins := mput nodeID token (rb_origins r)\<rparr>
      in (token,
          if superseded
          then dropOriginLocked nodeID (r1\<lparr>rb_sinks := mdel nodeID (rb_sinks r1)\<rparr>)
          else (r1, [])))"

definition ReleaseOrigin :: "string \<Rightarrow> u64 \<Rightarrow> act" where
  "ReleaseOrigin nodeID token r =
     (case mget (rb_origins r) nodeID of
        None \<Rightarrow> (r, [])
      | Some cur \<Rightarrow>
          if cur \<noteq> token then (r, [])
          else dropOriginLocked nodeID
                 (r\<lparr>rb_origins := mdel nodeID (rb_origins r), rb_sinks := mdel nodeID (rb_sinks r)\<rparr>))"

section \<open>Tables with an owner index\<close>

text \<open>
  The bookkeeping both tables keep: a record per key, the origin that holds each key, and the keys
  of each origin. The three agree, and a record sits under its own key.
\<close>

definition owned_inv ::
  "('v \<Rightarrow> 'k) \<Rightarrow> ('k, 'v) gomap \<Rightarrow> ('k, string) gomap \<Rightarrow> (string, 'k goset) gomap \<Rightarrow> bool" where
  "owned_inv key tab org byo \<longleftrightarrow> mwf tab \<and> mwf org \<and> mwf byo
     \<and> (\<forall>k. mget tab k = None \<longleftrightarrow> mget org k = None)
     \<and> (\<forall>orig k. k \<in> set (mget0 [] byo orig) \<longleftrightarrow> mget org k = Some orig)
     \<and> (\<forall>k v. mget tab k = Some v \<longrightarrow> key v = k)"

definition take_over :: "string \<Rightarrow> 'k \<Rightarrow> ('k, string) gomap \<Rightarrow> (string, 'k goset) gomap \<Rightarrow> (string, 'k goset) gomap" where
  "take_over origin k org byo = (case mget org k of
     Some prev \<Rightarrow> if prev \<noteq> origin then del_in prev k byo else byo
   | None \<Rightarrow> byo)"

lemma owned_invD:
  assumes "owned_inv key tab org byo"
  shows "mwf tab" "mwf org" "mwf byo"
    and "mget tab k = None \<longleftrightarrow> mget org k = None"
    and "k \<in> set (mget0 [] byo orig) \<longleftrightarrow> mget org k = Some orig"
    and "mget tab k = Some v \<Longrightarrow> key v = k"
  using assms unfolding owned_inv_def by blast+

lemma owned_inv_empty: "owned_inv key [] [] []"
  by (simp add: owned_inv_def)

lemma owned_inv_announce:
  "owned_inv key tab org byo \<Longrightarrow> k = key v \<Longrightarrow>
     owned_inv key (mput k v tab) (mput k orig org) (add_in orig k (take_over orig k org byo))"
  unfolding owned_inv_def take_over_def by (auto split: option.splits)

lemma owned_inv_withdraw:
  "owned_inv key tab org byo \<Longrightarrow> mget org k = Some orig \<Longrightarrow>
     owned_inv key (mdel k tab) (mdel k org) (del_in orig k byo)"
  unfolding owned_inv_def by auto

lemma owned_inv_origin:
  "owned_inv key tab org byo \<Longrightarrow> mget tab k = Some v \<Longrightarrow> mget org k = Some (mget0 [] org k)"
  using owned_invD(4) [of key tab org byo k] by (auto simp: mget0_def split: option.split)

text \<open>What is left after every key of one origin is gone.\<close>

definition owned_after_drop :: "string \<Rightarrow> ('k, 'v) gomap \<Rightarrow> ('k, string) gomap \<Rightarrow>
     ('k, 'v) gomap \<Rightarrow> ('k, string) gomap \<Rightarrow> bool" where
  "owned_after_drop orig tab org tab' org' \<longleftrightarrow> mwf tab' \<and> mwf org'
     \<and> (\<forall>k. mget tab' k = (if mget org k = Some orig then None else mget tab k))
     \<and> (\<forall>k. mget org' k = (if mget org k = Some orig then None else mget org k))"

lemma owned_inv_drop:
  "owned_inv key tab org byo \<Longrightarrow> owned_after_drop orig tab org tab' org' \<Longrightarrow>
     owned_inv key tab' org' (mdel orig byo)"
  unfolding owned_inv_def owned_after_drop_def by (auto split: if_splits)

text \<open>A fold that leaves a field alone at each step leaves it alone.\<close>

lemma for_each_frame: "(\<And>x r. f (fst (g x r)) = f r) \<Longrightarrow> f (fst (for_each g xs r)) = f r"
  by (induction xs arbitrary: r) (auto simp: split_def Let_def)

lemma for_each_effects: "snd (for_each g (x # xs) r) = snd (g x r) @ snd (for_each g xs (fst (g x r)))"
  by (simp add: split_def Let_def)

lemma for_each_state: "fst (for_each g (x # xs) r) = fst (for_each g xs (fst (g x r)))"
  by (simp add: split_def Let_def)

text \<open>
  Tearing one origin's keys down: \<open>step\<close> removes one key if the origin still holds it, \<open>forget\<close>
  drops the origin's index entry first.
\<close>

locale owned_table =
  fixes key :: "'v \<Rightarrow> 'k"
    and tab :: "RIB \<Rightarrow> ('k, 'v) gomap"
    and org :: "RIB \<Rightarrow> ('k, string) gomap"
    and byo :: "RIB \<Rightarrow> (string, 'k goset) gomap"
    and step :: "string \<Rightarrow> 'k \<Rightarrow> act"
    and forget :: "string \<Rightarrow> RIB \<Rightarrow> RIB"
  assumes step_wf: "mwf (tab r) \<and> mwf (org r) \<Longrightarrow> mwf (tab (fst (step orig k r))) \<and> mwf (org (fst (step orig k r)))"
    and step_tab: "(mget (tab r) k = None \<longleftrightarrow> mget (org r) k = None) \<Longrightarrow>
      mget (tab (fst (step orig k r))) k' = (if k' = k \<and> mget (org r) k = Some orig then None else mget (tab r) k')"
    and step_org: "(mget (tab r) k = None \<longleftrightarrow> mget (org r) k = None) \<Longrightarrow>
      mget (org (fst (step orig k r))) k' = (if k' = k \<and> mget (org r) k = Some orig then None else mget (org r) k')"
    and step_byo: "byo (fst (step orig k r)) = byo r"
    and forget_tab: "tab (forget orig r) = tab r"
    and forget_org: "org (forget orig r) = org r"
    and forget_byo: "byo (forget orig r) = mdel orig (byo r)"
begin

definition drop_all :: "string \<Rightarrow> act" where
  "drop_all orig r = for_each (step orig) (mget0 [] (byo r) orig) (forget orig r)"

lemma loop:
  assumes "mwf (tab r) \<and> mwf (org r)" and "\<And>k. mget (tab r) k = None \<longleftrightarrow> mget (org r) k = None"
  shows "(mwf (tab (fst (for_each (step orig) ks r))) \<and> mwf (org (fst (for_each (step orig) ks r))))
     \<and> (\<forall>k. mget (tab (fst (for_each (step orig) ks r))) k =
          (if k \<in> set ks \<and> mget (org r) k = Some orig then None else mget (tab r) k))
     \<and> (\<forall>k. mget (org (fst (for_each (step orig) ks r))) k =
          (if k \<in> set ks \<and> mget (org r) k = Some orig then None else mget (org r) k))"
  using assms
proof (induction ks arbitrary: r)
  case (Cons x ks)
  let ?r1 = "fst (step orig x r)"
  note tab1 = step_tab [OF Cons.prems(2) [of x], of orig]
  note org1 = step_org [OF Cons.prems(2) [of x], of orig]
  have dom1: "mget (tab ?r1) k = None \<longleftrightarrow> mget (org ?r1) k = None" for k
    using Cons.prems(2) [of k] by (auto simp: tab1 org1)
  from Cons.IH [OF step_wf [OF Cons.prems(1)] dom1] show ?case
    unfolding for_each_state by (auto simp: tab1 org1 simp del: for_each.simps)
qed simp

text \<open>Exactly the leaving origin's keys disappear, whoever announced them first.\<close>

lemma drop_all_spec:
  assumes inv: "owned_inv key (tab r) (org r) (byo r)"
  shows "owned_after_drop orig (tab r) (org r) (tab (fst (drop_all orig r))) (org (fst (drop_all orig r)))"
    and "byo (fst (drop_all orig r)) = mdel orig (byo r)"
proof -
  have "mwf (tab (forget orig r)) \<and> mwf (org (forget orig r))"
    and "mget (tab (forget orig r)) k = None \<longleftrightarrow> mget (org (forget orig r)) k = None" for k
    using owned_invD [OF inv] by (auto simp: forget_tab forget_org)
  from loop [OF this, of orig "mget0 [] (byo r) orig"]
  show "owned_after_drop orig (tab r) (org r) (tab (fst (drop_all orig r))) (org (fst (drop_all orig r)))"
    by (simp add: owned_after_drop_def drop_all_def forget_tab forget_org owned_invD(5) [OF inv])
  show "byo (fst (drop_all orig r)) = mdel orig (byo r)"
    by (simp add: drop_all_def for_each_frame [where f = byo, OF step_byo] forget_byo)
qed

lemma drop_all_inv:
  assumes "owned_inv key (tab r) (org r) (byo r)"
  shows "owned_inv key (tab (fst (drop_all orig r))) (org (fst (drop_all orig r))) (byo (fst (drop_all orig r)))"
  using owned_inv_drop [OF assms drop_all_spec(1) [OF assms, of orig]] drop_all_spec(2) [OF assms, of orig]
  by simp

end

subsection \<open>The NAT table\<close>

definition nat_inv :: "RIB \<Rightarrow> bool" where
  "nat_inv r = owned_inv nat_key (rb_nat r) (rb_natOrigin r) (rb_natByOrigin r)"

lemma nat_announce_state:
  "fst (RIB_AnnounceNat orig b r) = r\<lparr>rb_nat := mput (nat_key b) b (rb_nat r),
     rb_natOrigin := mput (nat_key b) orig (rb_natOrigin r),
     rb_natByOrigin := add_in orig (nat_key b) (take_over orig (nat_key b) (rb_natOrigin r) (rb_natByOrigin r)),
     rb_globalSnap := None\<rparr>"
  by (simp add: RIB_AnnounceNat_def natFanout_def take_over_def Let_def split: option.split)

lemma nat_inv_Announce: "nat_inv r \<Longrightarrow> nat_inv (fst (RIB_AnnounceNat orig b r))"
  unfolding nat_inv_def nat_announce_state by (simp add: owned_inv_announce)

text \<open>A refused or absent withdraw changes nothing; an applied one removes exactly the key.\<close>

lemma nat_withdraw_cases:
  obtains (absent) "RIB_WithdrawNat orig ip lo hi permit r = (WithdrawAbsent, r, [])"
      "mget (rb_nat r) (ip, lo) = None"
  | (refused) b where "RIB_WithdrawNat orig ip lo hi permit r = (WithdrawRefused, r, [])"
      "mget (rb_nat r) (ip, lo) = Some b"
      "mget0 [] (rb_natOrigin r) (ip, lo) \<noteq> orig \<or> \<not> allows permit (nb_OwnerUnderlay b)"
  | (applied) b where "RIB_WithdrawNat orig ip lo hi permit r =
        (WithdrawApplied, natFanout b ROUTE_OP_WITHDRAW (r\<lparr>rb_nat := mdel (ip, lo) (rb_nat r),
            rb_natOrigin := mdel (ip, lo) (rb_natOrigin r),
            rb_natByOrigin := del_in orig (ip, lo) (rb_natByOrigin r)\<rparr>))"
      "mget (rb_nat r) (ip, lo) = Some b"
      "mget0 [] (rb_natOrigin r) (ip, lo) = orig" "allows permit (nb_OwnerUnderlay b)"
proof (cases "mget (rb_nat r) (ip, lo)")
  case None
  then show thesis by (intro absent) (simp_all add: RIB_WithdrawNat_def)
next
  case (Some b)
  show thesis
  proof (cases "mget0 [] (rb_natOrigin r) (ip, lo) \<noteq> orig \<or> \<not> allows permit (nb_OwnerUnderlay b)")
    case True
    with Some show thesis by (intro refused [of b]) (simp_all add: RIB_WithdrawNat_def Let_def)
  next
    case False
    with Some show thesis by (intro applied [of b]) (simp_all add: RIB_WithdrawNat_def Let_def)
  qed
qed

lemma nat_inv_origin:
  "nat_inv r \<Longrightarrow> mget (rb_nat r) k = Some b \<Longrightarrow> mget (rb_natOrigin r) k = Some (mget0 [] (rb_natOrigin r) k)"
  unfolding nat_inv_def by (rule owned_inv_origin)

lemma nat_inv_Withdraw:
  assumes "nat_inv r"
  shows "nat_inv (fst (snd (RIB_WithdrawNat orig ip lo hi permit r)))"
proof (cases rule: nat_withdraw_cases [of orig ip lo hi permit r])
  case (applied b)
  with assms have "mget (rb_natOrigin r) (ip, lo) = Some orig"
    by (auto dest: nat_inv_origin)
  with applied assms show ?thesis
    by (simp add: natFanout_def nat_inv_def owned_inv_withdraw)
qed (use assms in simp_all)

lemma drop_nat_frame:
  "rb_routes (fst (drop_nat_key orig k r)) = rb_routes r"
  "rb_byOrigin (fst (drop_nat_key orig k r)) = rb_byOrigin r"
  "rb_subscribers (fst (drop_nat_key orig k r)) = rb_subscribers r"
  "rb_fenced (fst (drop_nat_key orig k r)) = rb_fenced r"
  "rb_natByOrigin (fst (drop_nat_key orig k r)) = rb_natByOrigin r"
  "rb_public (fst (drop_nat_key orig k r)) = rb_public r"
  "rb_publicOrigin (fst (drop_nat_key orig k r)) = rb_publicOrigin r"
  "rb_publicByOrigin (fst (drop_nat_key orig k r)) = rb_publicByOrigin r"
  "rb_sinks (fst (drop_nat_key orig k r)) = rb_sinks r"
  "rb_origins (fst (drop_nat_key orig k r)) = rb_origins r"
  "rb_nextToken (fst (drop_nat_key orig k r)) = rb_nextToken r"
  by (auto simp: drop_nat_key_def natFanout_def split: option.split)

interpretation nat: owned_table nat_key rb_nat rb_natOrigin rb_natByOrigin drop_nat_key
  "\<lambda>orig r. r\<lparr>rb_natByOrigin := mdel orig (rb_natByOrigin r)\<rparr>"
proof (unfold_locales, goal_cases)
  case (2 r k orig k')
  then show ?case by (auto simp: drop_nat_key_def natFanout_def mget0_def split: option.splits)
next
  case (3 r k orig k')
  then show ?case by (auto simp: drop_nat_key_def natFanout_def mget0_def split: option.splits)
qed (auto simp: drop_nat_key_def natFanout_def split: option.split)

lemma dropOriginNat_loop: "dropOriginNat orig r = nat.drop_all orig r"
  by (simp add: dropOriginNat_def nat.drop_all_def Let_def)

lemma nat_inv_drop: "nat_inv r \<Longrightarrow> nat_inv (fst (dropOriginNat orig r))"
  unfolding nat_inv_def dropOriginNat_loop by (rule nat.drop_all_inv)

subsection \<open>The public table\<close>

definition public_inv :: "RIB \<Rightarrow> bool" where
  "public_inv r = owned_inv public_key (rb_public r) (rb_publicOrigin r) (rb_publicByOrigin r)"

lemma public_announce_state:
  "fst (RIB_AnnouncePublic orig b r) = r\<lparr>rb_public := mput (public_key b) b (rb_public r),
     rb_publicOrigin := mput (public_key b) orig (rb_publicOrigin r),
     rb_publicByOrigin := add_in orig (public_key b) (take_over orig (public_key b) (rb_publicOrigin r) (rb_publicByOrigin r)),
     rb_globalSnap := None\<rparr>"
  by (simp add: RIB_AnnouncePublic_def publicFanout_def take_over_def Let_def split: option.split)

lemma public_inv_Announce: "public_inv r \<Longrightarrow> public_inv (fst (RIB_AnnouncePublic orig b r))"
  unfolding public_inv_def public_announce_state by (simp add: owned_inv_announce)

lemma public_withdraw_cases:
  obtains (absent) "RIB_WithdrawPublic orig rec permit r = (WithdrawAbsent, r, [])"
      "mget (rb_public r) (public_key rec) = None"
  | (refused) b where "RIB_WithdrawPublic orig rec permit r = (WithdrawRefused, r, [])"
      "mget (rb_public r) (public_key rec) = Some b"
      "mget0 [] (rb_publicOrigin r) (public_key rec) \<noteq> orig \<or> \<not> allows permit (pr_OwnerUnderlay b)"
  | (applied) b where "RIB_WithdrawPublic orig rec permit r =
        (WithdrawApplied, publicFanout b ROUTE_OP_WITHDRAW (r\<lparr>rb_public := mdel (public_key rec) (rb_public r),
            rb_publicOrigin := mdel (public_key rec) (rb_publicOrigin r),
            rb_publicByOrigin := del_in orig (public_key rec) (rb_publicByOrigin r)\<rparr>))"
      "mget (rb_public r) (public_key rec) = Some b"
      "mget0 [] (rb_publicOrigin r) (public_key rec) = orig" "allows permit (pr_OwnerUnderlay b)"
proof (cases "mget (rb_public r) (public_key rec)")
  case None
  then show thesis by (intro absent) (simp_all add: RIB_WithdrawPublic_def)
next
  case (Some b)
  show thesis
  proof (cases "mget0 [] (rb_publicOrigin r) (public_key rec) \<noteq> orig \<or> \<not> allows permit (pr_OwnerUnderlay b)")
    case True
    with Some show thesis by (intro refused [of b]) (simp_all add: RIB_WithdrawPublic_def Let_def)
  next
    case False
    with Some show thesis by (intro applied [of b]) (simp_all add: RIB_WithdrawPublic_def Let_def)
  qed
qed

lemma public_inv_origin:
  "public_inv r \<Longrightarrow> mget (rb_public r) k = Some b \<Longrightarrow> mget (rb_publicOrigin r) k = Some (mget0 [] (rb_publicOrigin r) k)"
  unfolding public_inv_def by (rule owned_inv_origin)

lemma public_inv_Withdraw:
  assumes "public_inv r"
  shows "public_inv (fst (snd (RIB_WithdrawPublic orig rec permit r)))"
proof (cases rule: public_withdraw_cases [of orig rec permit r])
  case (applied b)
  with assms have "mget (rb_publicOrigin r) (public_key rec) = Some orig"
    by (auto dest: public_inv_origin)
  with applied assms show ?thesis
    by (simp add: publicFanout_def public_inv_def owned_inv_withdraw)
qed (use assms in simp_all)

lemma drop_public_frame:
  "rb_routes (fst (drop_public_key orig k r)) = rb_routes r"
  "rb_byOrigin (fst (drop_public_key orig k r)) = rb_byOrigin r"
  "rb_subscribers (fst (drop_public_key orig k r)) = rb_subscribers r"
  "rb_nat (fst (drop_public_key orig k r)) = rb_nat r"
  "rb_natOrigin (fst (drop_public_key orig k r)) = rb_natOrigin r"
  "rb_natByOrigin (fst (drop_public_key orig k r)) = rb_natByOrigin r"
  "rb_fenced (fst (drop_public_key orig k r)) = rb_fenced r"
  "rb_publicByOrigin (fst (drop_public_key orig k r)) = rb_publicByOrigin r"
  "rb_sinks (fst (drop_public_key orig k r)) = rb_sinks r"
  "rb_origins (fst (drop_public_key orig k r)) = rb_origins r"
  "rb_nextToken (fst (drop_public_key orig k r)) = rb_nextToken r"
  by (auto simp: drop_public_key_def publicFanout_def split: option.split)

interpretation public: owned_table public_key rb_public rb_publicOrigin rb_publicByOrigin drop_public_key
  "\<lambda>orig r. r\<lparr>rb_publicByOrigin := mdel orig (rb_publicByOrigin r)\<rparr>"
proof (unfold_locales, goal_cases)
  case (2 r k orig k')
  then show ?case by (auto simp: drop_public_key_def publicFanout_def mget0_def split: option.splits)
next
  case (3 r k orig k')
  then show ?case by (auto simp: drop_public_key_def publicFanout_def mget0_def split: option.splits)
qed (auto simp: drop_public_key_def publicFanout_def split: option.split)

lemma dropOriginPublic_loop: "dropOriginPublic orig r = public.drop_all orig r"
  by (simp add: dropOriginPublic_def public.drop_all_def Let_def)

lemma public_inv_drop: "public_inv r \<Longrightarrow> public_inv (fst (dropOriginPublic orig r))"
  unfolding public_inv_def dropOriginPublic_loop by (rule public.drop_all_inv)

section \<open>Subscriptions of a leaving origin\<close>

lemma mget_drop_sub:
  "mget0 [] (drop_sub i vni m) v = (if v = vni then mdel i (mget0 [] m v) else mget0 [] m v)"
  by (auto simp: drop_sub_def Let_def mget0_def split: option.split)

lemma mget_drop_subs_fold:
  "mget0 [] (fold (drop_sub i) vs m) v = (if v \<in> set vs then mdel i (mget0 [] m v) else mget0 [] m v)"
  by (induction vs arbitrary: m) (auto simp: mget_drop_sub)

lemma mget_drop_subs: "mget0 [] (drop_subs i m) v = mdel i (mget0 [] m v)"
  by (cases "mget m v") (auto simp: drop_subs_def mget_drop_subs_fold mkeys_iff mget0_def [of _ m])

definition sub_maps_inv :: "(u32, (string, Sink) gomap) gomap \<Rightarrow> bool" where
  "sub_maps_inv m \<longleftrightarrow> mwf m \<and> (\<forall>vni subs. mget m vni = Some subs \<longrightarrow>
     subs \<noteq> [] \<and> mwf subs \<and> (\<forall>i s. mget subs i = Some s \<longrightarrow> ID s = i))"

lemma subs_inv_alt:
  "subs_inv r \<longleftrightarrow> sub_maps_inv (rb_subscribers r) \<and> mwf (rb_sinks r)
     \<and> (\<forall>i s. mget (rb_sinks r) i = Some s \<longrightarrow> ID s = i)"
  by (auto simp: subs_inv_def sub_maps_inv_def)

lemma sub_maps_inv_drop: "sub_maps_inv m \<Longrightarrow> sub_maps_inv (drop_sub i vni m)"
  unfolding sub_maps_inv_def by (auto simp: drop_sub_def Let_def split: option.splits if_splits)

lemma sub_maps_inv_drops: "sub_maps_inv m \<Longrightarrow> sub_maps_inv (drop_subs i m)"
proof -
  have "sub_maps_inv m \<Longrightarrow> sub_maps_inv (fold (drop_sub i) vs m)" for vs
    by (induction vs arbitrary: m) (auto simp: sub_maps_inv_drop)
  then show "sub_maps_inv m \<Longrightarrow> sub_maps_inv (drop_subs i m)" by (simp add: drop_subs_def)
qed

lemma subs_inv_Subscribe: "subs_inv r \<Longrightarrow> subs_inv (fst (RIB_Subscribe vni s r))"
  unfolding subs_inv_def
  by (auto simp: RIB_Subscribe_def Let_def mget0_def split: option.split)

lemma subs_inv_Unsubscribe: "subs_inv r \<Longrightarrow> subs_inv (fst (RIB_Unsubscribe vni i r))"
  unfolding subs_inv_alt by (simp add: RIB_Unsubscribe_def sub_maps_inv_drop)

end
