(* ===== verification/Rib_Ops.thy ===== *)
theory Rib_Ops
  imports Rib_Global
begin

text \<open>
  The RIB's operations as one step function, the invariant they keep together, and the abstract
  table they implement: who announces what, which fences stand, who subscribes and who owns each
  global record.
\<close>

section \<open>Operations\<close>

datatype rib_op =
    OpSubscribe u32 Sink
  | OpUnsubscribe u32 string
  | OpAnnounce string u32 string "string list" bool
  | OpWithdraw string u32 string
  | OpSetFence string
  | OpClearFence string
  | OpRegisterSink Sink
  | OpAnnounceNat string NatBlock
  | OpWithdrawNat string string u32 u32 OwnerPermit
  | OpAnnouncePublic string PublicRecord
  | OpWithdrawPublic string PublicRecord OwnerPermit
  | OpClaim string
  | OpRelease string u64

fun rib_step :: "rib_op \<Rightarrow> act" where
  "rib_step (OpSubscribe vni s) r = RIB_Subscribe vni s r"
| "rib_step (OpUnsubscribe vni i) r = RIB_Unsubscribe vni i r"
| "rib_step (OpAnnounce orig vni p nhs ext) r = RIB_Announce orig vni p nhs ext r"
| "rib_step (OpWithdraw orig vni p) r = RIB_Withdraw orig vni p r"
| "rib_step (OpSetFence p) r = SetFence p r"
| "rib_step (OpClearFence p) r = ClearFence p r"
| "rib_step (OpRegisterSink s) r = RegisterSink s r"
| "rib_step (OpAnnounceNat orig b) r = RIB_AnnounceNat orig b r"
| "rib_step (OpWithdrawNat orig ip lo hi permit) r = snd (RIB_WithdrawNat orig ip lo hi permit r)"
| "rib_step (OpAnnouncePublic orig rec) r = RIB_AnnouncePublic orig rec r"
| "rib_step (OpWithdrawPublic orig rec permit) r = snd (RIB_WithdrawPublic orig rec permit r)"
| "rib_step (OpClaim i) r = snd (ClaimOrigin i r)"
| "rib_step (OpRelease i token) r = ReleaseOrigin i token r"

definition rib_run :: "rib_op list \<Rightarrow> act" where
  "rib_run ops = for_each rib_step ops"

section \<open>What one origin holds\<close>

definition holds :: "RIB \<Rightarrow> string \<Rightarrow> routeKey \<Rightarrow> string list option" where
  "holds r orig k = mget (re_origins (mget0 no_entry (rb_routes r) k)) orig"

lemma announces_holds: "announces r orig k \<longleftrightarrow> holds r orig k \<noteq> None"
  by (simp add: announces_def holds_def)

lemma holds_cong: "rb_routes r' = rb_routes r \<Longrightarrow> holds r' = holds r"
  by (simp add: holds_def fun_eq_iff)

text \<open>No other field decides who holds a route.\<close>

lemma holds_updates [simp]:
  "holds (r\<lparr>rb_byOrigin := x0\<rparr>) = holds r"
  "holds (r\<lparr>rb_subscribers := x1\<rparr>) = holds r"
  "holds (r\<lparr>rb_nat := x2\<rparr>) = holds r"
  "holds (r\<lparr>rb_natByOrigin := x3\<rparr>) = holds r"
  "holds (r\<lparr>rb_public := x4\<rparr>) = holds r"
  "holds (r\<lparr>rb_publicByOrigin := x5\<rparr>) = holds r"
  "holds (r\<lparr>rb_natOrigin := x6\<rparr>) = holds r"
  "holds (r\<lparr>rb_publicOrigin := x7\<rparr>) = holds r"
  "holds (r\<lparr>rb_sinks := x8\<rparr>) = holds r"
  "holds (r\<lparr>rb_globalSnap := x9\<rparr>) = holds r"
  "holds (r\<lparr>rb_fenced := x10\<rparr>) = holds r"
  "holds (r\<lparr>rb_origins := x11\<rparr>) = holds r"
  "holds (r\<lparr>rb_nextToken := x12\<rparr>) = holds r"
  by (rule holds_cong, simp)+

lemma holds_Announce:
  "holds (fst (RIB_Announce orig vni p nhs ext r)) o' k =
     (if o' = orig \<and> k = (vni, p) then Some nhs else holds r o' k)"
  by (simp add: holds_def announce_routes Let_def)

lemma holds_withdraw_origin:
  "holds (fst (withdrawRouteOrigin orig k r)) o' k' = (if o' = orig \<and> k' = k then None else holds r o' k')"
proof (cases "mget (rb_routes r) k")
  case None
  then show ?thesis by (auto simp: holds_def mget0_def withdraw_origin_routes no_entry_def)
next
  case (Some e)
  have "mget (re_origins e) o' = None" if "o' \<noteq> orig" "mdel orig (re_origins e) = []"
    using that by (metis mget_del mget_empty)
  with Some show ?thesis
    by (auto simp: holds_def mget0_def withdraw_origin_routes no_entry_def)
qed

lemma holds_Withdraw:
  "holds (fst (RIB_Withdraw orig vni p r)) o' k = (if o' = orig \<and> k = (vni, p) then None else holds r o' k)"
  by (simp add: RIB_Withdraw_def Let_def holds_withdraw_origin)

lemma set_Advertised:
  "routes_inv r \<Longrightarrow> set (Advertised vni p r) =
     {nh. (\<exists>orig nhs. holds r orig (vni, p) = Some nhs \<and> nh \<in> set nhs) \<and> \<not> nexthopFenced nh (rb_fenced r)}"
  unfolding Advertised_def holds_def by (rule set_advertised) (rule routes_inv_origins)

section \<open>Tearing an origin down\<close>

lemma withdraw_loop_holds:
  "holds (fst (for_each (withdrawRouteOrigin orig) ks r)) o' k =
     (if o' = orig \<and> k \<in> set ks then None else holds r o' k)"
  by (induction ks arbitrary: r) (auto simp: for_each_state holds_withdraw_origin simp del: for_each.simps(2))

lemma withdraw_loop_inv:
  assumes "routes_inv_but orig (set ks) r" and "mget0 [] (rb_byOrigin r) orig = []"
  shows "routes_inv (fst (for_each (withdrawRouteOrigin orig) ks r))"
proof -
  have "routes_inv_but orig (M - set ks) (fst (for_each (withdrawRouteOrigin orig) ks r))"
    if "routes_inv_but orig M r" for M
    using that assms(2)
  proof (induction ks arbitrary: r M)
    case (Cons k ks)
    have "routes_inv_but orig (M - {k}) (fst (withdrawRouteOrigin orig k r))"
      using Cons.prems by (intro routes_inv_but_withdraw) auto
    from Cons.IH [OF this] Cons.prems(2) have
      "routes_inv_but orig (M - {k} - set ks) (fst (for_each (withdrawRouteOrigin orig) (k # ks) r))"
      by (simp add: withdraw_origin_frame split_def Let_def)
    then show ?case by (simp add: Diff_insert2 [symmetric] del: for_each.simps) 
  qed simp
  from this [OF assms(1)] show ?thesis by (simp add: routes_inv_but_empty)
qed

text \<open>The first stage of \<^verbatim>\<open>dropOriginLocked\<close>.\<close>

definition drop_routes :: "string \<Rightarrow> act" where
  "drop_routes orig r = for_each (withdrawRouteOrigin orig) (mget0 [] (rb_byOrigin r) orig)
     (r\<lparr>rb_byOrigin := mdel orig (rb_byOrigin r)\<rparr>)"

lemmas drop_routes_frame =
  withdraw_origin_frame(2) [THEN for_each_frame [where f = rb_fenced]]
  withdraw_origin_frame(3) [THEN for_each_frame [where f = rb_subscribers]]
  withdraw_origin_frame(4) [THEN for_each_frame [where f = rb_sinks]]
  withdraw_origin_frame(5) [THEN for_each_frame [where f = rb_nat]]
  withdraw_origin_frame(6) [THEN for_each_frame [where f = rb_natOrigin]]
  withdraw_origin_frame(7) [THEN for_each_frame [where f = rb_natByOrigin]]
  withdraw_origin_frame(8) [THEN for_each_frame [where f = rb_public]]
  withdraw_origin_frame(9) [THEN for_each_frame [where f = rb_publicOrigin]]
  withdraw_origin_frame(10) [THEN for_each_frame [where f = rb_publicByOrigin]]
  withdraw_origin_frame(11) [THEN for_each_frame [where f = rb_globalSnap]]
  withdraw_origin_frame(12) [THEN for_each_frame [where f = rb_origins]]
  withdraw_origin_frame(13) [THEN for_each_frame [where f = rb_nextToken]]

lemma drop_routes_inv:
  assumes "routes_inv r"
  shows "routes_inv (fst (drop_routes orig r))"
  unfolding drop_routes_def
proof (rule withdraw_loop_inv)
  show "routes_inv_but orig (set (mget0 [] (rb_byOrigin r) orig)) (r\<lparr>rb_byOrigin := mdel orig (rb_byOrigin r)\<rparr>)"
    using assms unfolding routes_inv_but_def routes_inv_def by (auto simp: announces_def)
qed simp

lemma drop_routes_holds:
  assumes "routes_inv r"
  shows "holds (fst (drop_routes orig r)) o' k = (if o' = orig then None else holds r o' k)"
proof -
  have "holds r orig k = None" if "k \<notin> set (mget0 [] (rb_byOrigin r) orig)"
    using that routes_invD(6) [OF assms] by (auto simp: announces_holds)
  then show ?thesis
    by (auto simp: drop_routes_def withdraw_loop_holds)
qed

lemma dropOriginLocked_stages:
  "fst (dropOriginLocked orig r) =
     (let r1 = fst (drop_routes orig r);
          r2 = r1\<lparr>rb_subscribers := drop_subs orig (rb_subscribers r1)\<rparr>
      in fst (dropOriginPublic orig (fst (dropOriginNat orig r2))))"
  by (simp add: dropOriginLocked_def then_act_def drop_routes_def split_def Let_def)

lemma dropOriginLocked_effects:
  "snd (dropOriginLocked orig r) =
     (let r1 = fst (drop_routes orig r);
          r2 = r1\<lparr>rb_subscribers := drop_subs orig (rb_subscribers r1)\<rparr>
      in snd (drop_routes orig r) @ snd (dropOriginNat orig r2)
           @ snd (dropOriginPublic orig (fst (dropOriginNat orig r2))))"
  by (simp add: dropOriginLocked_def then_act_def drop_routes_def split_def Let_def)

lemmas dropOriginNat_frame =
  drop_nat_frame(1) [THEN for_each_frame [where f = rb_routes]]
  drop_nat_frame(2) [THEN for_each_frame [where f = rb_byOrigin]]
  drop_nat_frame(3) [THEN for_each_frame [where f = rb_subscribers]]
  drop_nat_frame(4) [THEN for_each_frame [where f = rb_fenced]]
  drop_nat_frame(6) [THEN for_each_frame [where f = rb_public]]
  drop_nat_frame(7) [THEN for_each_frame [where f = rb_publicOrigin]]
  drop_nat_frame(8) [THEN for_each_frame [where f = rb_publicByOrigin]]
  drop_nat_frame(9) [THEN for_each_frame [where f = rb_sinks]]
  drop_nat_frame(10) [THEN for_each_frame [where f = rb_origins]]
  drop_nat_frame(11) [THEN for_each_frame [where f = rb_nextToken]]

lemmas dropOriginPublic_frame =
  drop_public_frame(1) [THEN for_each_frame [where f = rb_routes]]
  drop_public_frame(2) [THEN for_each_frame [where f = rb_byOrigin]]
  drop_public_frame(3) [THEN for_each_frame [where f = rb_subscribers]]
  drop_public_frame(4) [THEN for_each_frame [where f = rb_nat]]
  drop_public_frame(5) [THEN for_each_frame [where f = rb_natOrigin]]
  drop_public_frame(6) [THEN for_each_frame [where f = rb_natByOrigin]]
  drop_public_frame(7) [THEN for_each_frame [where f = rb_fenced]]
  drop_public_frame(9) [THEN for_each_frame [where f = rb_sinks]]
  drop_public_frame(10) [THEN for_each_frame [where f = rb_origins]]
  drop_public_frame(11) [THEN for_each_frame [where f = rb_nextToken]]

lemma dropOriginNat_frame':
  "rb_public (fst (dropOriginNat orig r)) = rb_public r"
  "rb_publicOrigin (fst (dropOriginNat orig r)) = rb_publicOrigin r"
  "rb_publicByOrigin (fst (dropOriginNat orig r)) = rb_publicByOrigin r"
  by (simp_all add: dropOriginNat_def dropOriginNat_frame Let_def)

text \<open>Where each field of the torn-down state comes from.\<close>

lemma dropOriginLocked_fields:
  fixes orig r
  defines "r1 \<equiv> fst (drop_routes orig r)"
  defines "r2 \<equiv> r1\<lparr>rb_subscribers := drop_subs orig (rb_subscribers r1)\<rparr>"
  defines "r' \<equiv> fst (dropOriginLocked orig r)"
  shows "rb_routes r' = rb_routes r1" "rb_byOrigin r' = rb_byOrigin r1"
    and "rb_fenced r' = rb_fenced r" "rb_subscribers r' = drop_subs orig (rb_subscribers r)"
    and "rb_sinks r' = rb_sinks r" "rb_origins r' = rb_origins r" "rb_nextToken r' = rb_nextToken r"
    and "rb_nat r' = rb_nat (fst (dropOriginNat orig r2))"
    and "rb_natOrigin r' = rb_natOrigin (fst (dropOriginNat orig r2))"
    and "rb_natByOrigin r' = rb_natByOrigin (fst (dropOriginNat orig r2))"
    and "rb_public r2 = rb_public r" "rb_publicOrigin r2 = rb_publicOrigin r"
    and "rb_publicByOrigin r2 = rb_publicByOrigin r"
    and "rb_nat r2 = rb_nat r" "rb_natOrigin r2 = rb_natOrigin r" "rb_natByOrigin r2 = rb_natByOrigin r"
    and "rb_globalSnap r2 = rb_globalSnap r"
    and "r' = fst (dropOriginPublic orig (fst (dropOriginNat orig r2)))"
  unfolding r'_def r2_def r1_def dropOriginLocked_stages Let_def
  by (simp_all add: drop_routes_def dropOriginNat_def dropOriginPublic_def Let_def
        drop_routes_frame dropOriginNat_frame dropOriginPublic_frame)

section \<open>The shared global replay\<close>

text \<open>
  A cached replay, if there is one, is the current NAT and public records in some order, closed by
  the marker with their count.
\<close>

definition is_replay :: "RIB \<Rightarrow> ServerMsg list \<Rightarrow> bool" where
  "is_replay r snap \<longleftrightarrow> (\<exists>recs. snap = recs @ [EndOfGlobal (of_nat (length recs))]
     \<and> mset recs = mset (global_records r))"

definition snap_inv :: "RIB \<Rightarrow> bool" where
  "snap_inv r \<longleftrightarrow> (\<forall>snap. rb_globalSnap r = Some snap \<longrightarrow> is_replay r snap)"

lemma global_records_cong:
  "rb_nat r' = rb_nat r \<Longrightarrow> rb_public r' = rb_public r \<Longrightarrow> global_records r' = global_records r"
  by (simp add: global_records_def)

lemma snap_inv_cong:
  "rb_nat r' = rb_nat r \<Longrightarrow> rb_public r' = rb_public r \<Longrightarrow> rb_globalSnap r' = rb_globalSnap r \<Longrightarrow>
     snap_inv r' \<longleftrightarrow> snap_inv r"
  by (simp add: snap_inv_def is_replay_def global_records_def)

lemma snap_inv_none: "rb_globalSnap r = None \<Longrightarrow> snap_inv r"
  by (simp add: snap_inv_def)

lemma snap_inv_loop:
  assumes "\<And>x r. fst (g x r) = r \<or> rb_globalSnap (fst (g x r)) = None" and "snap_inv r"
  shows "snap_inv (fst (for_each g xs r))"
  using assms(2)
proof (induction xs arbitrary: r)
  case (Cons x xs)
  have "snap_inv (fst (g x r))"
    using assms(1) [of x r] Cons.prems by (auto intro: snap_inv_none)
  from Cons.IH [OF this] show ?case by (simp add: for_each_state del: for_each.simps)
qed simp

lemma snap_inv_drop_nat: "snap_inv r \<Longrightarrow> snap_inv (fst (dropOriginNat orig r))"
  unfolding dropOriginNat_def Let_def
  by (rule snap_inv_loop)
    (auto simp: drop_nat_key_def natFanout_def snap_inv_cong [of "r\<lparr>rb_natByOrigin := _\<rparr>" r] split: option.split)

lemma snap_inv_drop_public: "snap_inv r \<Longrightarrow> snap_inv (fst (dropOriginPublic orig r))"
  unfolding dropOriginPublic_def Let_def
  by (rule snap_inv_loop)
    (auto simp: drop_public_key_def publicFanout_def snap_inv_cong [of "r\<lparr>rb_publicByOrigin := _\<rparr>" r] split: option.split)

lemma globalSnapshotLocked_replay:
  "snap_inv r \<Longrightarrow> is_replay r (fst (globalSnapshotLocked r)) \<and> snap_inv (snd (globalSnapshotLocked r))"
  by (auto simp: globalSnapshotLocked_def snap_inv_def is_replay_def global_records_def Let_def split: option.split)

section \<open>The whole invariant\<close>

definition rib_inv :: "RIB \<Rightarrow> bool" where
  "rib_inv r \<longleftrightarrow> routes_inv r \<and> subs_inv r \<and> nat_inv r \<and> public_inv r \<and> snap_inv r"

lemma rib_invD:
  assumes "rib_inv r"
  shows "routes_inv r" "subs_inv r" "nat_inv r" "public_inv r" "snap_inv r"
  using assms by (simp_all add: rib_inv_def)

lemma rib_inv_new: "rib_inv NewRIB"
proof -
  have "nat_inv NewRIB" "public_inv NewRIB" "snap_inv NewRIB"
    by (simp_all add: nat_inv_def public_inv_def snap_inv_def owned_inv_empty NewRIB_def)
  then show ?thesis by (simp add: rib_inv_def routes_inv_new subs_inv_new)
qed

lemma rib_inv_drop:
  assumes "rib_inv r"
  shows "rib_inv (fst (dropOriginLocked orig r))"
proof -
  note inv = rib_invD [OF assms]
  note fields = dropOriginLocked_fields(1-17) [of orig r]
    and final = dropOriginLocked_fields(18) [of orig r]
  let ?r1 = "fst (drop_routes orig r)"
  let ?r2 = "?r1\<lparr>rb_subscribers := drop_subs orig (rb_subscribers ?r1)\<rparr>"
  let ?r' = "fst (dropOriginLocked orig r)"
  have "routes_inv ?r'"
    using drop_routes_inv [OF inv(1), of orig] routes_inv_cong [of ?r' ?r1] fields(1-3)
    by (simp add: drop_routes_def drop_routes_frame)
  moreover have "subs_inv ?r'"
    using inv(2) by (simp add: subs_inv_alt fields sub_maps_inv_drops)
  moreover have nat2: "nat_inv (fst (dropOriginNat orig ?r2))"
    using inv(3) by (intro nat_inv_drop) (simp only: nat_inv_def fields)
  then have "nat_inv ?r'" by (simp only: nat_inv_def fields)
  moreover have "public_inv (fst (dropOriginNat orig ?r2))"
    using inv(4) by (simp add: public_inv_def dropOriginNat_frame' fields)
  then have "public_inv ?r'"
    unfolding final by (rule public_inv_drop)
  moreover have "snap_inv ?r2"
    using inv(5) snap_inv_cong [OF fields(14) fields(11) fields(17)] by blast
  then have "snap_inv ?r'"
    unfolding final by (intro snap_inv_drop_public snap_inv_drop_nat)
  ultimately show ?thesis by (simp add: rib_inv_def)
qed

lemma rib_inv_refilter:
  assumes "rib_inv r" and "mwf fs"
  shows "rib_inv (r\<lparr>rb_fenced := fs\<rparr>)"
  using rib_invD [OF assms(1)] assms(2)
  by (simp add: rib_inv_def routes_inv_def announces_def subs_inv_def nat_inv_def public_inv_def snap_inv_def
      is_replay_def global_records_def)

lemma fence_state:
  "fst (SetFence p r) = (case fenceKey p of
     None \<Rightarrow> r
   | Some (key, ipnet) \<Rightarrow> if mget (rb_fenced r) key = None
       then r\<lparr>rb_fenced := mput key ipnet (rb_fenced r)\<rparr> else r)"
  "fst (ClearFence p r) = (case fenceKey p of
     None \<Rightarrow> r
   | Some (key, ipnet) \<Rightarrow> if mget (rb_fenced r) key = None
       then r else r\<lparr>rb_fenced := mdel key (rb_fenced r)\<rparr>)"
  by (auto simp: SetFence_def ClearFence_def refilter_def Let_def split: option.split)

lemma rib_inv_fence:
  assumes "rib_inv r"
  shows "rib_inv (fst (SetFence p r))" "rib_inv (fst (ClearFence p r))"
  using assms routes_invD(3) [OF rib_invD(1) [OF assms]]
  by (auto simp: fence_state intro!: rib_inv_refilter split: option.split)

lemma announce_frame:
  "fst (RIB_Announce orig vni p nhs ext r) =
     r\<lparr>rb_routes := rb_routes (fst (RIB_Announce orig vni p nhs ext r)),
       rb_byOrigin := rb_byOrigin (fst (RIB_Announce orig vni p nhs ext r))\<rparr>"
  by (simp add: RIB_Announce_def Let_def)

lemma withdraw_frame:
  "fst (RIB_Withdraw orig vni p r) =
     r\<lparr>rb_routes := rb_routes (fst (RIB_Withdraw orig vni p r)),
       rb_byOrigin := rb_byOrigin (fst (RIB_Withdraw orig vni p r))\<rparr>"
  by (simp add: RIB_Withdraw_def withdrawRouteOrigin_def Let_def split: option.split)

text \<open>Changing only the route table leaves the other parts of the invariant alone.\<close>

lemma rib_inv_routes:
  assumes "rib_inv r" and "r' = r\<lparr>rb_routes := rs, rb_byOrigin := bo\<rparr>" and "routes_inv r'"
  shows "rib_inv r'"
  using rib_invD [OF assms(1)] assms(3)
  by (simp add: rib_inv_def assms(2) subs_inv_def nat_inv_def public_inv_def snap_inv_def is_replay_def
      global_records_def)

lemma rib_inv_subs:
  assumes "rib_inv r" and "r' = r\<lparr>rb_subscribers := ss\<rparr>" and "subs_inv r'"
  shows "rib_inv r'"
  using rib_invD [OF assms(1)] assms(3)
  by (simp add: rib_inv_def assms(2) routes_inv_def announces_def nat_inv_def public_inv_def snap_inv_def
      is_replay_def global_records_def)

lemma rib_inv_claim:
  assumes "rib_inv r"
  shows "rib_inv (r\<lparr>rb_nextToken := n, rb_origins := os\<rparr>)"
    and "rib_inv (r\<lparr>rb_origins := os, rb_sinks := mdel i (rb_sinks r)\<rparr>)"
    and "rib_inv (r\<lparr>rb_nextToken := n, rb_origins := os, rb_sinks := mdel i (rb_sinks r)\<rparr>)"
  using rib_invD [OF assms]
  by (simp_all add: rib_inv_def routes_inv_def announces_def subs_inv_def nat_inv_def public_inv_def
      snap_inv_def is_replay_def global_records_def)

lemma rib_inv_nat:
  assumes "rib_inv r" and "r' = r\<lparr>rb_nat := t, rb_natOrigin := g, rb_natByOrigin := b, rb_globalSnap := None\<rparr>"
    and "nat_inv r'"
  shows "rib_inv r'"
  using rib_invD [OF assms(1)] assms(3)
  by (simp add: rib_inv_def assms(2) routes_inv_def announces_def subs_inv_def public_inv_def snap_inv_def)

lemma rib_inv_public:
  assumes "rib_inv r"
    and "r' = r\<lparr>rb_public := t, rb_publicOrigin := g, rb_publicByOrigin := b, rb_globalSnap := None\<rparr>"
    and "public_inv r'"
  shows "rib_inv r'"
  using rib_invD [OF assms(1)] assms(3)
  by (simp add: rib_inv_def assms(2) routes_inv_def announces_def subs_inv_def nat_inv_def snap_inv_def)

lemma rib_inv_WithdrawNat:
  assumes "rib_inv r"
  shows "rib_inv (fst (snd (RIB_WithdrawNat orig ip lo hi permit r)))"
proof (cases rule: nat_withdraw_cases [of orig ip lo hi permit r])
  case (applied b)
  then show ?thesis
    using nat_inv_Withdraw [OF rib_invD(3) [OF assms], of orig ip lo hi permit]
    by (intro rib_inv_nat [OF assms]) (simp_all add: natFanout_def)
qed (use assms in simp_all)

lemma rib_inv_WithdrawPublic:
  assumes "rib_inv r"
  shows "rib_inv (fst (snd (RIB_WithdrawPublic orig rec permit r)))"
proof (cases rule: public_withdraw_cases [of orig rec permit r])
  case (applied b)
  then show ?thesis
    using public_inv_Withdraw [OF rib_invD(4) [OF assms], of orig rec permit]
    by (intro rib_inv_public [OF assms]) (simp_all add: publicFanout_def)
qed (use assms in simp_all)

lemma rib_inv_RegisterSink:
  assumes "rib_inv r"
  shows "rib_inv (fst (RegisterSink s r))"
proof -
  let ?r1 = "r\<lparr>rb_sinks := mput (ID s) s (rb_sinks r)\<rparr>"
  have inv1: "rib_inv ?r1"
    using rib_invD [OF assms]
    by (auto simp: rib_inv_def routes_inv_def announces_def subs_inv_def nat_inv_def public_inv_def
        snap_inv_def is_replay_def global_records_def)
  obtain g where state: "fst (RegisterSink s r) = ?r1\<lparr>rb_globalSnap := g\<rparr>"
  proof
    show "fst (RegisterSink s r) = ?r1\<lparr>rb_globalSnap := rb_globalSnap (fst (RegisterSink s r))\<rparr>"
      by (simp add: RegisterSink_def globalSnapshotLocked_def Let_def split: option.split)
  qed
  have "snap_inv (snd (globalSnapshotLocked ?r1))"
    using globalSnapshotLocked_replay rib_invD(5) [OF inv1] by blast
  then have "snap_inv (?r1\<lparr>rb_globalSnap := g\<rparr>)"
    unfolding state [symmetric] by (simp add: RegisterSink_def split_def Let_def)
  moreover have "routes_inv (?r1\<lparr>rb_globalSnap := g\<rparr>) = routes_inv ?r1"
    by (rule routes_inv_cong) simp_all
  moreover have "subs_inv (?r1\<lparr>rb_globalSnap := g\<rparr>) = subs_inv ?r1"
    by (rule subs_inv_cong) simp_all
  moreover have "nat_inv (?r1\<lparr>rb_globalSnap := g\<rparr>) = nat_inv ?r1"
    and "public_inv (?r1\<lparr>rb_globalSnap := g\<rparr>) = public_inv ?r1"
    by (simp_all add: nat_inv_def public_inv_def)
  ultimately show ?thesis
    unfolding state rib_inv_def using rib_invD(1-4) [OF inv1] by blast
qed

lemma rib_inv_Claim:
  assumes "rib_inv r"
  shows "rib_inv (fst (snd (ClaimOrigin i r)))"
proof (cases "mget (rb_origins r) i")
  case None
  then show ?thesis
    using rib_inv_claim(1) [OF assms, where os = "mput i (rb_nextToken r + 1) (rb_origins r)"
        and n = "rb_nextToken r + 1"]
    by (simp add: ClaimOrigin_def Let_def)
next
  case (Some t)
  then show ?thesis
    by (auto simp: ClaimOrigin_def Let_def intro!: rib_inv_drop rib_inv_claim(3) assms)
qed

lemma rib_inv_Release: "rib_inv r \<Longrightarrow> rib_inv (fst (ReleaseOrigin i token r))"
  by (auto simp: ReleaseOrigin_def intro!: rib_inv_drop rib_inv_claim(2) split: option.split)

lemma rib_inv_step:
  assumes "rib_inv r"
  shows "rib_inv (fst (rib_step op r))"
proof (cases op)
  case (OpSubscribe vni s)
  have "\<exists>ss. fst (RIB_Subscribe vni s r) = r\<lparr>rb_subscribers := ss\<rparr>"
    by (cases "mget (mget0 [] (rb_subscribers r) vni) (ID s) = Some s")
      (auto simp: RIB_Subscribe_def Let_def intro: exI [of _ "rb_subscribers r"])
  with OpSubscribe show ?thesis
    using rib_inv_subs [OF assms] subs_inv_Subscribe [OF rib_invD(2) [OF assms], of vni s] by auto
next
  case (OpUnsubscribe vni i)
  then show ?thesis
    using rib_inv_subs [OF assms] subs_inv_Unsubscribe [OF rib_invD(2) [OF assms], of vni i]
    by (simp add: RIB_Unsubscribe_def)
next
  case (OpAnnounce orig vni p nhs ext)
  then show ?thesis
    using rib_inv_routes [OF assms announce_frame] routes_inv_Announce rib_invD(1) [OF assms] by simp
next
  case (OpWithdraw orig vni p)
  then show ?thesis
    using rib_inv_routes [OF assms withdraw_frame] routes_inv_Withdraw rib_invD(1) [OF assms] by simp
next
  case (OpAnnounceNat orig b)
  then show ?thesis
    using rib_inv_nat [OF assms nat_announce_state] nat_inv_Announce rib_invD(3) [OF assms] by simp
next
  case (OpAnnouncePublic orig b)
  then show ?thesis
    using rib_inv_public [OF assms public_announce_state] public_inv_Announce rib_invD(4) [OF assms] by simp
qed (use assms in \<open>simp_all add: rib_inv_fence rib_inv_RegisterSink rib_inv_WithdrawNat
       rib_inv_WithdrawPublic rib_inv_Claim rib_inv_Release\<close>)

lemma rib_run_Cons: "fst (rib_run (op # ops) r) = fst (rib_run ops (fst (rib_step op r)))"
  "snd (rib_run (op # ops) r) = snd (rib_step op r) @ snd (rib_run ops (fst (rib_step op r)))"
  by (simp_all add: rib_run_def for_each_state for_each_effects del: for_each.simps)

lemma rib_run_Nil [simp]: "rib_run [] r = (r, [])"
  by (simp add: rib_run_def)

lemma rib_inv_run: "rib_inv r \<Longrightarrow> rib_inv (fst (rib_run ops r))"
  by (induction ops arbitrary: r) (simp_all add: rib_run_Cons rib_inv_step)

end
