(* ===== verification/Rib_Spec.thy ===== *)
theory Rib_Spec
  imports Rib_Ops
begin

text \<open>
  What the route table promises, without its indices, caches and merge order: who holds which
  route, which fences stand, who subscribes to which VNI, who owns each global record and which
  session claim is live. Every operation of the table implements the operation of this table under
  the abstraction \<open>rib_abs\<close>.
\<close>

section \<open>The abstract table\<close>

record rib_spec =
  sp_holds :: "string \<Rightarrow> routeKey \<Rightarrow> string list option"
  sp_external :: "routeKey \<Rightarrow> bool"
  sp_fences :: "string \<Rightarrow> IPNet option"
  sp_nat :: "natKey \<Rightarrow> (string \<times> NatBlock) option"
  sp_public :: "publicKey \<Rightarrow> (string \<times> PublicRecord) option"
  sp_subs :: "u32 \<Rightarrow> string \<Rightarrow> Sink option"
  sp_sinks :: "string \<Rightarrow> Sink option"
  sp_claim :: "string \<Rightarrow> u64 option"
  sp_token :: u64

text \<open>A global record together with the origin that announced it.\<close>

definition owned_by :: "('k, string) gomap \<Rightarrow> ('k, 'v) gomap \<Rightarrow> 'k \<Rightarrow> (string \<times> 'v) option" where
  "owned_by org tab k = map_option (\<lambda>v. (mget0 [] org k, v)) (mget tab k)"

definition rib_abs :: "RIB \<Rightarrow> rib_spec" where
  "rib_abs r = \<lparr>sp_holds = holds r,
     sp_external = (\<lambda>k. re_external (mget0 no_entry (rb_routes r) k)),
     sp_fences = mget (rb_fenced r),
     sp_nat = owned_by (rb_natOrigin r) (rb_nat r),
     sp_public = owned_by (rb_publicOrigin r) (rb_public r),
     sp_subs = (\<lambda>vni. mget (mget0 [] (rb_subscribers r) vni)),
     sp_sinks = mget (rb_sinks r),
     sp_claim = mget (rb_origins r),
     sp_token = rb_nextToken r\<rparr>"

section \<open>The abstract operations\<close>

definition disown :: "string \<Rightarrow> ('k \<Rightarrow> (string \<times> 'v) option) \<Rightarrow> 'k \<Rightarrow> (string \<times> 'v) option" where
  "disown i t k = (case t k of Some (orig, v) \<Rightarrow> if orig = i then None else Some (orig, v) | None \<Rightarrow> None)"

text \<open>One route of one origin goes away; a route nobody holds any more loses its flag.\<close>

definition unhold :: "string \<Rightarrow> (routeKey \<Rightarrow> bool) \<Rightarrow> rib_spec \<Rightarrow> rib_spec" where
  "unhold i gone s = s\<lparr>
     sp_holds := (\<lambda>orig k. if orig = i \<and> gone k then None else sp_holds s orig k),
     sp_external := (\<lambda>k. sp_external s k \<and> (\<exists>orig. (orig \<noteq> i \<or> \<not> gone k) \<and> sp_holds s orig k \<noteq> None))\<rparr>"

definition spec_drop :: "string \<Rightarrow> rib_spec \<Rightarrow> rib_spec" where
  "spec_drop i s = (unhold i (\<lambda>_. True) s)\<lparr>
     sp_subs := (\<lambda>vni. (sp_subs s vni)(i := None)),
     sp_nat := disown i (sp_nat s),
     sp_public := disown i (sp_public s)\<rparr>"

fun spec_step :: "rib_op \<Rightarrow> rib_spec \<Rightarrow> rib_spec" where
  "spec_step (OpSubscribe vni k) s = s\<lparr>sp_subs := (sp_subs s)(vni := (sp_subs s vni)(ID k \<mapsto> k))\<rparr>"
| "spec_step (OpUnsubscribe vni i) s = s\<lparr>sp_subs := (sp_subs s)(vni := (sp_subs s vni)(i := None))\<rparr>"
| "spec_step (OpAnnounce orig vni p nhs ext) s =
     s\<lparr>sp_holds := (sp_holds s)(orig := (sp_holds s orig)((vni, p) \<mapsto> nhs)),
       sp_external := (sp_external s)((vni, p) := ext)\<rparr>"
| "spec_step (OpWithdraw orig vni p) s = unhold orig (\<lambda>k. k = (vni, p)) s"
| "spec_step (OpSetFence p) s = (case fenceKey p of
     None \<Rightarrow> s
   | Some (key, ipnet) \<Rightarrow> if sp_fences s key = None then s\<lparr>sp_fences := (sp_fences s)(key \<mapsto> ipnet)\<rparr> else s)"
| "spec_step (OpClearFence p) s = (case fenceKey p of
     None \<Rightarrow> s | Some (key, _) \<Rightarrow> s\<lparr>sp_fences := (sp_fences s)(key := None)\<rparr>)"
| "spec_step (OpRegisterSink k) s = s\<lparr>sp_sinks := (sp_sinks s)(ID k \<mapsto> k)\<rparr>"
| "spec_step (OpAnnounceNat orig b) s = s\<lparr>sp_nat := (sp_nat s)(nat_key b \<mapsto> (orig, b))\<rparr>"
| "spec_step (OpWithdrawNat orig ip lo hi permit) s = (case sp_nat s (ip, lo) of
     Some (orig', b) \<Rightarrow> if orig' = orig \<and> allows permit (nb_OwnerUnderlay b)
       then s\<lparr>sp_nat := (sp_nat s)((ip, lo) := None)\<rparr> else s
   | None \<Rightarrow> s)"
| "spec_step (OpAnnouncePublic orig rec) s = s\<lparr>sp_public := (sp_public s)(public_key rec \<mapsto> (orig, rec))\<rparr>"
| "spec_step (OpWithdrawPublic orig rec permit) s = (case sp_public s (public_key rec) of
     Some (orig', stored) \<Rightarrow> if orig' = orig \<and> allows permit (pr_OwnerUnderlay stored)
       then s\<lparr>sp_public := (sp_public s)(public_key rec := None)\<rparr> else s
   | None \<Rightarrow> s)"
| "spec_step (OpClaim i) s =
     (let s1 = s\<lparr>sp_token := sp_token s + 1, sp_claim := (sp_claim s)(i \<mapsto> sp_token s + 1)\<rparr> in
      if sp_claim s i = None then s1
      else spec_drop i (s1\<lparr>sp_sinks := (sp_sinks s1)(i := None)\<rparr>))"
| "spec_step (OpRelease i token) s =
     (if sp_claim s i \<noteq> Some token then s
      else spec_drop i (s\<lparr>sp_claim := (sp_claim s)(i := None), sp_sinks := (sp_sinks s)(i := None)\<rparr>))"

section \<open>Refinement\<close>

lemma abs_eqI:
  assumes "\<And>orig k. holds r orig k = sp_holds s orig k"
    and "\<And>k. re_external (mget0 no_entry (rb_routes r) k) = sp_external s k"
    and "\<And>key. mget (rb_fenced r) key = sp_fences s key"
    and "\<And>k. owned_by (rb_natOrigin r) (rb_nat r) k = sp_nat s k"
    and "\<And>k. owned_by (rb_publicOrigin r) (rb_public r) k = sp_public s k"
    and "\<And>vni i. mget (mget0 [] (rb_subscribers r) vni) i = sp_subs s vni i"
    and "\<And>i. mget (rb_sinks r) i = sp_sinks s i"
    and "\<And>i. mget (rb_origins r) i = sp_claim s i"
    and "rb_nextToken r = sp_token s"
  shows "rib_abs r = s"
  using assms by (cases s) (simp add: rib_abs_def fun_eq_iff)

lemmas abs_sel = rib_abs_def rib_spec.select_convs

text \<open>An entry with no origin is never stored, so only a held route can carry the flag.\<close>

definition live_routes :: "RIB \<Rightarrow> bool" where
  "live_routes r \<longleftrightarrow> (\<forall>k e. mget (rb_routes r) k = Some e \<longrightarrow> re_origins e \<noteq> [])"

lemma live_holds: "live_routes r \<Longrightarrow> mget (rb_routes r) k = Some e \<Longrightarrow> \<exists>orig. holds r orig k \<noteq> None"
  using mget_Nil_iff [of "re_origins e"] by (auto simp: live_routes_def holds_def mget0_def)

lemma live_external: "live_routes r \<Longrightarrow> re_external (mget0 no_entry (rb_routes r) k) \<Longrightarrow> \<exists>orig. holds r orig k \<noteq> None"
  using live_holds [of r k] by (auto simp: mget0_def no_entry_def split: option.splits)

lemma live_withdraw: "live_routes r \<Longrightarrow> live_routes (fst (withdrawRouteOrigin i k r))"
  unfolding live_routes_def withdraw_origin_routes by (auto split: if_splits option.splits)

lemma external_withdraw:
  assumes "live_routes r"
  shows "re_external (mget0 no_entry (rb_routes (fst (withdrawRouteOrigin i k r))) k') \<longleftrightarrow>
     re_external (mget0 no_entry (rb_routes r) k') \<and> (\<exists>orig. (orig \<noteq> i \<or> k' \<noteq> k) \<and> holds r orig k' \<noteq> None)"
proof -
  let ?r1 = "fst (withdrawRouteOrigin i k r)"
  have same: "re_external (mget0 no_entry (rb_routes ?r1) k') \<Longrightarrow> re_external (mget0 no_entry (rb_routes r) k')"
    and keep: "re_external (mget0 no_entry (rb_routes r) k') \<Longrightarrow> mget (rb_routes ?r1) k' \<noteq> None \<Longrightarrow>
      re_external (mget0 no_entry (rb_routes ?r1) k')"
    by (auto simp: mget0_def withdraw_origin_routes no_entry_def split: option.splits if_splits)
  have some: "mget (rb_routes ?r1) k' \<noteq> None" if "holds ?r1 orig k' \<noteq> None" for orig
    using that by (auto simp: holds_def mget0_def no_entry_def split: option.splits)
  show ?thesis
    using same keep some live_external [OF live_withdraw [OF assms], of i k k']
    unfolding holds_withdraw_origin by (metis (mono_tags, lifting))
qed

lemma external_withdraw_loop:
  assumes "live_routes r"
  shows "re_external (mget0 no_entry (rb_routes (fst (for_each (withdrawRouteOrigin i) ks r))) k') \<longleftrightarrow>
     re_external (mget0 no_entry (rb_routes r) k') \<and> (\<exists>orig. (orig \<noteq> i \<or> k' \<notin> set ks) \<and> holds r orig k' \<noteq> None)"
  using assms
proof (induction ks arbitrary: r)
  case Nil
  then show ?case using live_external [of r k'] by auto
next
  case (Cons k ks)
  then show ?case
    unfolding for_each_state Cons.IH [OF live_withdraw [OF Cons.prems]] external_withdraw [OF Cons.prems]
      holds_withdraw_origin
    by (auto split: if_splits)
qed

lemma live_routesI: "routes_inv r \<Longrightarrow> live_routes r"
  by (auto simp: live_routes_def dest: routes_invD)

lemma live_byOrigin [simp]: "live_routes (r\<lparr>rb_byOrigin := x\<rparr>) = live_routes r"
  by (simp add: live_routes_def)

lemma external_drop_routes:
  assumes "routes_inv r"
  shows "re_external (mget0 no_entry (rb_routes (fst (drop_routes i r))) k) \<longleftrightarrow>
     re_external (mget0 no_entry (rb_routes r) k) \<and> (\<exists>orig. orig \<noteq> i \<and> holds r orig k \<noteq> None)"
proof -
  have "holds r i k \<noteq> None \<longleftrightarrow> k \<in> set (mget0 [] (rb_byOrigin r) i)"
    by (simp add: routes_invD(6) [OF assms] announces_holds)
  then show ?thesis
    using live_routesI [OF assms] by (auto simp: drop_routes_def external_withdraw_loop)
qed

lemma owned_by_drop:
  assumes "owned_inv key tab org byo" and "owned_after_drop i tab org tab' org'"
  shows "owned_by org' tab' = disown i (owned_by org tab)"
proof
  fix k
  have "mget tab k = None \<longleftrightarrow> mget org k = None" by (rule owned_invD(4) [OF assms(1)])
  with assms(2) show "owned_by org' tab' k = disown i (owned_by org tab) k"
    by (auto simp: owned_by_def disown_def owned_after_drop_def mget0_def split: option.splits)
qed

lemma abs_drop:
  assumes "rib_inv r"
  shows "rib_abs (fst (dropOriginLocked i r)) = spec_drop i (rib_abs r)"
proof -
  note inv = rib_invD [OF assms]
  note fields = dropOriginLocked_fields(1-17) [of i r]
  let ?r1 = "fst (drop_routes i r)"
  let ?r2 = "?r1\<lparr>rb_subscribers := drop_subs i (rb_subscribers ?r1)\<rparr>"
  let ?r' = "fst (dropOriginLocked i r)"
  have nat2: "nat_inv ?r2" and public2: "public_inv (fst (dropOriginNat i ?r2))"
    using inv(3,4) by (simp_all only: nat_inv_def public_inv_def fields dropOriginNat_frame')
  show ?thesis
  proof (rule abs_eqI)
    show "owned_by (rb_natOrigin ?r') (rb_nat ?r') k = sp_nat (spec_drop i (rib_abs r)) k" for k
      using owned_by_drop [OF nat2 [unfolded nat_inv_def] nat.drop_all_spec(1) [OF nat2 [unfolded nat_inv_def]], of i]
      unfolding dropOriginNat_loop [symmetric] fields by (simp add: spec_drop_def rib_abs_def)
    show "owned_by (rb_publicOrigin ?r') (rb_public ?r') k = sp_public (spec_drop i (rib_abs r)) k" for k
      using owned_by_drop [OF public2 [unfolded public_inv_def]
          public.drop_all_spec(1) [OF public2 [unfolded public_inv_def]], of i]
      unfolding dropOriginPublic_loop [symmetric] dropOriginLocked_fields(18) [symmetric] dropOriginNat_frame' fields
      by (simp add: spec_drop_def rib_abs_def)
    show "holds ?r' orig k = sp_holds (spec_drop i (rib_abs r)) orig k" for orig k
      using holds_cong [OF fields(1)] drop_routes_holds [OF inv(1)]
      by (simp add: spec_drop_def unhold_def rib_abs_def)
  qed (simp_all add: fields external_drop_routes [OF inv(1)] mget_drop_subs spec_drop_def unhold_def rib_abs_def)
qed

lemma owned_by_announce:
  "owned_by (mput k orig org) (mput k v tab) = (owned_by org tab)(k \<mapsto> (orig, v))"
  by (auto simp: owned_by_def mget0_def fun_eq_iff)

lemma owned_by_withdraw: "owned_by (mdel k org) (mdel k tab) = (owned_by org tab)(k := None)"
  by (auto simp: owned_by_def mget0_def fun_eq_iff)

lemma abs_WithdrawNat:
  assumes "rib_inv r"
  shows "rib_abs (fst (snd (RIB_WithdrawNat orig ip lo hi permit r))) =
    spec_step (OpWithdrawNat orig ip lo hi permit) (rib_abs r)"
proof (cases rule: nat_withdraw_cases [of orig ip lo hi permit r])
  case (applied b)
  then show ?thesis
    by (simp add: natFanout_def rib_abs_def holds_def owned_by_withdraw owned_by_def [of _ _ "(ip, lo)"])
qed (auto simp: rib_abs_def owned_by_def)

lemma abs_WithdrawPublic:
  assumes "rib_inv r"
  shows "rib_abs (fst (snd (RIB_WithdrawPublic orig rec permit r))) =
    spec_step (OpWithdrawPublic orig rec permit) (rib_abs r)"
proof (cases rule: public_withdraw_cases [of orig rec permit r])
  case (applied b)
  then show ?thesis
    by (simp add: publicFanout_def rib_abs_def holds_def owned_by_withdraw owned_by_def [of _ _ "public_key rec"])
qed (auto simp: rib_abs_def owned_by_def)

lemma abs_Claim:
  assumes "rib_inv r"
  shows "rib_abs (fst (snd (ClaimOrigin i r))) = spec_step (OpClaim i) (rib_abs r)"
proof (cases "mget (rb_origins r) i")
  case None
  then show ?thesis by (simp add: ClaimOrigin_def Let_def rib_abs_def holds_def fun_eq_iff)
next
  case (Some t)
  let ?r1 = "r\<lparr>rb_nextToken := rb_nextToken r + 1, rb_origins := mput i (rb_nextToken r + 1) (rb_origins r),
     rb_sinks := mdel i (rb_sinks r)\<rparr>"
  have "rib_abs ?r1 = (rib_abs r)\<lparr>sp_token := rb_nextToken r + 1,
      sp_claim := (mget (rb_origins r))(i \<mapsto> rb_nextToken r + 1), sp_sinks := (mget (rb_sinks r))(i := None)\<rparr>"
    by (simp add: rib_abs_def holds_def fun_eq_iff)
  with Some show ?thesis
    using abs_drop [OF rib_inv_claim(3) [OF assms], of i] by (simp add: ClaimOrigin_def Let_def abs_sel)
qed

lemma abs_Release:
  assumes "rib_inv r"
  shows "rib_abs (fst (ReleaseOrigin i token r)) = spec_step (OpRelease i token) (rib_abs r)"
proof (cases "mget (rb_origins r) i = Some token")
  case False
  then show ?thesis by (auto simp: ReleaseOrigin_def abs_sel split: option.split)
next
  case True
  let ?r1 = "r\<lparr>rb_origins := mdel i (rb_origins r), rb_sinks := mdel i (rb_sinks r)\<rparr>"
  have "rib_abs ?r1 = (rib_abs r)\<lparr>sp_claim := (mget (rb_origins r))(i := None),
      sp_sinks := (mget (rb_sinks r))(i := None)\<rparr>"
    by (simp add: rib_abs_def holds_def fun_eq_iff)
  with True show ?thesis
    using abs_drop [OF rib_inv_claim(2) [OF assms], of i] by (simp add: ReleaseOrigin_def abs_sel)
qed

lemma abs_Withdraw:
  assumes "rib_inv r"
  shows "rib_abs (fst (RIB_Withdraw orig vni p r)) = spec_step (OpWithdraw orig vni p) (rib_abs r)"
proof (rule abs_eqI)
  show "re_external (mget0 no_entry (rb_routes (fst (RIB_Withdraw orig vni p r))) k) =
      sp_external (spec_step (OpWithdraw orig vni p) (rib_abs r)) k" for k
    using live_routesI [OF rib_invD(1) [OF assms]]
    by (simp add: RIB_Withdraw_def Let_def external_withdraw unhold_def abs_sel)
qed (simp_all add: RIB_Withdraw_def Let_def holds_withdraw_origin withdraw_origin_frame unhold_def rib_abs_def)

lemma abs_step:
  assumes "rib_inv r"
  shows "rib_abs (fst (rib_step op r)) = spec_step op (rib_abs r)"
proof (cases op)
  case (OpSubscribe vni s)
  then show ?thesis
    by (auto simp: RIB_Subscribe_def Let_def rib_abs_def holds_def fun_eq_iff)
next
  case (OpUnsubscribe vni i)
  then show ?thesis by (auto simp: RIB_Unsubscribe_def mget_drop_sub rib_abs_def holds_def fun_eq_iff)
next
  case (OpAnnounce orig vni p nhs ext)
  have "holds (fst (RIB_Announce orig vni p nhs ext r)) =
      (holds r)(orig := (holds r orig)((vni, p) \<mapsto> nhs))"
    by (simp add: fun_eq_iff holds_Announce)
  with OpAnnounce show ?thesis
    by (simp add: rib_abs_def announce_routes Let_def fun_eq_iff)
      (simp add: RIB_Announce_def Let_def)
next
  case (OpRegisterSink s)
  then show ?thesis
    by (auto simp: RegisterSink_def globalSnapshotLocked_def Let_def rib_abs_def holds_def fun_eq_iff
        split: option.split)
next
  case (OpAnnounceNat orig b)
  then show ?thesis by (simp add: nat_announce_state rib_abs_def holds_def owned_by_announce)
next
  case (OpAnnouncePublic orig b)
  then show ?thesis by (simp add: public_announce_state rib_abs_def holds_def owned_by_announce)
next
  case (OpSetFence p)
  then show ?thesis by (auto simp: fence_state rib_abs_def fun_eq_iff split: option.split)
next
  case (OpClearFence p)
  then show ?thesis by (auto simp: fence_state rib_abs_def fun_eq_iff split: option.split)
qed (simp_all add: assms abs_Withdraw abs_WithdrawNat abs_WithdrawPublic abs_Claim abs_Release
       del: spec_step.simps(4,9,11,12,13))

lemma abs_run: "rib_inv r \<Longrightarrow> rib_abs (fst (rib_run ops r)) = fold spec_step ops (rib_abs r)"
  by (induction ops arbitrary: r) (simp_all add: rib_run_Cons rib_inv_step abs_step)

end
