(* ===== verification/Rib_View.thy ===== *)
theory Rib_View
  imports Rib_Spec
begin

text \<open>
  What a client that applies the messages it is sent, in the order they were handed to its sink,
  ends up knowing. Routes are learned as the agent learns them: an add stores the nexthops under
  the key, a withdraw forgets the key.
\<close>

section \<open>Learning\<close>

fun learn :: "ServerMsg \<Rightarrow> (routeKey \<Rightarrow> string list option) \<Rightarrow> (routeKey \<Rightarrow> string list option)" where
  "learn (RouteUpdate k nhs ROUTE_OP_ADD ext) v = v(k \<mapsto> nhs)"
| "learn (RouteUpdate k nhs ROUTE_OP_WITHDRAW ext) v = v(k := None)"
| "learn _ v = v"

fun learn_nat :: "ServerMsg \<Rightarrow> (natKey \<Rightarrow> NatBlock option) \<Rightarrow> (natKey \<Rightarrow> NatBlock option)" where
  "learn_nat (NatUpdate b ROUTE_OP_ADD) v = v(nat_key b \<mapsto> b)"
| "learn_nat (NatUpdate b ROUTE_OP_WITHDRAW) v = v(nat_key b := None)"
| "learn_nat _ v = v"

text \<open>The messages one sink is handed, in order.\<close>

fun msgs_for :: "Sink \<Rightarrow> effect list \<Rightarrow> ServerMsg list" where
  "msgs_for s [] = []"
| "msgs_for s (Send s' m # es) = (if s' = s then m # msgs_for s es else msgs_for s es)"
| "msgs_for s (SendSnapshot s' ms # es) = (if s' = s then ms @ msgs_for s es else msgs_for s es)"

definition learned :: "Sink \<Rightarrow> effect list \<Rightarrow> (routeKey \<Rightarrow> string list option) \<Rightarrow> (routeKey \<Rightarrow> string list option)" where
  "learned s es = fold learn (msgs_for s es)"

definition learned_nat :: "Sink \<Rightarrow> effect list \<Rightarrow> (natKey \<Rightarrow> NatBlock option) \<Rightarrow> (natKey \<Rightarrow> NatBlock option)" where
  "learned_nat s es = fold learn_nat (msgs_for s es)"

text \<open>What the table shows for a key: nothing when no nexthop is advertised.\<close>

definition shown :: "RIB \<Rightarrow> routeKey \<Rightarrow> string list option" where
  "shown r k = (let a = Advertised (fst k) (snd k) r in if a = [] then None else Some a)"

definition subscribed :: "u32 \<Rightarrow> Sink \<Rightarrow> RIB \<Rightarrow> bool" where
  "subscribed vni s r \<longleftrightarrow> mget (mget0 [] (rb_subscribers r) vni) (ID s) = Some s"

definition registered :: "Sink \<Rightarrow> RIB \<Rightarrow> bool" where
  "registered s r \<longleftrightarrow> mget (rb_sinks r) (ID s) = Some s"

lemma msgs_for_append [simp]: "msgs_for s (es @ fs) = msgs_for s es @ msgs_for s fs"
proof (induction es)
  case (Cons e es)
  then show ?case by (cases e) simp_all
qed simp

lemma learned_append [simp]: "learned s (es @ fs) v = learned s fs (learned s es v)"
  by (simp add: learned_def)

lemma learned_Nil [simp]: "learned s [] v = v"
  by (simp add: learned_def)

lemma learned_nat_append [simp]: "learned_nat s (es @ fs) v = learned_nat s fs (learned_nat s es v)"
  by (simp add: learned_nat_def)

lemma learned_nat_Nil [simp]: "learned_nat s [] v = v"
  by (simp add: learned_nat_def)

text \<open>One broadcast reaches a sink stored under its own id exactly once.\<close>

lemma msgs_for_broadcast:
  assumes "mwf m" and "\<And>i s. mget m i = Some s \<Longrightarrow> ID s = i"
  shows "msgs_for s (map (\<lambda>(_, t). Send t msg) (filter (\<lambda>(i, _). \<not> skip i) m)) =
     (if mget m (ID s) = Some s \<and> \<not> skip (ID s) then [msg] else [])"
proof -
  have others: "msgs_for s (map (\<lambda>(_, t). Send t msg) (filter (\<lambda>(i, _). \<not> skip i) ys)) = []"
    if "\<And>i t. (i, t) \<in> set ys \<Longrightarrow> t \<noteq> s" for ys
    using that by (induction ys) force+
  show ?thesis
  proof (cases "mget m (ID s) = Some s")
    case False
    then have "t \<noteq> s" if "(i, t) \<in> set m" for i t
      using that assms by (auto simp: mget_iff)
    with False others show ?thesis by simp
  next
    case True
    then obtain ys zs where m: "m = ys @ (ID s, s) # zs"
      by (meson mget_in split_list)
    have notin: "ID s \<notin> fst ` set (ys @ zs)"
      using assms(1) by (simp add: m mwf_def image_Un)
    have "t \<noteq> s" if "(i, t) \<in> set (ys @ zs)" for i t
    proof
      assume "t = s"
      with that have "(i, s) \<in> set m" by (auto simp: m)
      with assms have "i = ID s" by (simp add: mget_iff)
      with that notin show False by (metis fst_conv image_eqI)
    qed
    then have "msgs_for s (map (\<lambda>(_, t). Send t msg) (filter (\<lambda>(i, _). \<not> skip i) ys)) = []"
      and "msgs_for s (map (\<lambda>(_, t). Send t msg) (filter (\<lambda>(i, _). \<not> skip i) zs)) = []"
      by (auto intro!: others)
    with True show ?thesis by (simp add: m)
  qed
qed

lemma fanout_msgs:
  assumes "subs_inv r"
  shows "msgs_for s (fanout r k nhs op skip ext) =
     (if subscribed (fst k) s r \<and> \<not> skip (ID s) then [RouteUpdate k nhs op ext] else [])"
  unfolding fanout_def subscribed_def routeUpdate_def
  by (rule msgs_for_broadcast) (use assms in \<open>auto simp: subs_inv_def mget0_def split: option.splits\<close>)

lemma fanoutChange_learned:
  assumes "subs_inv r" and "subscribed (fst k) s r"
  shows "learned s (fanoutChange r k before after skip ext) v =
     (if before = after \<or> skip (ID s) then v else v(k := if after = [] then None else Some after))"
  using assms by (simp add: fanoutChange_def learned_def fanout_msgs)

lemma fanoutChange_other:
  assumes "subs_inv r" and "k' \<noteq> k"
  shows "learned s (fanoutChange r k before after skip ext) v k' = v k'"
  using assms by (simp add: fanoutChange_def learned_def fanout_msgs)

section \<open>One route\<close>

lemma shown_alt: "shown r k = (let a = advertised r (mget0 no_entry (rb_routes r) k) in if a = [] then None else Some a)"
  by (simp add: shown_def Advertised_def)

text \<open>One key's change, fanned out without skipping the sink, keeps the sink's view of every key.\<close>

lemma change_view:
  assumes "subs_inv r'" and "subscribed (fst k) s r'" and "v k = shown r k"
    and "k \<noteq> k0 \<Longrightarrow> shown r' k = shown r k"
    and "k = k0 \<Longrightarrow> \<not> skip (ID s)"
    and "Advertised (fst k0) (snd k0) r = before" and "Advertised (fst k0) (snd k0) r' = after"
  shows "learned s (fanoutChange r' k0 before after skip ext) v k = shown r' k"
proof (cases "k = k0")
  case True
  with assms(2) have "subscribed (fst k0) s r'" by simp
  with True assms show ?thesis by (simp add: fanoutChange_learned shown_def)
next
  case False
  with assms show ?thesis by (simp add: fanoutChange_other)
qed

lemma withdraw_origin_view:
  assumes "subs_inv r" and "subscribed (fst k) s r" and "v k = shown r k"
  shows "learned s (snd (withdrawRouteOrigin orig k0 r)) v k = shown (fst (withdrawRouteOrigin orig k0 r)) k"
proof (cases "mget (re_origins (mget0 no_entry (rb_routes r) k0)) orig")
  case None
  with assms(3) show ?thesis
    by (auto simp: withdrawRouteOrigin_def mget0_def split: option.splits)
next
  case (Some nhs)
  then obtain e where e: "mget (rb_routes r) k0 = Some e" "mget (re_origins e) orig = Some nhs"
    by (auto simp: mget0_def no_entry_def split: option.splits)
  let ?e1 = "e\<lparr>re_origins := mdel orig (re_origins e)\<rparr>"
  define r1 where "r1 = fst (withdrawRouteOrigin orig k0 r)"
  have r1: "r1 = r\<lparr>rb_routes := (if mdel orig (re_origins e) = [] then mdel k0 (rb_routes r)
      else mput k0 ?e1 (rb_routes r))\<rparr>"
    and eff: "snd (withdrawRouteOrigin orig k0 r) =
      fanoutChange r1 k0 (advertised r e) (advertised r1 ?e1) skip_none (re_external e)"
    using e by (simp_all add: r1_def withdrawRouteOrigin_def Let_def)
  have "learned s (fanoutChange r1 k0 (advertised r e) (advertised r1 ?e1) skip_none (re_external e)) v k = shown r1 k"
  proof (rule change_view)
    show "subs_inv r1" "subscribed (fst k) s r1" "v k = shown r k"
      using assms by (simp_all add: r1 subs_inv_def subscribed_def)
    show "shown r1 k = shown r k" if "k \<noteq> k0"
      using that by (simp add: shown_alt r1 mget0_def advertised_eq)
    show "Advertised (fst k0) (snd k0) r = advertised r e"
      and "Advertised (fst k0) (snd k0) r1 = advertised r1 ?e1"
      using e by (simp_all add: Advertised_def mget0_def r1 advertised_eq no_entry_def)
  qed (simp add: skip_none_def)
  then show ?thesis by (simp add: eff r1_def)
qed

lemma withdraw_loop_view:
  assumes "subs_inv r" and "subscribed (fst k) s r" and "v k = shown r k"
  shows "learned s (snd (for_each (withdrawRouteOrigin orig) ks r)) v k =
     shown (fst (for_each (withdrawRouteOrigin orig) ks r)) k"
  using assms
proof (induction ks arbitrary: r v)
  case (Cons k0 ks)
  let ?r1 = "fst (withdrawRouteOrigin orig k0 r)"
  have "subs_inv ?r1" "subscribed (fst k) s ?r1"
    using Cons.prems(1,2) by (simp_all add: subs_inv_def subscribed_def withdraw_origin_frame)
  moreover have "learned s (snd (withdrawRouteOrigin orig k0 r)) v k = shown ?r1 k"
    using Cons.prems by (rule withdraw_origin_view)
  ultimately show ?case
    using Cons.IH [of ?r1 "learned s (snd (withdrawRouteOrigin orig k0 r)) v"]
    by (simp add: for_each_state for_each_effects del: for_each.simps)
qed simp

lemma announce_view:
  assumes "subs_inv r" and "subscribed (fst k) s r" and "v k = shown r k"
    and "orig \<noteq> ID s \<or> k \<noteq> (vni, p)"
  shows "learned s (snd (RIB_Announce orig vni p nhs ext r)) v k = shown (fst (RIB_Announce orig vni p nhs ext r)) k"
proof -
  let ?e = "mget0 no_entry (rb_routes r) (vni, p)"
  let ?e1 = "?e\<lparr>re_origins := mput orig nhs (re_origins ?e), re_external := ext\<rparr>"
  define r1 where "r1 = fst (RIB_Announce orig vni p nhs ext r)"
  have r1: "r1 = r\<lparr>rb_routes := mput (vni, p) ?e1 (rb_routes r), rb_byOrigin := add_in orig (vni, p) (rb_byOrigin r)\<rparr>"
    and eff: "snd (RIB_Announce orig vni p nhs ext r) =
      fanoutChange r1 (vni, p) (advertised r ?e) (advertised r1 ?e1) (only orig) ext"
    by (simp_all add: r1_def RIB_Announce_def Let_def)
  have "learned s (fanoutChange r1 (vni, p) (advertised r ?e) (advertised r1 ?e1) (only orig) ext) v k = shown r1 k"
  proof (rule change_view)
    show "subs_inv r1" "subscribed (fst k) s r1" "v k = shown r k"
      using assms by (simp_all add: r1 subs_inv_def subscribed_def)
    show "shown r1 k = shown r k" if "k \<noteq> (vni, p)"
      using that by (simp add: shown_alt r1 mget0_def advertised_eq)
    show "\<not> only orig (ID s)" if "k = (vni, p)"
      using assms(4) that by (auto simp: only_def)
  qed (simp_all add: Advertised_def r1)
  then show ?thesis by (simp add: eff r1_def)
qed

section \<open>Fences\<close>

text \<open>A refilter visits every stored route once; the visit of a key is the only one that can change it.\<close>

lemma visits_other:
  assumes "subs_inv r1" and "\<And>x. x \<in> set es \<Longrightarrow> fst x \<noteq> k"
  shows "learned s (concat (map (\<lambda>(k, e). fanoutChange r1 k (b k) (a e) (sk e) (ext e)) es)) v k = v k"
  using assms(2)
proof (induction es arbitrary: v)
  case (Cons y es)
  from Cons.prems [of y] have "k \<noteq> fst y" by (simp add: eq_commute)
  with Cons show ?case by (simp add: fanoutChange_other [OF assms(1)] split_def)
qed simp

lemma refilter_view:
  assumes "subs_inv r" and "subscribed (fst k) s r" and "v k = shown r k"
    and "mwf (rb_routes r)" and "holds r (ID s) k = None"
  shows "learned s (snd (refilter (\<lambda>r. r\<lparr>rb_fenced := fs\<rparr>) r)) v k = shown (r\<lparr>rb_fenced := fs\<rparr>) k"
proof -
  let ?r1 = "r\<lparr>rb_fenced := fs\<rparr>"
  let ?b = "\<lambda>k. mget0 [] (map (\<lambda>(k, e). (k, advertised r e)) (rb_routes r)) k"
  let ?visit = "\<lambda>(k, e). fanoutChange ?r1 k (?b k) (advertised ?r1 e) (originsOf e) (re_external e)"
  have subs: "subs_inv ?r1" "subscribed (fst k) s ?r1"
    using assms(1,2) by (simp_all add: subs_inv_def subscribed_def)
  have eff: "snd (refilter (\<lambda>r. r\<lparr>rb_fenced := fs\<rparr>) r) = concat (map ?visit (rb_routes r))"
    by (simp add: refilter_def Let_def)
  show ?thesis
  proof (cases "mget (rb_routes r) k")
    case None
    then have "fst x \<noteq> k" if "x \<in> set (rb_routes r)" for x
      using that by (metis mget_iff [OF assms(4)] option.discI prod.collapse)
    then have "learned s (concat (map ?visit (rb_routes r))) v k = v k"
      by (intro visits_other [OF subs(1)]) auto
    with None assms(3) eff show ?thesis by (simp add: shown_alt mget0_def)
  next
    case (Some e)
    then obtain ys zs where split: "rb_routes r = ys @ (k, e) # zs"
      by (meson mget_in split_list)
    have neq: "fst x \<noteq> k" if "x \<in> set ys \<union> set zs" for x
      using that assms(4) by (auto simp: mwf_def split)
    have b: "?b k = advertised r e"
      using Some by (simp add: mget0_def mget_def map_of_map)
    have skip: "\<not> originsOf e (ID s)"
      using assms(5) Some by (simp add: holds_def originsOf_def mget0_def)
    have "learned s (concat (map ?visit (rb_routes r))) v k =
        learned s (fanoutChange ?r1 k (?b k) (advertised ?r1 e) (originsOf e) (re_external e))
          (learned s (concat (map ?visit ys)) v) k"
      using neq unfolding split by (simp add: visits_other [OF subs(1)])
    also have "\<dots> = shown ?r1 k"
    proof (rule change_view [where r = r])
      show "learned s (concat (map ?visit ys)) v k = shown r k"
        using neq assms(3) by (simp add: visits_other [OF subs(1)])
      show "Advertised (fst k) (snd k) r = ?b k" using Some unfolding b by (simp add: Advertised_def mget0_def)
    qed (use subs skip Some in \<open>simp_all add: Advertised_def mget0_def\<close>)
    finally show ?thesis by (simp add: eff)
  qed
qed

section \<open>Messages about something else\<close>

definition about :: "(ServerMsg \<Rightarrow> bool) \<Rightarrow> effect list \<Rightarrow> bool" where
  "about P es = list_all (\<lambda>e. case e of Send _ m \<Rightarrow> P m | SendSnapshot _ ms \<Rightarrow> list_all P ms) es"

fun route_msg :: "ServerMsg \<Rightarrow> bool" where
  "route_msg (RouteUpdate _ _ _ _) = True"
| "route_msg (EndOfRIB _ _) = True"
| "route_msg _ = False"

fun nat_msg :: "ServerMsg \<Rightarrow> bool" where
  "nat_msg (NatUpdate _ _) = True"
| "nat_msg _ = False"

lemma about_append [simp]: "about P (es @ fs) \<longleftrightarrow> about P es \<and> about P fs"
  and about_Nil [simp]: "about P []"
  by (simp_all add: about_def)

lemma about_msgs: "about P es \<Longrightarrow> m \<in> set (msgs_for s es) \<Longrightarrow> P m"
proof (induction es)
  case (Cons e es)
  then show ?case by (cases e) (auto simp: about_def list_all_iff split: if_splits)
qed simp

lemma about_mono: "about P es \<Longrightarrow> (\<And>m. P m \<Longrightarrow> Q m) \<Longrightarrow> about Q es"
  by (auto simp: about_def list_all_iff split: effect.splits)

lemma about_loop:
  assumes "\<And>x r. about P (snd (g x r))"
  shows "about P (snd (for_each g xs r))"
proof (induction xs arbitrary: r)
  case (Cons x xs)
  then show ?case using assms [of x r] by (simp add: for_each_effects del: for_each.simps)
qed simp

lemma fold_unmoved: "(\<And>m. m \<in> set ms \<Longrightarrow> f m = id) \<Longrightarrow> fold f ms v = v"
  by (induction ms) auto

lemma learn_other: "\<not> route_msg m \<Longrightarrow> learn m = id"
  by (cases m) auto

lemma learn_nat_other: "\<not> nat_msg m \<Longrightarrow> learn_nat m = id"
  by (cases m) auto

lemma learned_quiet: "about (\<lambda>m. \<not> route_msg m) es \<Longrightarrow> learned s es v = v"
  unfolding learned_def by (rule fold_unmoved) (auto dest: about_msgs intro: learn_other)

lemma learned_nat_quiet: "about (\<lambda>m. \<not> nat_msg m) es \<Longrightarrow> learned_nat s es v = v"
  unfolding learned_nat_def by (rule fold_unmoved) (auto dest: about_msgs intro: learn_nat_other)

lemma about_fanoutChange: "about route_msg (fanoutChange r k b a skip ext)"
  by (auto simp: fanoutChange_def fanout_def routeUpdate_def about_def list_all_iff)

lemma about_withdraw_origin: "about route_msg (snd (withdrawRouteOrigin orig k r))"
  by (auto simp: withdrawRouteOrigin_def Let_def about_fanoutChange split: option.split)

lemma about_concat: "(\<And>es. es \<in> set ess \<Longrightarrow> about P es) \<Longrightarrow> about P (concat ess)"
  by (induction ess) auto

lemma about_refilter: "about route_msg (snd (refilter f r))"
  by (auto simp: refilter_def Let_def intro!: about_concat about_fanoutChange)

lemma about_drop_routes: "about route_msg (snd (drop_routes orig r))"
  unfolding drop_routes_def by (rule about_loop) (rule about_withdraw_origin)

lemma about_global:
  "about nat_msg (snd (natFanout b op r))"
  "about (\<lambda>m. \<not> route_msg m \<and> \<not> nat_msg m) (snd (publicFanout rec op r))"
  by (auto simp: natFanout_def natUpdate_def publicFanout_def publicUpdate_def about_def list_all_iff)

lemma about_drop_nat: "about nat_msg (snd (dropOriginNat orig r))"
  unfolding dropOriginNat_def Let_def
  by (rule about_loop) (simp add: drop_nat_key_def about_global(1) split: option.split)

lemma about_drop_public: "about (\<lambda>m. \<not> route_msg m \<and> \<not> nat_msg m) (snd (dropOriginPublic orig r))"
  unfolding dropOriginPublic_def Let_def
  by (rule about_loop) (simp add: drop_public_key_def about_global(2) split: option.split)

lemma not_route: "nat_msg m \<Longrightarrow> \<not> route_msg m"
  by (cases m) auto

section \<open>The subscriber's view\<close>

text \<open>
  An operation leaves a session's subscription to a key alone when it neither replaces nor ends the
  subscription and is not the session's own announcement of the key.
\<close>

fun undisturbed :: "Sink \<Rightarrow> routeKey \<Rightarrow> rib_op \<Rightarrow> bool" where
  "undisturbed s k (OpSubscribe vni s') = (vni = fst k \<and> ID s' = ID s \<longrightarrow> s' = s)"
| "undisturbed s k (OpUnsubscribe vni i) = (\<not> (vni = fst k \<and> i = ID s))"
| "undisturbed s k (OpAnnounce orig vni p nhs ext) = (\<not> (orig = ID s \<and> (vni, p) = k))"
| "undisturbed s k (OpClaim i) = (i \<noteq> ID s)"
| "undisturbed s k (OpRelease i token) = (i \<noteq> ID s)"
| "undisturbed s k _ = True"

definition listening :: "Sink \<Rightarrow> routeKey \<Rightarrow> RIB \<Rightarrow> bool" where
  "listening s k r \<longleftrightarrow> rib_inv r \<and> subscribed (fst k) s r \<and> holds r (ID s) k = None"

lemma listening_step:
  assumes "listening s k r" and "undisturbed s k op"
  shows "listening s k (fst (rib_step op r))"
proof -
  have inv: "rib_inv r" using assms(1) by (simp add: listening_def)
  have alt: "subscribed (fst k) s r \<longleftrightarrow> sp_subs (rib_abs r) (fst k) (ID s) = Some s"
    "holds r (ID s) k = sp_holds (rib_abs r) (ID s) k" for r
    by (simp_all add: subscribed_def rib_abs_def)
  show ?thesis
    using assms rib_inv_step [OF inv, of op] unfolding listening_def alt abs_step [OF inv]
    by (cases op) (auto simp: spec_drop_def unhold_def Let_def split: option.split)
qed

lemma subscribed_drop: "i \<noteq> ID s \<Longrightarrow> subscribed vni s (fst (dropOriginLocked i r)) = subscribed vni s r"
  by (simp add: subscribed_def dropOriginLocked_fields(4) mget_drop_subs)

lemma drop_view:
  assumes "listening s k r" and "v k = shown r k"
  shows "learned s (snd (dropOriginLocked i r)) v k = shown (fst (dropOriginLocked i r)) k"
proof -
  let ?r1 = "fst (drop_routes i r)"
  have "shown (fst (dropOriginLocked i r)) k = shown ?r1 k"
    using dropOriginLocked_fields(1,3) [of i r]
    by (simp add: shown_alt advertised_eq drop_routes_def drop_routes_frame)
  moreover have "learned s (snd (drop_routes i r)) v k = shown ?r1 k"
    unfolding drop_routes_def
    by (rule withdraw_loop_view)
      (use assms in \<open>auto simp: listening_def rib_inv_def subs_inv_def subscribed_def shown_alt advertised_eq\<close>)
  ultimately show ?thesis
    by (simp add: dropOriginLocked_effects Let_def learned_quiet about_mono [OF about_drop_nat not_route]
        about_mono [OF about_drop_public])
qed

lemma shown_cong:
  "rb_routes r' = rb_routes r \<Longrightarrow> rb_fenced r' = rb_fenced r \<Longrightarrow> shown r' k = shown r k"
  by (simp add: shown_alt advertised_eq)

lemma learn_adds:
  "fold learn (map (\<lambda>k. RouteUpdate k (f k) ROUTE_OP_ADD (ext k)) ks) v k = (if k \<in> set ks then Some (f k) else v k)"
  by (induction ks arbitrary: v) auto

lemma set_vni_keys: "set (vni_keys vni r) = {k. fst k = vni \<and> mget (rb_routes r) k \<noteq> None}"
  by (auto simp: vni_keys_def mkeys_iff)

lemma snapshot_learned:
  "fold learn (snapshot_routes vni r) v k = (if fst k = vni \<and> shown r k \<noteq> None then shown r k else v k)"
proof -
  have "shown r k = None" if "mget (rb_routes r) k = None"
    using that by (simp add: shown_alt mget0_def)
  then show ?thesis
    by (auto simp: snapshot_routes_def routeUpdate_def Let_def learn_adds set_vni_keys shown_alt)
qed

lemma subscribe_other_view:
  assumes "subscribed (fst k) s r" and "v k = shown r k"
  shows "learned s (snd (RIB_Subscribe vni s' r)) v k = shown (fst (RIB_Subscribe vni s' r)) k"
proof -
  have same: "shown (fst (RIB_Subscribe vni s' r)) k = shown r k"
    by (rule shown_cong) (simp_all add: RIB_Subscribe_def Let_def)
  have "learned s (snd (RIB_Subscribe vni s' r)) v k = v k"
    using assms(1)
    by (auto simp: RIB_Subscribe_def Let_def learned_def subscribed_def snapshot_learned)
  with assms(2) same show ?thesis by simp
qed

lemma quiet_view:
  assumes "v k = shown r k" and "about (\<lambda>m. \<not> route_msg m) es"
    and "rb_routes r' = rb_routes r" and "rb_fenced r' = rb_fenced r"
  shows "learned s es v k = shown r' k"
  using assms(1,2) by (simp add: learned_quiet shown_cong [OF assms(3,4)])

lemma fence_view:
  assumes "listening s k r" and "v k = shown r k"
  shows "learned s (snd (SetFence p r)) v k = shown (fst (SetFence p r)) k"
    and "learned s (snd (ClearFence p r)) v k = shown (fst (ClearFence p r)) k"
proof -
  have "learned s (snd (refilter (\<lambda>r. r\<lparr>rb_fenced := f (rb_fenced r)\<rparr>) r)) v k =
      shown (r\<lparr>rb_fenced := f (rb_fenced r)\<rparr>) k" for f
    using assms refilter_view [of r k s v "f (rb_fenced r)"] rib_invD [of r] routes_invD(1) [of r]
    by (simp add: listening_def refilter_def)
  note step = this
  have state: "fst (refilter (\<lambda>r. r\<lparr>rb_fenced := f (rb_fenced r)\<rparr>) r) = r\<lparr>rb_fenced := f (rb_fenced r)\<rparr>" for f
    by (simp add: refilter_def Let_def)
  show "learned s (snd (SetFence p r)) v k = shown (fst (SetFence p r)) k"
    using assms(2) step state by (auto simp: SetFence_def split: option.split)
  show "learned s (snd (ClearFence p r)) v k = shown (fst (ClearFence p r)) k"
    using assms(2) step state by (auto simp: ClearFence_def split: option.split)
qed

lemma RegisterSink_replay:
  assumes "rib_inv r"
  obtains snap where "snd (RegisterSink s r) = [SendSnapshot s snap]" and "is_replay r snap"
proof
  let ?r1 = "r\<lparr>rb_sinks := mput (ID s) s (rb_sinks r)\<rparr>"
  show "snd (RegisterSink s r) = [SendSnapshot s (fst (globalSnapshotLocked ?r1))]"
    by (simp add: RegisterSink_def Let_def split_def)
  have "snap_inv ?r1 = snap_inv r" by (rule snap_inv_cong) simp_all
  then have "is_replay ?r1 (fst (globalSnapshotLocked ?r1))"
    using globalSnapshotLocked_replay [of ?r1] rib_invD(5) [OF assms] by simp
  then show "is_replay r (fst (globalSnapshotLocked ?r1))"
    by (simp add: is_replay_def global_records_def)
qed

lemma replay_msgs:
  assumes "is_replay r snap" and "m \<in> set snap"
  shows "m \<in> set (global_records r) \<or> (\<exists>n. m = EndOfGlobal n)"
proof -
  from assms(1) obtain recs where recs: "snap = recs @ [EndOfGlobal (of_nat (length recs))]"
      "mset recs = mset (global_records r)"
    by (auto simp: is_replay_def)
  from recs(2) have "set recs = set (global_records r)" by (rule mset_eq_setD)
  with assms(2) recs(1) show ?thesis by auto
qed

lemma about_RegisterSink:
  assumes "rib_inv r"
  shows "about (\<lambda>m. \<not> route_msg m) (snd (RegisterSink s r))"
proof -
  obtain snap where snap: "snd (RegisterSink s r) = [SendSnapshot s snap]" "is_replay r snap"
    by (rule RegisterSink_replay [OF assms])
  have "\<not> route_msg m" if "m \<in> set snap" for m
    using replay_msgs [OF snap(2) that]
    by (auto simp: global_records_def natUpdate_def publicUpdate_def)
  then show ?thesis by (simp add: snap about_def list_all_iff)
qed

lemma about_Claim_Release:
  "snd (snd (ClaimOrigin i r)) = (if mget (rb_origins r) i = None then [] else
     snd (dropOriginLocked i (r\<lparr>rb_nextToken := rb_nextToken r + 1,
       rb_origins := mput i (rb_nextToken r + 1) (rb_origins r), rb_sinks := mdel i (rb_sinks r)\<rparr>)))"
  "fst (snd (ClaimOrigin i r)) = (if mget (rb_origins r) i = None
     then r\<lparr>rb_nextToken := rb_nextToken r + 1, rb_origins := mput i (rb_nextToken r + 1) (rb_origins r)\<rparr>
     else fst (dropOriginLocked i (r\<lparr>rb_nextToken := rb_nextToken r + 1,
       rb_origins := mput i (rb_nextToken r + 1) (rb_origins r), rb_sinks := mdel i (rb_sinks r)\<rparr>)))"
  by (simp_all add: ClaimOrigin_def Let_def)

lemma listening_claim:
  assumes "listening s k r"
  shows "listening s k (r\<lparr>rb_nextToken := n, rb_origins := os, rb_sinks := mdel i (rb_sinks r)\<rparr>)"
    and "listening s k (r\<lparr>rb_origins := os, rb_sinks := mdel i (rb_sinks r)\<rparr>)"
  using assms rib_inv_claim [of r] by (simp_all add: listening_def subscribed_def)

lemma view_step:
  assumes "listening s k r" and "undisturbed s k op" and "v k = shown r k"
  shows "learned s (snd (rib_step op r)) v k = shown (fst (rib_step op r)) k"
proof (cases op)
  case (OpAnnounce orig vni p nhs ext)
  with assms show ?thesis by (auto intro!: announce_view simp: listening_def rib_inv_def)
next
  case (OpWithdraw orig vni p)
  have "learned s (snd (withdrawRouteOrigin orig (vni, p) (r\<lparr>rb_byOrigin := x\<rparr>))) v k =
      shown (fst (withdrawRouteOrigin orig (vni, p) (r\<lparr>rb_byOrigin := x\<rparr>))) k" for x
    by (rule withdraw_origin_view)
      (use assms in \<open>auto simp: listening_def rib_inv_def subs_inv_def subscribed_def shown_alt advertised_eq\<close>)
  with OpWithdraw show ?thesis by (simp add: RIB_Withdraw_def Let_def)
next
  case (OpSubscribe vni s')
  with assms show ?thesis by (auto intro!: subscribe_other_view simp: listening_def)
next
  case (OpRegisterSink s')
  have "learned s (snd (RegisterSink s' r)) v k = shown (fst (RegisterSink s' r)) k"
  proof (rule quiet_view [where v = v and r = r])
    show "v k = shown r k" by (rule assms(3))
    show "about (\<lambda>m. \<not> route_msg m) (snd (RegisterSink s' r))"
      using assms(1) by (intro about_RegisterSink) (simp add: listening_def)
  qed (auto simp: RegisterSink_def globalSnapshotLocked_def Let_def split: option.split)
  with OpRegisterSink show ?thesis by simp
next
  case (OpAnnounceNat orig b)
  with assms(3) show ?thesis
    by (auto intro!: quiet_view about_mono [OF about_global(1) not_route] simp: RIB_AnnounceNat_def Let_def)
      (simp_all add: natFanout_def)
next
  case (OpWithdrawNat orig ip lo hi permit)
  with assms(3) show ?thesis
    by (cases rule: nat_withdraw_cases [of orig ip lo hi permit r])
      (auto intro!: quiet_view about_mono [OF about_global(1) not_route], simp_all add: natFanout_def)
next
  case (OpAnnouncePublic orig rec)
  with assms(3) show ?thesis
    by (auto intro!: quiet_view about_mono [OF about_global(2)] simp: RIB_AnnouncePublic_def Let_def)
      (simp_all add: publicFanout_def)
next
  case (OpWithdrawPublic orig rec permit)
  with assms(3) show ?thesis
    by (cases rule: public_withdraw_cases [of orig rec permit r])
      (auto intro!: quiet_view about_mono [OF about_global(2)], simp_all add: publicFanout_def)
next
  case (OpClaim i)
  with assms(3) show ?thesis
    using drop_view [OF listening_claim(1) [OF assms(1)]]
    by (auto simp: about_Claim_Release shown_alt advertised_eq)
next
  case (OpRelease i token)
  with assms(3) show ?thesis
    using drop_view [OF listening_claim(2) [OF assms(1)]]
    by (auto simp: ReleaseOrigin_def shown_alt advertised_eq split: option.split)
qed (use assms fence_view in \<open>auto simp: RIB_Unsubscribe_def shown_alt advertised_eq\<close>)

lemma view_run:
  assumes "listening s k r" and "list_all (undisturbed s k) ops" and "v k = shown r k"
  shows "learned s (snd (rib_run ops r)) v k = shown (fst (rib_run ops r)) k"
  using assms
proof (induction ops arbitrary: r v)
  case (Cons op ops)
  then show ?case
    using Cons.IH [of "fst (rib_step op r)" "learned s (snd (rib_step op r)) v"]
    by (simp add: rib_run_Cons listening_step view_step)
qed simp

lemma subscribe_view:
  assumes "\<not> subscribed (fst k) s r" and "v k = None"
  shows "learned s (snd (RIB_Subscribe (fst k) s r)) v k = shown (fst (RIB_Subscribe (fst k) s r)) k"
proof -
  have "shown (fst (RIB_Subscribe (fst k) s r)) k = shown r k"
    by (rule shown_cong) (simp_all add: RIB_Subscribe_def Let_def)
  moreover have "shown (r\<lparr>rb_subscribers := x\<rparr>) k = shown r k" for x
    by (rule shown_cong) simp_all
  ultimately show ?thesis
    using assms by (simp add: RIB_Subscribe_def Let_def learned_def subscribed_def snapshot_learned)
qed

lemma subscribe_listening:
  assumes "rib_inv r" and "holds r (ID s) k = None"
  shows "listening s k (fst (RIB_Subscribe (fst k) s r))"
  using rib_inv_step [OF assms(1), of "OpSubscribe (fst k) s"] assms(2)
  by (simp add: listening_def subscribed_def) (simp add: RIB_Subscribe_def Let_def)

section \<open>The global NAT view\<close>

fun nat_undisturbed :: "Sink \<Rightarrow> rib_op \<Rightarrow> bool" where
  "nat_undisturbed s (OpRegisterSink s') = (ID s' \<noteq> ID s)"
| "nat_undisturbed s (OpClaim i) = (i \<noteq> ID s)"
| "nat_undisturbed s (OpRelease i token) = (i \<noteq> ID s)"
| "nat_undisturbed s _ = True"

definition feeding :: "Sink \<Rightarrow> RIB \<Rightarrow> bool" where
  "feeding s r \<longleftrightarrow> rib_inv r \<and> registered s r"

lemma feeding_step:
  assumes "feeding s r" and "nat_undisturbed s op"
  shows "feeding s (fst (rib_step op r))"
proof -
  have inv: "rib_inv r" using assms(1) by (simp add: feeding_def)
  have alt: "registered s r \<longleftrightarrow> sp_sinks (rib_abs r) (ID s) = Some s" for r
    by (simp add: registered_def rib_abs_def)
  show ?thesis
    using assms rib_inv_step [OF inv, of op] unfolding feeding_def alt abs_step [OF inv]
    by (cases op) (auto simp: spec_drop_def unhold_def Let_def split: option.split)
qed

lemma natFanout_learned:
  assumes "subs_inv r" and "registered s r"
  shows "learned_nat s (snd (natFanout b op r)) v = learn_nat (NatUpdate b op) v"
proof -
  have "msgs_for s (map (\<lambda>(_, t). Send t (NatUpdate b op)) (filter (\<lambda>(i, _). \<not> False) (rb_sinks r))) =
      (if mget (rb_sinks r) (ID s) = Some s \<and> \<not> False then [NatUpdate b op] else [])"
    by (rule msgs_for_broadcast) (use assms(1) in \<open>auto simp: subs_inv_def\<close>)
  with assms(2) show ?thesis
    by (simp add: natFanout_def natUpdate_def learned_nat_def registered_def)
qed

lemma sinks_cong:
  assumes "subs_inv r" and "registered s r"
    and "rb_subscribers r' = rb_subscribers r" and "rb_sinks r' = rb_sinks r"
  shows "subs_inv r'" "registered s r'"
  using assms(1,2) subs_inv_cong [OF assms(3,4)] assms(4) by (simp_all add: registered_def)

lemma drop_nat_key_view:
  assumes "subs_inv r" and "registered s r" and "\<And>k b. mget (rb_nat r) k = Some b \<Longrightarrow> nat_key b = k"
  shows "learned_nat s (snd (drop_nat_key orig k r)) (mget (rb_nat r)) = mget (rb_nat (fst (drop_nat_key orig k r)))"
proof -
  have "subs_inv (r\<lparr>rb_nat := x, rb_natOrigin := y\<rparr>)" "registered s (r\<lparr>rb_nat := x, rb_natOrigin := y\<rparr>)" for x y
    by (rule sinks_cong [OF assms(1,2)]; simp)+
  note fan = natFanout_learned [OF this]
  show ?thesis
    using assms(3) by (auto simp: drop_nat_key_def fan fun_eq_iff split: option.split) (auto simp: natFanout_def)
qed

lemma dropOriginNat_view:
  assumes "subs_inv r" and "registered s r" and "\<And>k b. mget (rb_nat r) k = Some b \<Longrightarrow> nat_key b = k"
  shows "learned_nat s (snd (dropOriginNat orig r)) (mget (rb_nat r)) = mget (rb_nat (fst (dropOriginNat orig r)))"
proof -
  have loop: "learned_nat s (snd (for_each (drop_nat_key orig) ks r)) (mget (rb_nat r)) =
      mget (rb_nat (fst (for_each (drop_nat_key orig) ks r)))"
    if "subs_inv r" "registered s r" "\<And>k b. mget (rb_nat r) k = Some b \<Longrightarrow> nat_key b = k" for ks r
    using that
  proof (induction ks arbitrary: r)
    case (Cons k ks)
    let ?r1 = "fst (drop_nat_key orig k r)"
    have 1: "subs_inv ?r1" "registered s ?r1"
      by (rule sinks_cong [OF Cons.prems(1,2)]; simp add: drop_nat_frame)+
    have 2: "nat_key b = k'" if "mget (rb_nat ?r1) k' = Some b" for k' b
      using that Cons.prems(3) [of k' b]
      by (auto simp: drop_nat_key_def natFanout_def split: option.splits if_splits)
    show ?case
      using Cons.IH [OF 1 2] drop_nat_key_view [OF Cons.prems, of orig k]
      by (simp add: for_each_state for_each_effects del: for_each.simps)
  qed simp
  have "subs_inv (r\<lparr>rb_natByOrigin := x\<rparr>)" "registered s (r\<lparr>rb_natByOrigin := x\<rparr>)" for x
    by (rule sinks_cong [OF assms(1,2)]; simp)+
  from loop [OF this] assms(3) show ?thesis by (simp add: dropOriginNat_def Let_def)
qed

lemma nat_inv_keys: "rib_inv r \<Longrightarrow> mget (rb_nat r) k = Some b \<Longrightarrow> nat_key b = k"
  using rib_invD(3) [of r] owned_invD(6) unfolding nat_inv_def by fast

lemma drop_nat_view:
  assumes "feeding s r"
  shows "learned_nat s (snd (dropOriginLocked i r)) (mget (rb_nat r)) = mget (rb_nat (fst (dropOriginLocked i r)))"
proof -
  let ?r1 = "fst (drop_routes i r)"
  let ?r2 = "?r1\<lparr>rb_subscribers := drop_subs i (rb_subscribers ?r1)\<rparr>"
  have inv: "rib_inv r" using assms by (simp add: feeding_def)
  have sinks: "rb_sinks ?r2 = rb_sinks r"
    by (simp add: drop_routes_def drop_routes_frame)
  have "subs_inv ?r2" "registered s ?r2"
    using assms rib_invD(2) [OF inv] sinks unfolding subs_inv_alt feeding_def registered_def
    by (simp_all add: sub_maps_inv_drops drop_routes_def drop_routes_frame)
  moreover have nat: "rb_nat ?r2 = rb_nat r" by (rule dropOriginLocked_fields(14))
  ultimately have "learned_nat s (snd (dropOriginNat i ?r2)) (mget (rb_nat r)) = mget (rb_nat (fst (dropOriginNat i ?r2)))"
    using dropOriginNat_view [of ?r2 s i] nat_inv_keys [OF inv] by simp
  moreover have "about (\<lambda>m. \<not> nat_msg m) (snd (drop_routes i r))"
    using about_drop_routes by (rule about_mono) (use not_route in blast)
  moreover have "about (\<lambda>m. \<not> nat_msg m) (snd (dropOriginPublic i x))" for x
    using about_drop_public by (rule about_mono) blast
  ultimately show ?thesis
    by (simp add: dropOriginLocked_effects dropOriginLocked_fields(8) Let_def learned_nat_quiet)
qed

lemma nat_quiet_view:
  assumes "about (\<lambda>m. \<not> nat_msg m) es" and "rb_nat r' = rb_nat r"
  shows "learned_nat s es (mget (rb_nat r)) = mget (rb_nat r')"
  using assms by (simp add: learned_nat_quiet)

lemma about_route_nat: "about route_msg es \<Longrightarrow> about (\<lambda>m. \<not> nat_msg m) es"
  by (erule about_mono) (use not_route in blast)

lemma announce_nat_view:
  assumes "feeding s r"
  shows "learned_nat s (snd (RIB_AnnounceNat orig b r)) (mget (rb_nat r)) = mget (rb_nat (fst (RIB_AnnounceNat orig b r)))"
proof -
  have inv: "subs_inv r" and reg: "registered s r" using assms by (simp_all add: feeding_def rib_inv_def)
  have "subs_inv (r\<lparr>rb_nat := x, rb_natOrigin := y, rb_natByOrigin := z\<rparr>)"
    "registered s (r\<lparr>rb_nat := x, rb_natOrigin := y, rb_natByOrigin := z\<rparr>)" for x y z
    by (rule sinks_cong [OF inv reg]; simp)+
  note fan = natFanout_learned [OF this]
  show ?thesis
    by (simp add: nat_announce_state fun_eq_iff) (simp add: RIB_AnnounceNat_def Let_def fan)
qed

lemma withdraw_nat_view:
  assumes "feeding s r"
  shows "learned_nat s (snd (snd (RIB_WithdrawNat orig ip lo hi permit r))) (mget (rb_nat r)) =
     mget (rb_nat (fst (snd (RIB_WithdrawNat orig ip lo hi permit r))))"
proof (cases rule: nat_withdraw_cases [of orig ip lo hi permit r])
  case (applied b)
  have inv: "subs_inv r" and reg: "registered s r" using assms by (simp_all add: feeding_def rib_inv_def)
  have "subs_inv (r\<lparr>rb_nat := x, rb_natOrigin := y, rb_natByOrigin := z\<rparr>)"
    "registered s (r\<lparr>rb_nat := x, rb_natOrigin := y, rb_natByOrigin := z\<rparr>)" for x y z
    by (rule sinks_cong [OF inv reg]; simp)+
  note fan = natFanout_learned [OF this]
  have "nat_key b = (ip, lo)"
    using nat_inv_keys applied(2) assms by (auto simp: feeding_def)
  then show ?thesis
    unfolding applied(1) by (simp add: fan fun_eq_iff) (simp add: natFanout_def)
qed simp_all

lemma feeding_claim:
  assumes "feeding s r" and "i \<noteq> ID s"
  shows "feeding s (r\<lparr>rb_nextToken := n, rb_origins := os, rb_sinks := mdel i (rb_sinks r)\<rparr>)"
    and "feeding s (r\<lparr>rb_origins := os, rb_sinks := mdel i (rb_sinks r)\<rparr>)"
  using assms rib_inv_claim [of r] by (simp_all add: feeding_def registered_def)

lemma nat_view_step:
  assumes "feeding s r" and "nat_undisturbed s op"
  shows "learned_nat s (snd (rib_step op r)) (mget (rb_nat r)) = mget (rb_nat (fst (rib_step op r)))"
proof (cases op)
  case (OpSubscribe vni s')
  have "learned_nat s (snd (RIB_Subscribe vni s' r)) (mget (rb_nat r)) = mget (rb_nat (fst (RIB_Subscribe vni s' r)))"
  proof (rule nat_quiet_view)
    show "about (\<lambda>m. \<not> nat_msg m) (snd (RIB_Subscribe vni s' r))"
      by (auto simp: RIB_Subscribe_def Let_def about_def list_all_iff snapshot_routes_def routeUpdate_def)
  qed (simp add: RIB_Subscribe_def Let_def)
  with OpSubscribe show ?thesis by simp
next
  case (OpAnnounce orig vni p nhs ext)
  then show ?thesis
    by (auto intro!: nat_quiet_view about_route_nat about_fanoutChange simp: RIB_Announce_def Let_def)
next
  case (OpWithdraw orig vni p)
  then show ?thesis
    by (auto intro!: nat_quiet_view about_route_nat about_withdraw_origin
        simp: RIB_Withdraw_def Let_def withdraw_origin_frame)
next
  case (OpSetFence p)
  then show ?thesis
    by (auto intro!: nat_quiet_view about_route_nat about_refilter simp: SetFence_def split: option.split)
      (simp_all add: refilter_def Let_def)
next
  case (OpClearFence p)
  then show ?thesis
    by (auto intro!: nat_quiet_view about_route_nat about_refilter simp: ClearFence_def split: option.split)
      (simp_all add: refilter_def Let_def)
next
  case (OpRegisterSink s')
  have "rib_inv r" using assms(1) by (simp add: feeding_def)
  then obtain snap where "snd (RegisterSink s' r) = [SendSnapshot s' snap]"
    by (rule RegisterSink_replay)
  moreover have "s' \<noteq> s" using assms(2) OpRegisterSink by auto
  ultimately have "learned_nat s (snd (RegisterSink s' r)) v = v" for v by (simp add: learned_nat_def)
  with OpRegisterSink show ?thesis
    by (simp add: RegisterSink_def globalSnapshotLocked_def Let_def split: option.split)
next
  case (OpAnnouncePublic orig rec)
  have "learned_nat s (snd (RIB_AnnouncePublic orig rec r)) (mget (rb_nat r)) = mget (rb_nat (fst (RIB_AnnouncePublic orig rec r)))"
    by (rule nat_quiet_view)
      (simp_all add: RIB_AnnouncePublic_def Let_def about_mono [OF about_global(2)], simp add: publicFanout_def)
  with OpAnnouncePublic show ?thesis by simp
next
  case (OpWithdrawPublic orig rec permit)
  have "learned_nat s (snd (snd (RIB_WithdrawPublic orig rec permit r))) (mget (rb_nat r)) =
      mget (rb_nat (fst (snd (RIB_WithdrawPublic orig rec permit r))))"
    by (cases rule: public_withdraw_cases [of orig rec permit r])
      (auto intro!: nat_quiet_view about_mono [OF about_global(2)], simp_all add: publicFanout_def)
  with OpWithdrawPublic show ?thesis by simp
next
  case (OpClaim i)
  with assms show ?thesis
    using drop_nat_view [OF feeding_claim(1) [OF assms(1)]] by (simp add: about_Claim_Release)
next
  case (OpRelease i token)
  with assms show ?thesis
    using drop_nat_view [OF feeding_claim(2) [OF assms(1)]] by (auto simp: ReleaseOrigin_def split: option.split)
qed (use assms announce_nat_view withdraw_nat_view in \<open>auto simp: RIB_Unsubscribe_def\<close>)

lemma nat_view_run:
  assumes "feeding s r" and "list_all (nat_undisturbed s) ops"
  shows "learned_nat s (snd (rib_run ops r)) (mget (rb_nat r)) = mget (rb_nat (fst (rib_run ops r)))"
  using assms
proof (induction ops arbitrary: r)
  case (Cons op ops)
  then show ?case
    using Cons.IH [of "fst (rib_step op r)"] by (simp add: rib_run_Cons feeding_step nat_view_step)
qed simp

text \<open>The replay alone teaches the whole table, in whatever order the records come.\<close>

lemma learn_nat_adds:
  assumes "\<And>m. m \<in> set ms \<Longrightarrow> \<exists>b. m = NatUpdate b ROUTE_OP_ADD \<and> mget tab (nat_key b) = Some b \<or> \<not> nat_msg m"
  shows "fold learn_nat ms v k =
     (if \<exists>b. NatUpdate b ROUTE_OP_ADD \<in> set ms \<and> nat_key b = k then mget tab k else v k)"
  using assms
proof (induction ms arbitrary: v)
  case (Cons m ms)
  from Cons.prems [of m] consider (add) b where "m = NatUpdate b ROUTE_OP_ADD" "mget tab (nat_key b) = Some b"
    | (other) "\<not> nat_msg m" by auto
  then show ?case
  proof cases
    case add
    then show ?thesis using Cons by auto
  next
    case other
    then have "NatUpdate b op \<noteq> m" for b op by auto
    with other show ?thesis using Cons by (auto simp: learn_nat_other)
  qed
qed simp

lemma replay_teaches:
  assumes "rib_inv r" and "is_replay r snap"
  shows "fold learn_nat snap Map.empty = mget (rb_nat r)"
proof
  fix k
  note inv = rib_invD(3) [OF assms(1), unfolded nat_inv_def]
  have recs: "NatUpdate b ROUTE_OP_ADD \<in> set snap \<longleftrightarrow> mget (rb_nat r) (nat_key b) = Some b" for b
  proof -
    from assms(2) obtain recs where "snap = recs @ [EndOfGlobal (of_nat (length recs))]"
        "set recs = set (global_records r)"
      by (auto simp: is_replay_def dest: mset_eq_setD)
    then have "NatUpdate b ROUTE_OP_ADD \<in> set snap \<longleftrightarrow> (\<exists>k. (k, b) \<in> set (rb_nat r))"
      by (force simp: global_records_def natUpdate_def publicUpdate_def)
    also have "\<dots> \<longleftrightarrow> mget (rb_nat r) (nat_key b) = Some b"
      using owned_invD(1,6) [OF inv] by (auto simp: mget_iff)
    finally show ?thesis .
  qed
  have "fold learn_nat snap Map.empty k =
      (if \<exists>b. NatUpdate b ROUTE_OP_ADD \<in> set snap \<and> nat_key b = k then mget (rb_nat r) k else None)"
  proof (rule learn_nat_adds)
    fix m assume "m \<in> set snap"
    with replay_msgs [OF assms(2) this] recs
    show "\<exists>b. m = NatUpdate b ROUTE_OP_ADD \<and> mget (rb_nat r) (nat_key b) = Some b \<or> \<not> nat_msg m"
      by (cases m) (auto simp: global_records_def natUpdate_def publicUpdate_def)
  qed
  then show "fold learn_nat snap Map.empty k = mget (rb_nat r) k"
    using owned_invD(6) [OF inv, of k] by (cases "mget (rb_nat r) k") (auto simp: recs)
qed

end
