(* ===== verification/Reflector.thy ===== *)
theory Reflector
  imports Rib_View
begin

text \<open>
  The reflector's sessions around the route table: certificate checks
  (\<^verbatim>\<open>mesh/reflector/underlayauthz.go\<close>, \<^verbatim>\<open>authz.go\<close>), the session handler (\<^verbatim>\<open>server.go\<close>) and the admin
  service (\<^verbatim>\<open>admin.go\<close>). Sessions run concurrently; each takes the table's lock once per message, so
  a run of the server is an interleaving of the steps of \<open>sv_step\<close>. The gRPC context is reduced to
  what the code reads of it: the peer's authentication info and its verified certificate chains.
\<close>

section \<open>Certificates\<close>

record Certificate =
  ct_CommonName :: string
  ct_IPAddresses :: "IP list"

datatype AuthInfo = TLSInfo "Certificate list list" | OtherAuth

type_synonym peer_ctx = "AuthInfo option"

definition peerCertIPs :: "peer_ctx \<Rightarrow> IP list \<times> bool" where
  "peerCertIPs ctx = (case ctx of
     None \<Rightarrow> ([], False)
   | Some OtherAuth \<Rightarrow> ([], False)
   | Some (TLSInfo cs) \<Rightarrow>
       if length cs = 0 \<or> length (hd cs) = 0 then ([], False)
       else (ct_IPAddresses (hd (hd cs)), True))"

record underlayGuard =
  ug_allowed :: "IP list"
  ug_enforce :: bool

definition newUnderlayGuard :: "peer_ctx \<Rightarrow> underlayGuard" where
  "newUnderlayGuard ctx = (let (ips, mtls) = peerCertIPs ctx in \<lparr>ug_allowed = ips, ug_enforce = mtls\<rparr>)"

definition permits :: "underlayGuard \<Rightarrow> string \<Rightarrow> bool" where
  "permits g underlay =
     (if \<not> ug_enforce g then True
      else (case ParseIP underlay of None \<Rightarrow> False | Some ip \<Rightarrow> list_ex (\<lambda>a. a = ip) (ug_allowed g)))"

definition hostAddr :: "string \<Rightarrow> string" where
  "hostAddr p = (case ParsePrefix p of
     None \<Rightarrow> []
   | Some q \<Rightarrow> if \<not> IsSingleIP q then [] else addr_string (pfx_addr q))"

definition peerCN :: "peer_ctx \<Rightarrow> (string \<times> bool) option" where
  "peerCN ctx = (case ctx of
     None \<Rightarrow> None
   | Some OtherAuth \<Rightarrow> None
   | Some (TLSInfo cs) \<Rightarrow>
       if length cs = 0 \<or> length (hd cs) = 0 then None
       else Some (ct_CommonName (hd (hd cs)), list_ex (\<lambda>c. length c = 2) cs))"

datatype Code = Unauthenticated | PermissionDenied | InvalidArgument

definition RequireClientCN :: "string \<Rightarrow> peer_ctx \<Rightarrow> (Code + 'a) \<Rightarrow> (Code + 'a)" where
  "RequireClientCN allowedCN ctx handler =
     (if allowedCN = [] then handler
      else (case peerCN ctx of
              None \<Rightarrow> Inl Unauthenticated
            | Some (cn, rootIssued) \<Rightarrow>
                if cn \<noteq> allowedCN \<or> \<not> rootIssued then Inl PermissionDenied else handler))"

section \<open>The admin service\<close>

definition Admin_SetFence :: "string \<Rightarrow> RIB \<Rightarrow> Code + (RIB \<times> effect list)" where
  "Admin_SetFence p r = (case ParseCIDR p of None \<Rightarrow> Inl InvalidArgument | Some _ \<Rightarrow> Inr (SetFence p r))"

definition Admin_ClearFence :: "string \<Rightarrow> RIB \<Rightarrow> Code + (RIB \<times> effect list)" where
  "Admin_ClearFence p r = (case ParseCIDR p of None \<Rightarrow> Inl InvalidArgument | Some _ \<Rightarrow> Inr (ClearFence p r))"

text \<open>The key of a holding is added when it is the first one or differs from its predecessor's.\<close>

fun reply_keys :: "routeKey option \<Rightarrow> RouteHolding list \<Rightarrow> routeKey list" where
  "reply_keys prev [] = []"
| "reply_keys prev (h # hs) =
     (if prev \<noteq> Some (rh_Key h) then rh_Key h # reply_keys (Some (rh_Key h)) hs
      else reply_keys (Some (rh_Key h)) hs)"

definition Admin_AnnouncedFrom :: "string \<Rightarrow> routeKey list \<Rightarrow> RIB \<Rightarrow> Code + (RouteHolding list \<times> routeKey list)" where
  "Admin_AnnouncedFrom within keys r = (case AnnouncedFrom within keys r of
     None \<Rightarrow> Inl InvalidArgument
   | Some held \<Rightarrow> Inr (held, reply_keys None held))"

section \<open>The session handler\<close>

text \<open>What one received message does to the table; \<^const>\<open>None\<close> when it is rejected or ignored.\<close>

fun session_op :: "underlayGuard \<Rightarrow> Sink \<Rightarrow> ClientMsg \<Rightarrow> rib_op option" where
  "session_op g s (Subscribe vni) = Some (OpSubscribe vni s)"
| "session_op g s (Unsubscribe vni) = Some (OpUnsubscribe vni (ID s))"
| "session_op g s (Announce a) =
     (let nh = an_NexthopUnderlay a # an_ExtraNexthops a in
      if list_ex (\<lambda>n. \<not> permits g n) nh then None
      else Some (OpAnnounce (ID s) (an_Vni a) (an_Prefix a) nh (an_External a)))"
| "session_op g s (Withdraw vni p) = Some (OpWithdraw (ID s) vni p)"
| "session_op g s (AnnounceNat a) =
     (if \<not> permits g (nb_OwnerUnderlay a) then None else Some (OpAnnounceNat (ID s) a))"
| "session_op g s (WithdrawNat ip lo hi) = Some (OpWithdrawNat (ID s) ip lo hi (Some (permits g)))"
| "session_op g s (AnnouncePublic p) =
     (if \<not> permits g (pr_OwnerUnderlay p) then None
      else if pr_Kind p = PUBLIC_KIND_EDGE_UNDERLAY \<and> \<not> permits g (hostAddr (pr_Prefix p)) then None
      else Some (OpAnnouncePublic (ID s) (publicRecordFromPB p)))"
| "session_op g s (WithdrawPublic p) =
     Some (OpWithdrawPublic (ID s) (publicRecordFromPB p) (Some (permits g)))"
| "session_op g s ClientKeepAlive = None"
| "session_op g s (Hello i u feed) = None"

datatype phase = Claimed | Running | Released | Finished

record session =
  ss_id :: string
  ss_guard :: underlayGuard
  ss_feed :: GlobalFeed
  ss_token :: u64
  ss_phase :: phase
  ss_drain :: drain

record server =
  sv_rib :: RIB
  sv_sessions :: "(nat, session) gomap"
  sv_next :: nat

definition NewServer :: server where
  "NewServer = \<lparr>sv_rib = NewRIB, sv_sessions = [], sv_next = 0\<rparr>"

text \<open>The sink of a session: its queue, under the session's node id.\<close>

definition session_sink :: "nat \<Rightarrow> session \<Rightarrow> Sink" where
  "session_sink n s = Sink n (ss_id s)"

text \<open>Each session's queue receives what was handed to its sink, in order.\<close>

fun enqueue :: "Sink \<Rightarrow> effect list \<Rightarrow> sessionQueue \<Rightarrow> sessionQueue" where
  "enqueue s [] q = q"
| "enqueue s (Send s' m # es) q = enqueue s es (if s' = s then q_Send m q else q)"
| "enqueue s (SendSnapshot s' ms # es) q = enqueue s es (if s' = s then q_SendSnapshot ms q else q)"

definition on_queue :: "(sessionQueue \<Rightarrow> sessionQueue) \<Rightarrow> session \<Rightarrow> session" where
  "on_queue f s = s\<lparr>ss_drain := (ss_drain s)\<lparr>dr_queue := f (dr_queue (ss_drain s))\<rparr>\<rparr>"

definition deliver :: "effect list \<Rightarrow> (nat, session) gomap \<Rightarrow> (nat, session) gomap" where
  "deliver es m = map (\<lambda>(n, s). (n, on_queue (enqueue (session_sink n s) es) s)) m"

definition table_step :: "rib_op \<Rightarrow> server \<Rightarrow> server" where
  "table_step op sv = (let (r, es) = rib_step op (sv_rib sv)
     in sv\<lparr>sv_rib := r, sv_sessions := deliver es (sv_sessions sv)\<rparr>)"

definition new_session :: "peer_ctx \<Rightarrow> string \<Rightarrow> GlobalFeed \<Rightarrow> u64 \<Rightarrow> session" where
  "new_session ctx i feed token = \<lparr>ss_id = i, ss_guard = newUnderlayGuard ctx, ss_feed = feed,
     ss_token = token, ss_phase = Claimed, ss_drain = drain_init i\<rparr>"

datatype sv_event =
    Accept peer_ctx ClientMsg
  | Register nat
  | Recv nat ClientMsg
  | Release nat
  | Close nat
  | Drain nat queue_ev
  | AdminSet string
  | AdminClear string

text \<open>
  One step of the server, with the operations it performs on the table. The handler claims the node
  id, registers for the global feed or sends itself the empty marker, handles messages until the
  stream ends, and then releases the id and closes its queue; every one of these is a step of its
  own, so other sessions may come between any two of them.
\<close>

inductive sv_step :: "server \<Rightarrow> sv_event \<Rightarrow> rib_op list \<Rightarrow> server \<Rightarrow> bool" where
  accept: "i \<noteq> [] \<Longrightarrow> sv1 = table_step (OpClaim i) sv \<Longrightarrow>
    sv_step sv (Accept ctx (Hello i u feed)) [OpClaim i]
      (sv1\<lparr>sv_sessions := mput (sv_next sv) (new_session ctx i feed (fst (ClaimOrigin i (sv_rib sv)))) (sv_sessions sv1),
           sv_next := sv_next sv + 1\<rparr>)"
| reject: "\<nexists>i u feed. msg = Hello i u feed \<and> i \<noteq> [] \<Longrightarrow> sv_step sv (Accept ctx msg) [] sv"
| register_none: "mget (sv_sessions sv) n = Some s \<Longrightarrow> ss_phase s = Claimed \<Longrightarrow> ss_feed s = GLOBAL_FEED_NONE \<Longrightarrow>
    sv_step sv (Register n) []
      (sv\<lparr>sv_sessions := mput n ((on_queue (q_SendSnapshot [EndOfGlobal 0]) s)\<lparr>ss_phase := Running\<rparr>) (sv_sessions sv)\<rparr>)"
| register_all: "mget (sv_sessions sv) n = Some s \<Longrightarrow> ss_phase s = Claimed \<Longrightarrow> ss_feed s \<noteq> GLOBAL_FEED_NONE \<Longrightarrow>
    sv_step sv (Register n) [OpRegisterSink (session_sink n s)]
      (table_step (OpRegisterSink (session_sink n s))
         (sv\<lparr>sv_sessions := mput n (s\<lparr>ss_phase := Running\<rparr>) (sv_sessions sv)\<rparr>))"
| recv: "mget (sv_sessions sv) n = Some s \<Longrightarrow> ss_phase s = Running \<Longrightarrow>
    session_op (ss_guard s) (session_sink n s) msg = Some op \<Longrightarrow> sv_step sv (Recv n msg) [op] (table_step op sv)"
| recv_none: "mget (sv_sessions sv) n = Some s \<Longrightarrow> ss_phase s = Running \<Longrightarrow>
    session_op (ss_guard s) (session_sink n s) msg = None \<Longrightarrow> sv_step sv (Recv n msg) [] sv"
| release: "mget (sv_sessions sv) n = Some s \<Longrightarrow> ss_phase s = Running \<Longrightarrow>
    sv_step sv (Release n) [OpRelease (ss_id s) (ss_token s)]
      (table_step (OpRelease (ss_id s) (ss_token s))
         (sv\<lparr>sv_sessions := mput n (s\<lparr>ss_phase := Released\<rparr>) (sv_sessions sv)\<rparr>))"
| close: "mget (sv_sessions sv) n = Some s \<Longrightarrow> ss_phase s = Released \<Longrightarrow>
    sv_step sv (Close n) []
      (sv\<lparr>sv_sessions := mput n ((on_queue q_close s)\<lparr>ss_phase := Finished\<rparr>) (sv_sessions sv)\<rparr>)"
| drain: "mget (sv_sessions sv) n = Some s \<Longrightarrow> ev = EvTake \<or> ev = EvWake \<or> ev = EvFail \<Longrightarrow>
    drain_step (ss_drain s) ev d \<Longrightarrow>
    sv_step sv (Drain n ev) [] (sv\<lparr>sv_sessions := mput n (s\<lparr>ss_drain := d\<rparr>) (sv_sessions sv)\<rparr>)"
| admin_set: "ParseCIDR p \<noteq> None \<Longrightarrow> sv_step sv (AdminSet p) [OpSetFence p] (table_step (OpSetFence p) sv)"
| admin_clear: "ParseCIDR p \<noteq> None \<Longrightarrow> sv_step sv (AdminClear p) [OpClearFence p] (table_step (OpClearFence p) sv)"

inductive sv_run :: "server \<Rightarrow> sv_event list \<Rightarrow> rib_op list \<Rightarrow> server \<Rightarrow> bool" where
  sv_stop: "sv_run sv [] [] sv"
| sv_more: "sv_run sv evs ops sv1 \<Longrightarrow> sv_step sv1 ev ops1 sv2 \<Longrightarrow> sv_run sv (evs @ [ev]) (ops @ ops1) sv2"

inductive_cases sv_stepE: "sv_step sv ev ops sv'"

section \<open>Runs\<close>

lemma rib_run_append:
  "fst (rib_run (ops @ ops') r) = fst (rib_run ops' (fst (rib_run ops r)))"
  "snd (rib_run (ops @ ops') r) = snd (rib_run ops r) @ snd (rib_run ops' (fst (rib_run ops r)))"
  by (induction ops arbitrary: r) (simp_all add: rib_run_Cons)

lemma table_step_sel [simp]:
  "sv_rib (table_step op sv) = fst (rib_step op (sv_rib sv))"
  "sv_sessions (table_step op sv) = deliver (snd (rib_step op (sv_rib sv))) (sv_sessions sv)"
  "sv_next (table_step op sv) = sv_next sv"
  by (simp_all add: table_step_def split_def Let_def)

lemma mget_deliver:
  "mget (deliver es m) n = map_option (\<lambda>s. on_queue (enqueue (session_sink n s) es) s) (mget m n)"
  by (induction m) (auto simp: deliver_def mget_def)

lemma rib_run_one: "fst (rib_run [op] r) = fst (rib_step op r)" "snd (rib_run [op] r) = snd (rib_step op r)"
  by (simp_all add: rib_run_Cons)

lemma sv_step_rib: "sv_step sv ev ops sv' \<Longrightarrow> sv_rib sv' = fst (rib_run ops (sv_rib sv))"
  by (induction rule: sv_step.induct) (simp_all add: rib_run_one del: rib_step.simps)

lemma sv_run_rib: "sv_run sv evs ops sv' \<Longrightarrow> sv_rib sv' = fst (rib_run ops (sv_rib sv))"
  by (induction rule: sv_run.induct) (simp_all add: sv_step_rib rib_run_append)

text \<open>What a session's queue receives from a list of effects, as events of its drain.\<close>

fun evs_for :: "Sink \<Rightarrow> effect list \<Rightarrow> queue_ev list" where
  "evs_for s [] = []"
| "evs_for s (Send s' m # es) = (if s' = s then EvSend m # evs_for s es else evs_for s es)"
| "evs_for s (SendSnapshot s' ms # es) = (if s' = s then EvSnapshot ms # evs_for s es else evs_for s es)"

lemma evs_for_msgs: "concat (map ev_msgs (evs_for s es)) = msgs_for s es"
  by (induction s es rule: evs_for.induct) auto

lemma evs_for_no_close: "no_close (evs_for s es)"
  by (induction s es rule: evs_for.induct) (auto simp: no_close_def)

lemma drain_run_append:
  assumes "drain_run d1 evs' d2" and "drain_run d evs d1"
  shows "drain_run d (evs @ evs') d2"
  using assms by (induction rule: drain_run.induct) (auto simp: append_assoc [symmetric] intro: drain_run.step simp del: append_assoc)

lemma drain_run_single: "drain_step d ev d' \<Longrightarrow> drain_run d [ev] d'"
  using drain_run.step [OF drain_run.stop] by fastforce

lemma drain_run_Cons: "drain_step d ev d1 \<Longrightarrow> drain_run d1 evs d2 \<Longrightarrow> drain_run d (ev # evs) d2"
  using drain_run_append drain_run_single by fastforce

lemma enqueue_run: "drain_run d (evs_for s es) (d\<lparr>dr_queue := enqueue s es (dr_queue d)\<rparr>)"
proof (induction s es arbitrary: d rule: evs_for.induct)
  case (2 s s' m es)
  show ?case
    using 2(1) [of "d\<lparr>dr_queue := q_Send m (dr_queue d)\<rparr>"] 2(2) [of d] drain_step.send [of d m]
    by (auto intro: drain_run_Cons)
next
  case (3 s s' ms es)
  show ?case
    using 3(1) [of "d\<lparr>dr_queue := q_SendSnapshot ms (dr_queue d)\<rparr>"] 3(2) [of d] drain_step.snapshot [of d ms]
    by (auto intro: drain_run_Cons)
qed (simp add: drain_run.stop)

text \<open>
  A running session stays in the table of sessions under its id, guard and token, and its queue sees
  exactly the messages handed to its sink, between steps of its own drain.
\<close>

definition same_session :: "session \<Rightarrow> session \<Rightarrow> bool" where
  "same_session s s' \<longleftrightarrow> ss_id s' = ss_id s \<and> ss_guard s' = ss_guard s \<and> ss_token s' = ss_token s"

fun keeps_open :: "nat \<Rightarrow> sv_event \<Rightarrow> bool" where
  "keeps_open n (Close n') = (n' \<noteq> n)"
| "keeps_open n (Drain n' ev) = (n' = n \<longrightarrow> ev \<noteq> EvFail)"
| "keeps_open n _ = True"

lemma on_queue_sel [simp]:
  "ss_id (on_queue f s) = ss_id s" "ss_guard (on_queue f s) = ss_guard s" "ss_token (on_queue f s) = ss_token s"
  "ss_phase (on_queue f s) = ss_phase s" "ss_feed (on_queue f s) = ss_feed s"
  "ss_drain (on_queue f s) = (ss_drain s)\<lparr>dr_queue := f (dr_queue (ss_drain s))\<rparr>"
  by (simp_all add: on_queue_def)

text \<open>New sessions get a fresh reference.\<close>

definition sv_wf :: "server \<Rightarrow> bool" where
  "sv_wf sv \<longleftrightarrow> (\<forall>n s. mget (sv_sessions sv) n = Some s \<longrightarrow> n < sv_next sv)"

lemma sv_wf_step: "sv_step sv ev ops sv' \<Longrightarrow> sv_wf sv \<Longrightarrow> sv_wf sv'"
  by (induction rule: sv_step.induct)
    (fastforce simp: sv_wf_def mget_deliver split: if_splits simp del: rib_step.simps)+

lemma sv_wf_new: "sv_wf NewServer"
  by (simp add: sv_wf_def NewServer_def)

lemma sv_wf_run: "sv_run sv evs ops sv' \<Longrightarrow> sv_wf sv \<Longrightarrow> sv_wf sv'"
  by (induction rule: sv_run.induct) (auto intro: sv_wf_step)

text \<open>How one session fares over a stretch of the run.\<close>

definition session_fares :: "nat \<Rightarrow> session \<Rightarrow> rib_op list \<Rightarrow> RIB \<Rightarrow> server \<Rightarrow> bool" where
  "session_fares n s ops r sv' \<longleftrightarrow> (\<exists>s' evs. mget (sv_sessions sv') n = Some s' \<and> same_session s s'
     \<and> ss_phase s' \<noteq> Claimed \<and> drain_run (ss_drain s) evs (ss_drain s') \<and> no_close evs
     \<and> concat (map ev_msgs evs) = msgs_for (session_sink n s) (snd (rib_run ops r)))"

lemma fares_quiet:
  assumes "mget (sv_sessions sv') n = Some s'" and "same_session s s'" and "ss_phase s' \<noteq> Claimed"
    and "ss_drain s' = ss_drain s"
  shows "session_fares n s [] r sv'"
  unfolding session_fares_def using assms
  by (intro exI [of _ s'] exI [of _ "[]"]) (simp add: drain_run.stop no_close_def)

lemma fares_table:
  assumes "mget (sv_sessions sv) n = Some s1" and "same_session s s1" and "ss_phase s1 \<noteq> Claimed"
    and "ss_drain s1 = ss_drain s"
    and "mget (sv_sessions sv') n = mget (sv_sessions (table_step op sv)) n"
  shows "session_fares n s [op] (sv_rib sv) sv'"
proof -
  let ?es = "snd (rib_step op (sv_rib sv))"
  have sink: "session_sink n s1 = session_sink n s"
    using assms(2) by (simp add: session_sink_def same_session_def)
  have "mget (sv_sessions sv') n = Some (on_queue (enqueue (session_sink n s) ?es) s1)"
    using assms(1,5) by (simp add: mget_deliver sink)
  moreover have "drain_run (ss_drain s) (evs_for (session_sink n s) ?es)
      (ss_drain (on_queue (enqueue (session_sink n s) ?es) s1))"
    using enqueue_run [of "ss_drain s"] assms(4) by simp
  ultimately show ?thesis
    unfolding session_fares_def using assms(2,3)
    by (intro exI [of _ "on_queue (enqueue (session_sink n s) ?es) s1"] exI [of _ "evs_for (session_sink n s) ?es"])
      (simp add: evs_for_msgs evs_for_no_close rib_run_one same_session_def)
qed

lemma same_session_refl [simp]: "same_session s s"
  by (simp add: same_session_def)

lemma session_step:
  assumes "sv_step sv ev ops sv'" and "sv_wf sv" and "mget (sv_sessions sv) n = Some s"
    and "ss_phase s \<noteq> Claimed" and "keeps_open n ev"
  shows "session_fares n s ops (sv_rib sv) sv'"
  using assms
proof (induction rule: sv_step.induct)
  case (accept i sv1 sv ctx u feed)
  then have "sv_next sv \<noteq> n" by (auto simp: sv_wf_def)
  with accept show ?case by (intro fares_table [where ?s1.0 = s]) auto
next
  case (reject msg sv ctx)
  then show ?case by (intro fares_quiet) auto
next
  case (register_none sv n' s')
  then show ?case by (intro fares_quiet) auto
next
  case (register_all sv n' s')
  then have "n' \<noteq> n" by auto
  with register_all show ?case
    using fares_table [of "sv\<lparr>sv_sessions := mput n' (s'\<lparr>ss_phase := Running\<rparr>) (sv_sessions sv)\<rparr>" n s s] by simp
next
  case (recv sv n' s' msg op)
  then show ?case by (intro fares_table [where ?s1.0 = s]) auto
next
  case (recv_none sv n' s' msg)
  then show ?case by (intro fares_quiet) auto
next
  case (release sv n' s')
  let ?s1 = "if n' = n then s\<lparr>ss_phase := Released\<rparr> else s"
  let ?sv1 = "sv\<lparr>sv_sessions := mput n' (s'\<lparr>ss_phase := Released\<rparr>) (sv_sessions sv)\<rparr>"
  have "session_fares n s [OpRelease (ss_id s') (ss_token s')] (sv_rib ?sv1)
      (table_step (OpRelease (ss_id s') (ss_token s')) ?sv1)"
    by (rule fares_table [where ?s1.0 = ?s1]) (use release in \<open>auto simp: same_session_def\<close>)
  then show ?case by simp
next
  case (close sv n' s')
  then show ?case by (intro fares_quiet) auto
next
  case (drain sv n' s' ev d)
  show ?case
  proof (cases "n' = n")
    case False
    with drain show ?thesis by (intro fares_quiet) auto
  next
    case True
    with drain have "s' = s" "ev = EvTake \<or> ev = EvWake" by auto
    with drain True show ?thesis
      unfolding session_fares_def
      by (intro exI [of _ "s\<lparr>ss_drain := d\<rparr>"] exI [of _ "[ev]"])
        (auto simp: drain_run_single no_close_def same_session_def)
  qed
qed (auto intro!: fares_table)

lemma session_run:
  assumes "sv_run sv evs ops sv'" and "sv_wf sv" and "mget (sv_sessions sv) n = Some s"
    and "ss_phase s \<noteq> Claimed" and "list_all (keeps_open n) evs"
  shows "session_fares n s ops (sv_rib sv) sv'"
  using assms
proof (induction rule: sv_run.induct)
  case (sv_stop sv)
  then show ?case by (intro fares_quiet) auto
next
  case (sv_more sv evs ops sv1 ev ops1 sv2)
  then obtain s1 evs1 where 1: "mget (sv_sessions sv1) n = Some s1" "same_session s s1" "ss_phase s1 \<noteq> Claimed"
      "drain_run (ss_drain s) evs1 (ss_drain s1)" "no_close evs1"
      "concat (map ev_msgs evs1) = msgs_for (session_sink n s) (snd (rib_run ops (sv_rib sv)))"
    unfolding session_fares_def by auto
  have "sv_wf sv1" using sv_more.hyps(1) sv_more.prems(1) by (rule sv_wf_run)
  from session_step [OF sv_more.hyps(2) this 1(1,3)] sv_more.prems(4) obtain s2 evs2 where
    2: "mget (sv_sessions sv2) n = Some s2" "same_session s1 s2" "ss_phase s2 \<noteq> Claimed"
      "drain_run (ss_drain s1) evs2 (ss_drain s2)" "no_close evs2"
      "concat (map ev_msgs evs2) = msgs_for (session_sink n s1) (snd (rib_run ops1 (sv_rib sv1)))"
    unfolding session_fares_def by auto
  have "session_sink n s1 = session_sink n s" using 1(2) by (simp add: session_sink_def same_session_def)
  then have "concat (map ev_msgs (evs1 @ evs2)) =
      msgs_for (session_sink n s) (snd (rib_run (ops @ ops1) (sv_rib sv)))"
    using 1(6) 2(6) sv_run_rib [OF sv_more.hyps(1)] by (simp add: rib_run_append)
  moreover have "drain_run (ss_drain s) (evs1 @ evs2) (ss_drain s2)"
    using 2(4) 1(4) by (rule drain_run_append)
  moreover have "no_close (evs1 @ evs2)" using 1(5) 2(5) by (auto simp: no_close_def)
  moreover have "same_session s s2" using 1(2) 2(2) by (simp add: same_session_def)
  ultimately show ?case unfolding session_fares_def using 2(1,3) by blast
qed

section \<open>Only certified nexthops are stored\<close>

text \<open>The guards of the sessions that ever spoke for a node id.\<close>

definition guards_of :: "server \<Rightarrow> string \<Rightarrow> underlayGuard set" where
  "guards_of sv orig = {g. \<exists>n s. mget (sv_sessions sv) n = Some s \<and> ss_id s = orig \<and> ss_guard s = g}"

definition public_ok :: "underlayGuard \<Rightarrow> PublicRecord \<Rightarrow> bool" where
  "public_ok g rec \<longleftrightarrow> permits g (pr_OwnerUnderlay rec)
     \<and> (pr_Kind rec = PUBLIC_KIND_EDGE_UNDERLAY \<longrightarrow> permits g (hostAddr (pr_Prefix rec)))"

definition certified :: "(string \<Rightarrow> underlayGuard set) \<Rightarrow> rib_spec \<Rightarrow> bool" where
  "certified G t \<longleftrightarrow>
     (\<forall>orig k nhs. sp_holds t orig k = Some nhs \<longrightarrow> (\<exists>g \<in> G orig. \<forall>nh \<in> set nhs. permits g nh))
   \<and> (\<forall>k orig b. sp_nat t k = Some (orig, b) \<longrightarrow> (\<exists>g \<in> G orig. permits g (nb_OwnerUnderlay b)))
   \<and> (\<forall>k orig rec. sp_public t k = Some (orig, rec) \<longrightarrow> (\<exists>g \<in> G orig. public_ok g rec))"

lemma certifiedD:
  assumes "certified G t"
  shows "sp_holds t orig k = Some nhs \<Longrightarrow> \<exists>g \<in> G orig. \<forall>nh \<in> set nhs. permits g nh"
    and "sp_nat t nk = Some (orig, b) \<Longrightarrow> \<exists>g \<in> G orig. permits g (nb_OwnerUnderlay b)"
    and "sp_public t pk = Some (orig, rec) \<Longrightarrow> \<exists>g \<in> G orig. public_ok g rec"
  using assms unfolding certified_def by blast+

text \<open>An operation that stores nothing a guard of its origin does not permit.\<close>

fun certified_op :: "(string \<Rightarrow> underlayGuard set) \<Rightarrow> rib_op \<Rightarrow> bool" where
  "certified_op G (OpAnnounce orig vni p nhs ext) = (\<exists>g \<in> G orig. \<forall>nh \<in> set nhs. permits g nh)"
| "certified_op G (OpAnnounceNat orig b) = (\<exists>g \<in> G orig. permits g (nb_OwnerUnderlay b))"
| "certified_op G (OpAnnouncePublic orig rec) = (\<exists>g \<in> G orig. public_ok g rec)"
| "certified_op G _ = True"

lemma certified_unhold: "certified G t \<Longrightarrow> certified G (unhold i gone t)"
  unfolding certified_def unhold_def by (auto split: if_splits)

lemma certified_drop: "certified G t \<Longrightarrow> certified G (spec_drop i t)"
  unfolding certified_def spec_drop_def unhold_def disown_def by (fastforce split: option.splits if_splits)

lemma certified_frame:
  "sp_holds t' = sp_holds t \<Longrightarrow> sp_nat t' = sp_nat t \<Longrightarrow> sp_public t' = sp_public t \<Longrightarrow> certified G t' = certified G t"
  by (simp add: certified_def)

lemma certified_step:
  assumes "certified G t" and "certified_op G op"
  shows "certified G (spec_step op t)"
proof (cases op)
  case (OpWithdraw orig vni p)
  with assms show ?thesis by (simp add: certified_unhold)
next
  case (OpClaim i)
  have "certified G (t\<lparr>sp_token := x, sp_claim := y, sp_sinks := z\<rparr>)" "certified G (t\<lparr>sp_token := x, sp_claim := y\<rparr>)" for x y z
    using assms(1) by (simp_all add: certified_def)
  with OpClaim show ?thesis by (simp add: certified_drop Let_def)
next
  case (OpRelease i token)
  have "certified G (t\<lparr>sp_claim := y, sp_sinks := z\<rparr>)" for y z
    using assms(1) by (simp add: certified_def)
  with OpRelease assms(1) show ?thesis by (simp add: certified_drop)
next
  case (OpAnnounce orig vni p nhs ext)
  with assms show ?thesis by (simp add: certified_def)
next
  case (OpAnnounceNat orig b)
  with assms show ?thesis by (simp add: certified_def)
next
  case (OpAnnouncePublic orig rec)
  with assms show ?thesis by (simp add: certified_def)
next
  case (OpWithdrawNat orig ip lo hi permit)
  have "certified G (t\<lparr>sp_nat := (sp_nat t)(k := None)\<rparr>)" for k
    using assms(1) by (simp add: certified_def)
  with OpWithdrawNat assms(1) show ?thesis by (simp split: option.split prod.split)
next
  case (OpWithdrawPublic orig rec permit)
  have "certified G (t\<lparr>sp_public := (sp_public t)(k := None)\<rparr>)" for k
    using assms(1) by (simp add: certified_def)
  with OpWithdrawPublic assms(1) show ?thesis by (simp split: option.split prod.split)
next
  case (OpSetFence p)
  have "certified G (t\<lparr>sp_fences := f\<rparr>)" for f
    using assms(1) by (simp add: certified_def)
  with OpSetFence assms(1) show ?thesis by (simp split: option.split prod.split)
next
  case (OpClearFence p)
  have "certified G (t\<lparr>sp_fences := f\<rparr>)" for f
    using assms(1) by (simp add: certified_def)
  with OpClearFence assms(1) show ?thesis by (simp split: option.split prod.split)
qed (use assms(1) in \<open>simp_all add: certified_def\<close>)

lemma certified_mono: "certified G t \<Longrightarrow> (\<And>orig. G orig \<subseteq> G' orig) \<Longrightarrow> certified G' t"
  unfolding certified_def by (meson subsetD)

lemma public_ok_copy [simp]: "public_ok g (publicRecordFromPB p) = public_ok g p"
  by (simp add: public_ok_def publicRecordFromPB_def)

lemma session_op_certified:
  assumes "mget (sv_sessions sv) n = Some s" and "session_op (ss_guard s) (session_sink n s) msg = Some op"
  shows "certified_op (guards_of sv) op"
proof -
  have "ss_guard s \<in> guards_of sv (ID (session_sink n s))"
    using assms(1) by (auto simp: guards_of_def session_sink_def)
  with assms(2) show ?thesis
    by (cases msg) (auto simp: Let_def list_ex_iff public_ok_def publicRecordFromPB_def split: if_splits)
qed

lemma sessions_persist:
  assumes "sv_step sv ev ops sv'" and "sv_wf sv" and "mget (sv_sessions sv) n = Some s"
  shows "\<exists>s'. mget (sv_sessions sv') n = Some s' \<and> same_session s s'"
  using assms
  by (induction rule: sv_step.induct)
    (auto simp: mget_deliver same_session_def sv_wf_def simp del: rib_step.simps)

lemma guards_mono: "sv_step sv ev ops sv' \<Longrightarrow> sv_wf sv \<Longrightarrow> guards_of sv orig \<subseteq> guards_of sv' orig"
  using sessions_persist by (fastforce simp: guards_of_def same_session_def)

lemma sv_ops_certified: "sv_step sv ev ops sv' \<Longrightarrow> op \<in> set ops \<Longrightarrow> certified_op (guards_of sv) op"
  by (induction rule: sv_step.induct) (auto intro: session_op_certified)

definition sv_inv :: "server \<Rightarrow> bool" where
  "sv_inv sv \<longleftrightarrow> sv_wf sv \<and> rib_inv (sv_rib sv) \<and> certified (guards_of sv) (rib_abs (sv_rib sv))"

lemma sv_invD:
  assumes "sv_inv sv"
  shows "sv_wf sv" "rib_inv (sv_rib sv)" "certified (guards_of sv) (rib_abs (sv_rib sv))"
  using assms by (simp_all add: sv_inv_def)

lemma sv_inv_new: "sv_inv NewServer"
  using rib_inv_new sv_wf_new
  by (simp add: sv_inv_def NewServer_def certified_def rib_abs_def)
    (simp add: NewRIB_def holds_def mget0_def no_entry_def owned_by_def)

lemma certified_run:
  assumes "rib_inv r" and "certified G (rib_abs r)" and "\<And>op. op \<in> set ops \<Longrightarrow> certified_op G op"
  shows "certified G (rib_abs (fst (rib_run ops r)))"
  using assms
proof (induction ops arbitrary: r)
  case (Cons op ops)
  then show ?case
    by (simp add: rib_run_Cons rib_inv_step abs_step certified_step)
qed simp

lemma sv_inv_step:
  assumes "sv_step sv ev ops sv'" and "sv_inv sv"
  shows "sv_inv sv'"
proof -
  have "certified (guards_of sv) (rib_abs (sv_rib sv'))"
    unfolding sv_step_rib [OF assms(1)]
    using assms(2) sv_ops_certified [OF assms(1)] by (intro certified_run) (auto simp: sv_inv_def)
  then have "certified (guards_of sv') (rib_abs (sv_rib sv'))"
    by (rule certified_mono) (use guards_mono [OF assms(1)] assms(2) in \<open>simp add: sv_inv_def\<close>)
  moreover have "rib_inv (sv_rib sv')"
    unfolding sv_step_rib [OF assms(1)] using assms(2) by (simp add: rib_inv_run sv_inv_def)
  ultimately show ?thesis
    using sv_wf_step [OF assms(1)] assms(2) by (simp add: sv_inv_def)
qed

lemma sv_inv_run: "sv_run sv evs ops sv' \<Longrightarrow> sv_inv sv \<Longrightarrow> sv_inv sv'"
  by (induction rule: sv_run.induct) (auto intro: sv_inv_step)

section \<open>The admin reply\<close>

lemma reply_keys_append:
  "reply_keys prev (hs @ hs') = reply_keys prev hs @ reply_keys (if hs = [] then prev else Some (rh_Key (last hs))) hs'"
  by (induction prev hs rule: reply_keys.induct) auto

lemma reply_keys_same:
  "(\<And>h. h \<in> set hs \<Longrightarrow> rh_Key h = k) \<Longrightarrow> reply_keys prev hs = (if hs = [] \<or> prev = Some k then [] else [k])"
proof (induction hs arbitrary: prev)
  case (Cons h hs)
  then show ?case by (cases "hs = []") auto
qed simp

lemma first_holders_keys: "h \<in> set (first_holders ks asked nets r) \<Longrightarrow> rh_Key h = asked"
  by (induction ks) (auto simp: Let_def holdersWithin_def split: if_splits)

text \<open>The asked keys without repetitions, in the order first asked.\<close>

fun first_asked :: "routeKey list \<Rightarrow> routeKey list \<Rightarrow> routeKey list" where
  "first_asked seen [] = []"
| "first_asked seen (k # ks) = (if k \<in> set seen then first_asked seen ks else k # first_asked (sput k seen) ks)"

lemma announced_loop_first:
  "announced_loop keys seen nets r = concat (map (\<lambda>k. first_holders (spellings k) k nets r) (first_asked seen keys))"
  by (induction keys seen nets r rule: announced_loop.induct) auto

lemma set_first_asked: "set (first_asked seen keys) = set keys - set seen"
  by (induction seen keys rule: first_asked.induct) (auto simp: sput_def split: if_splits)

lemma distinct_first_asked: "distinct (first_asked seen keys)"
  by (induction seen keys rule: first_asked.induct) (auto simp: set_first_asked sput_def)

lemma reply_keys_groups:
  assumes "distinct ks" and "\<And>k. k \<in> set ks \<Longrightarrow> prev \<noteq> Some k" and "\<And>k h. h \<in> set (f k) \<Longrightarrow> rh_Key h = k"
  shows "reply_keys prev (concat (map f ks)) = filter (\<lambda>k. f k \<noteq> []) ks"
  using assms
proof (induction ks arbitrary: prev)
  case (Cons k ks)
  have key: "rh_Key (last (f k)) = k" if "f k \<noteq> []" using that Cons.prems(3) last_in_set by blast
  have tail: "reply_keys (if f k = [] then prev else Some (rh_Key (last (f k)))) (concat (map f ks)) =
      filter (\<lambda>k. f k \<noteq> []) ks"
  proof (rule Cons.IH)
    show "(if f k = [] then prev else Some (rh_Key (last (f k)))) \<noteq> Some k'" if "k' \<in> set ks" for k'
      using that key Cons.prems(1) Cons.prems(2) [of k'] by (cases "f k = []") auto
  qed (use Cons.prems in simp_all)
  have "reply_keys prev (f k) = (if f k = [] \<or> prev = Some k then [] else [k])"
    by (rule reply_keys_same) (rule Cons.prems(3))
  with Cons.prems(2) [of k] tail show ?case by (simp add: reply_keys_append)
qed simp

section \<open>Properties\<close>

text \<open>
  The admin query's key list names each asked key that has a holder exactly once, in the order
  asked, and no other key.
\<close>

theorem admin_reply_keys:
  assumes "Admin_AnnouncedFrom within keys r = Inr (held, ks)"
  shows "distinct ks \<and> set ks = {k \<in> set keys. \<exists>h \<in> set held. rh_Key h = k} \<and> subseq ks keys"
proof -
  obtain nets where held: "held = announced_loop keys [] nets r" and ks: "ks = reply_keys None held"
    using assms by (auto simp: Admin_AnnouncedFrom_def AnnouncedFrom_def split: option.splits)
  let ?f = "\<lambda>k. first_holders (spellings k) k nets r"
  have "ks = filter (\<lambda>k. ?f k \<noteq> []) (first_asked [] keys)"
    unfolding ks held announced_loop_first
    by (rule reply_keys_groups) (auto simp: distinct_first_asked dest: first_holders_keys)
  moreover have "subseq (first_asked seen keys) keys" for seen
    by (induction seen keys rule: first_asked.induct) auto
  moreover have "(\<exists>h \<in> set held. rh_Key h = k) \<longleftrightarrow> ?f k \<noteq> []" if "k \<in> set keys" for k
  proof -
    have "(\<exists>h \<in> set held. rh_Key h = k) \<longleftrightarrow> (\<exists>h. h \<in> set (?f k))"
      using that first_holders_keys by (fastforce simp: held announced_loop_first set_first_asked)
    then show ?thesis by (cases "?f k") auto
  qed
  ultimately show ?thesis
    by (auto simp: distinct_first_asked set_first_asked intro: subseq_order.trans subseq_filter_left)
qed

theorem admin_reply_keys_witness:
  "\<exists>held ks. Admin_AnnouncedFrom ''fd00::/64'' [(7, ''10.0.0.1/32''), (7, ''10.0.0.1/32'')] NewRIB = Inr (held, ks)
     \<and> distinct ks"
proof -
  have "ParseCIDR ''fd00::/64'' \<noteq> None" by code_simp
  then obtain held ks where
    *: "Admin_AnnouncedFrom ''fd00::/64'' [(7, ''10.0.0.1/32''), (7, ''10.0.0.1/32'')] NewRIB = Inr (held, ks)"
    by (auto simp: Admin_AnnouncedFrom_def AnnouncedFrom_def)
  with admin_reply_keys [OF *] show ?thesis by blast
qed

subsection \<open>Executing a run\<close>

text \<open>The steps as a function of the event, for concrete runs.\<close>

fun drain_exec :: "queue_ev \<Rightarrow> drain \<Rightarrow> drain option" where
  "drain_exec EvTake d = (if dr_waiting d \<or> dr_ended d then None
     else case q_take (dr_queue d) of
       (Batch ms, q) \<Rightarrow> Some (d\<lparr>dr_queue := q, dr_handed := dr_handed d @ ms\<rparr>)
     | (Done, q) \<Rightarrow> Some (d\<lparr>dr_queue := q, dr_ended := True\<rparr>)
     | (Wait, q) \<Rightarrow> Some (d\<lparr>dr_queue := q, dr_waiting := True\<rparr>))"
| "drain_exec EvWake d = (if \<not> dr_waiting d then None
     else map_option (\<lambda>q. d\<lparr>dr_queue := q, dr_waiting := False\<rparr>) (q_wake_up (dr_queue d)))"
| "drain_exec EvFail d = (if dr_waiting d \<or> dr_ended d then None
     else Some (d\<lparr>dr_queue := q_close (dr_queue d), dr_ended := True\<rparr>))"
| "drain_exec _ d = None"

lemma drain_exec_step: "drain_exec ev d = Some d' \<Longrightarrow> drain_step d ev d' \<and> (ev = EvTake \<or> ev = EvWake \<or> ev = EvFail)"
  by (cases ev) (auto intro: drain_step.intros split: if_splits take_result.splits prod.splits)

fun sv_exec :: "sv_event \<Rightarrow> server \<Rightarrow> (rib_op list \<times> server) option" where
  "sv_exec (Accept ctx msg) sv = (case msg of
     Hello i u feed \<Rightarrow> if i = [] then Some ([], sv)
       else let sv1 = table_step (OpClaim i) sv
            in Some ([OpClaim i], sv1\<lparr>sv_sessions := mput (sv_next sv)
                 (new_session ctx i feed (fst (ClaimOrigin i (sv_rib sv)))) (sv_sessions sv1), sv_next := sv_next sv + 1\<rparr>)
   | _ \<Rightarrow> Some ([], sv))"
| "sv_exec (Register n) sv = (case mget (sv_sessions sv) n of
     None \<Rightarrow> None
   | Some s \<Rightarrow> if ss_phase s \<noteq> Claimed then None
       else if ss_feed s = GLOBAL_FEED_NONE
       then Some ([], sv\<lparr>sv_sessions := mput n ((on_queue (q_SendSnapshot [EndOfGlobal 0]) s)\<lparr>ss_phase := Running\<rparr>) (sv_sessions sv)\<rparr>)
       else Some ([OpRegisterSink (session_sink n s)], table_step (OpRegisterSink (session_sink n s))
              (sv\<lparr>sv_sessions := mput n (s\<lparr>ss_phase := Running\<rparr>) (sv_sessions sv)\<rparr>)))"
| "sv_exec (Recv n msg) sv = (case mget (sv_sessions sv) n of
     None \<Rightarrow> None
   | Some s \<Rightarrow> if ss_phase s \<noteq> Running then None
       else (case session_op (ss_guard s) (session_sink n s) msg of
               None \<Rightarrow> Some ([], sv) | Some op \<Rightarrow> Some ([op], table_step op sv)))"
| "sv_exec (Release n) sv = (case mget (sv_sessions sv) n of
     None \<Rightarrow> None
   | Some s \<Rightarrow> if ss_phase s \<noteq> Running then None
       else Some ([OpRelease (ss_id s) (ss_token s)], table_step (OpRelease (ss_id s) (ss_token s))
              (sv\<lparr>sv_sessions := mput n (s\<lparr>ss_phase := Released\<rparr>) (sv_sessions sv)\<rparr>)))"
| "sv_exec (Close n) sv = (case mget (sv_sessions sv) n of
     None \<Rightarrow> None
   | Some s \<Rightarrow> if ss_phase s \<noteq> Released then None
       else Some ([], sv\<lparr>sv_sessions := mput n ((on_queue q_close s)\<lparr>ss_phase := Finished\<rparr>) (sv_sessions sv)\<rparr>))"
| "sv_exec (Drain n ev) sv = (case mget (sv_sessions sv) n of
     None \<Rightarrow> None
   | Some s \<Rightarrow> map_option (\<lambda>d. ([], sv\<lparr>sv_sessions := mput n (s\<lparr>ss_drain := d\<rparr>) (sv_sessions sv)\<rparr>))
       (drain_exec ev (ss_drain s)))"
| "sv_exec (AdminSet p) sv = (if ParseCIDR p = None then None else Some ([OpSetFence p], table_step (OpSetFence p) sv))"
| "sv_exec (AdminClear p) sv = (if ParseCIDR p = None then None else Some ([OpClearFence p], table_step (OpClearFence p) sv))"

lemma sv_exec_step: "sv_exec ev sv = Some (ops, sv') \<Longrightarrow> sv_step sv ev ops sv'"
proof (cases ev)
  case (Accept ctx msg)
  then show "sv_exec ev sv = Some (ops, sv') \<Longrightarrow> sv_step sv ev ops sv'"
    using sv_step.accept [OF _ refl, of _ sv ctx]
    by (cases msg) (auto simp: Let_def intro: sv_step.reject split: if_splits)
qed (auto dest!: drain_exec_step intro: sv_step.intros split: option.splits if_splits)

fun sv_exec_run :: "sv_event list \<Rightarrow> server \<Rightarrow> (rib_op list \<times> server) option" where
  "sv_exec_run [] sv = Some ([], sv)"
| "sv_exec_run (ev # evs) sv = (case sv_exec ev sv of
     None \<Rightarrow> None
   | Some (ops, sv1) \<Rightarrow> map_option (\<lambda>(ops', sv'). (ops @ ops', sv')) (sv_exec_run evs sv1))"

lemma sv_run_append:
  assumes "sv_run sv1 evs' ops' sv2" and "sv_run sv evs ops sv1"
  shows "sv_run sv (evs @ evs') (ops @ ops') sv2"
  using assms
  by (induction rule: sv_run.induct)
    (auto simp: append_assoc [symmetric] intro: sv_run.sv_more simp del: append_assoc)

lemma sv_exec_run_run: "sv_exec_run evs sv = Some (ops, sv') \<Longrightarrow> sv_run sv evs ops sv'"
proof (induction evs arbitrary: sv ops)
  case (Cons ev evs)
  then obtain ops1 sv1 ops2 where step: "sv_exec ev sv = Some (ops1, sv1)"
      "sv_exec_run evs sv1 = Some (ops2, sv')" "ops = ops1 @ ops2"
    by (auto split: option.splits)
  have "sv_run sv [ev] ops1 sv1"
    using sv_run.sv_more [OF sv_run.sv_stop sv_exec_step [OF step(1)]] by simp
  from sv_run_append [OF Cons.IH [OF step(2)] this] step(3) show ?case by simp
qed (simp add: sv_run.sv_stop)

end
