(* ===== verification/Reflector_Properties.thy ===== *)
theory Reflector_Properties
  imports Reflector
begin

text \<open>
  The properties of the running reflector: they hold for every interleaving of sessions, drains and
  admin calls.
\<close>

section \<open>From the table to the wire\<close>

lemma learned_fresh:
  assumes "\<And>m. m \<in> set ms \<Longrightarrow> \<not> route_msg m"
  shows "fold learn (ms @ msgs_for s es) Map.empty = learned s es Map.empty"
  using fold_unmoved [of ms learn Map.empty] assms learn_other by (simp add: learned_def)


text \<open>Node c listens on VNI 7 while node a, with a certificate for \<^verbatim>\<open>fd00::a\<close>, announces into it.\<close>

definition cert_a :: peer_ctx where
  "cert_a = Some (TLSInfo [[\<lparr>ct_CommonName = ''a'', ct_IPAddresses = [0xfd00000000000000000000000000000a]\<rparr>]])"

definition hello_evs :: "sv_event list" where
  "hello_evs = [Accept None (Hello ''c'' [] GLOBAL_FEED_NONE), Register 0,
     Accept cert_a (Hello ''a'' [] GLOBAL_FEED_NONE), Register 1]"

definition announce_a :: ClientMsg where
  "announce_a = Announce \<lparr>an_Vni = 7, an_Prefix = ''10.0.0.1/32'', an_NexthopUnderlay = ''fd00::a'',
     an_ExtraNexthops = [], an_External = False\<rparr>"

definition talk_evs :: "sv_event list" where
  "talk_evs = [Recv 0 (Subscribe 7), Recv 1 announce_a, Drain 0 EvTake]"

definition sv_hello :: "rib_op list \<times> server" where
  "sv_hello = the (sv_exec_run hello_evs NewServer)"

definition sv_talk :: "rib_op list \<times> server" where
  "sv_talk = the (sv_exec_run talk_evs (snd sv_hello))"

definition session_of :: "nat \<Rightarrow> server \<Rightarrow> session" where
  "session_of n sv = the (mget (sv_sessions sv) n)"

lemma hello_run: "sv_run NewServer hello_evs (fst sv_hello) (snd sv_hello)"
proof -
  have "sv_exec_run hello_evs NewServer \<noteq> None" by code_simp
  then show ?thesis by (auto simp: sv_hello_def intro: sv_exec_run_run)
qed

lemma talk_run: "sv_run (snd sv_hello) talk_evs (fst sv_talk) (snd sv_talk)"
proof -
  have "sv_exec_run talk_evs (snd sv_hello) \<noteq> None" by code_simp
  then show ?thesis by (auto simp: sv_talk_def intro: sv_exec_run_run)
qed

fun same_op :: "rib_op \<Rightarrow> rib_op \<Rightarrow> bool" where
  "same_op (OpSubscribe v s) (OpSubscribe v' s') = (v = v' \<and> s = s')"
| "same_op (OpAnnounce i v p nhs ext) (OpAnnounce i' v' p' nhs' ext') =
     (i = i' \<and> v = v' \<and> p = p' \<and> nhs = nhs' \<and> ext = ext')"
| "same_op _ _ = False"

lemma same_opD: "same_op a b \<Longrightarrow> a = b"
  by (induction a b rule: same_op.induct) auto

lemma talk_ops:
  "fst sv_talk = [OpSubscribe 7 (session_sink 0 (session_of 0 (snd sv_hello))),
     OpAnnounce ''a'' 7 ''10.0.0.1/32'' [''fd00::a''] False]"
proof -
  have "list_all2 same_op (fst sv_talk) [OpSubscribe 7 (session_sink 0 (session_of 0 (snd sv_hello))),
      OpAnnounce ''a'' 7 ''10.0.0.1/32'' [''fd00::a''] False]"
    by code_simp
  then have "list_all2 (=) (fst sv_talk) [OpSubscribe 7 (session_sink 0 (session_of 0 (snd sv_hello))),
      OpAnnounce ''a'' 7 ''10.0.0.1/32'' [''fd00::a''] False]"
    by (rule list_all2_mono) (rule same_opD)
  then show ?thesis by (simp add: list.rel_eq)
qed

lemma session_of_hello: "mget (sv_sessions (snd sv_hello)) 0 = Some (session_of 0 (snd sv_hello))"
proof -
  have "mget (sv_sessions (snd sv_hello)) 0 \<noteq> None" by code_simp
  then show ?thesis by (simp add: session_of_def)
qed

lemma session_of_talk: "mget (sv_sessions (snd sv_talk)) 0 = Some (session_of 0 (snd sv_talk))"
proof -
  have "mget (sv_sessions (snd sv_talk)) 0 \<noteq> None" by code_simp
  then show ?thesis by (simp add: session_of_def)
qed


section \<open>Who may speak for which address\<close>

lemma run_certified: "sv_run NewServer evs ops sv \<Longrightarrow> sv_inv sv"
  using sv_inv_new sv_inv_run by blast

lemma permits_enforced:
  "permits g u \<Longrightarrow> ug_enforce g \<Longrightarrow> \<exists>ip \<in> set (ug_allowed g). ParseIP u = Some ip"
  by (auto simp: permits_def list_ex_iff split: option.splits)

text \<open>
  C13: Every nexthop the reflector advertises, whatever the sessions did, was announced by a session
  that holds the route's origin and whose client certificate, when the session is mutually
  authenticated, carries exactly that address.
\<close>

theorem nexthops_certified:
  assumes "sv_run NewServer evs ops sv" and "nh \<in> set (Advertised vni p (sv_rib sv))"
  shows "\<exists>n s. mget (sv_sessions sv) n = Some s \<and> holds (sv_rib sv) (ss_id s) (vni, p) \<noteq> None
     \<and> (ug_enforce (ss_guard s) \<longrightarrow> (\<exists>ip \<in> set (ug_allowed (ss_guard s)). ParseIP nh = Some ip))"
proof -
  have inv: "sv_inv sv" using assms(1) by (rule run_certified)
  then have "routes_inv (sv_rib sv)" by (simp add: sv_inv_def rib_inv_def)
  from assms(2) [unfolded set_Advertised [OF this]] obtain orig nhs where
    held: "holds (sv_rib sv) orig (vni, p) = Some nhs" "nh \<in> set nhs" by blast
  from certifiedD(1) [OF sv_invD(3) [OF inv], of orig "(vni, p)" nhs] held
  obtain g where "g \<in> guards_of sv orig" "permits g nh" by (auto simp: rib_abs_def)
  then obtain n s where "mget (sv_sessions sv) n = Some s" "ss_id s = orig" "permits (ss_guard s) nh"
    by (auto simp: guards_of_def)
  with held(1) permits_enforced show ?thesis by (intro exI [of _ n] exI [of _ s]) auto
qed

theorem nexthops_certified_witness:
  "\<exists>n s. mget (sv_sessions (snd sv_talk)) n = Some s
     \<and> holds (sv_rib (snd sv_talk)) (ss_id s) (7, ''10.0.0.1/32'') \<noteq> None
     \<and> (ug_enforce (ss_guard s) \<longrightarrow> (\<exists>ip \<in> set (ug_allowed (ss_guard s)). ParseIP ''fd00::a'' = Some ip))"
proof (rule nexthops_certified [OF sv_run_append [OF talk_run hello_run]])
  show "''fd00::a'' \<in> set (Advertised 7 ''10.0.0.1/32'' (sv_rib (snd sv_talk)))" by code_simp
qed

text \<open>
  C19: Every stored NAT block and public record belongs to a node one of whose sessions was certified
  for the record's owner address, and an edge record also for the address it maps.
\<close>

theorem owners_certified:
  assumes "sv_run NewServer evs ops sv"
  shows "(\<forall>k b. mget (rb_nat (sv_rib sv)) k = Some b \<longrightarrow> (\<exists>n s. mget (sv_sessions sv) n = Some s
        \<and> mget (rb_natOrigin (sv_rib sv)) k = Some (ss_id s) \<and> permits (ss_guard s) (nb_OwnerUnderlay b)))
     \<and> (\<forall>k rec. mget (rb_public (sv_rib sv)) k = Some rec \<longrightarrow> (\<exists>n s. mget (sv_sessions sv) n = Some s
        \<and> mget (rb_publicOrigin (sv_rib sv)) k = Some (ss_id s) \<and> permits (ss_guard s) (pr_OwnerUnderlay rec)
        \<and> (pr_Kind rec = PUBLIC_KIND_EDGE_UNDERLAY \<longrightarrow> permits (ss_guard s) (hostAddr (pr_Prefix rec)))))"
proof -
  have inv: "sv_inv sv" using assms by (rule run_certified)
  note inv = sv_invD [OF inv]
  have "\<exists>n s. mget (sv_sessions sv) n = Some s
      \<and> mget (rb_natOrigin (sv_rib sv)) k = Some (ss_id s) \<and> permits (ss_guard s) (nb_OwnerUnderlay b)"
    if stored: "mget (rb_nat (sv_rib sv)) k = Some b" for k b
  proof -
    note origin = nat_inv_origin [OF rib_invD(3) [OF inv(2)] stored]
    have "sp_nat (rib_abs (sv_rib sv)) k = Some (mget0 [] (rb_natOrigin (sv_rib sv)) k, b)"
      by (simp add: rib_abs_def owned_by_def stored)
    from certifiedD(2) [OF inv(3) this] origin show ?thesis unfolding guards_of_def by fastforce
  qed
  moreover have "\<exists>n s. mget (sv_sessions sv) n = Some s
      \<and> mget (rb_publicOrigin (sv_rib sv)) k = Some (ss_id s) \<and> permits (ss_guard s) (pr_OwnerUnderlay rec)
      \<and> (pr_Kind rec = PUBLIC_KIND_EDGE_UNDERLAY \<longrightarrow> permits (ss_guard s) (hostAddr (pr_Prefix rec)))"
    if stored: "mget (rb_public (sv_rib sv)) k = Some rec" for k rec
  proof -
    note origin = public_inv_origin [OF rib_invD(4) [OF inv(2)] stored]
    have "sp_public (rib_abs (sv_rib sv)) k = Some (mget0 [] (rb_publicOrigin (sv_rib sv)) k, rec)"
      by (simp add: rib_abs_def owned_by_def stored)
    from certifiedD(3) [OF inv(3) this] origin show ?thesis unfolding guards_of_def public_ok_def by fastforce
  qed
  ultimately show ?thesis by blast
qed

text \<open>Node a also announces a NAT block it owns.\<close>

definition nat_a :: NatBlock where
  "nat_a = \<lparr>nb_Vni = 7, nb_SourceIP = ''10.0.0.1'', nb_NatIP = ''203.0.113.1'', nb_PortMin = 1024,
     nb_PortMax = 2048, nb_OwnerUnderlay = ''fd00::a''\<rparr>"

definition sv_nat_a :: "rib_op list \<times> server" where
  "sv_nat_a = the (sv_exec_run (hello_evs @ [Recv 1 (AnnounceNat nat_a)]) NewServer)"

theorem owners_certified_witness:
  "\<exists>n s. mget (sv_sessions (snd sv_nat_a)) n = Some s
     \<and> mget (rb_natOrigin (sv_rib (snd sv_nat_a))) (nat_key nat_a) = Some (ss_id s)
     \<and> permits (ss_guard s) (nb_OwnerUnderlay nat_a)"
proof -
  have "sv_exec_run (hello_evs @ [Recv 1 (AnnounceNat nat_a)]) NewServer \<noteq> None" by code_simp
  then have "sv_run NewServer (hello_evs @ [Recv 1 (AnnounceNat nat_a)]) (fst sv_nat_a) (snd sv_nat_a)"
    by (auto simp: sv_nat_a_def intro: sv_exec_run_run)
  moreover have "mget (rb_nat (sv_rib (snd sv_nat_a))) (nat_key nat_a) = Some nat_a" by code_simp
  ultimately show ?thesis using owners_certified by blast
qed



section \<open>A superseded session keeps speaking for its node\<close>

text \<open>
  C39: Only the release checks the session's token. A session whose claim was superseded by a newer
  session of the same node, but whose stream still delivers messages, can still withdraw a route of
  the node, also one the newer session announced.
\<close>

theorem superseded_withdraws:
  assumes "mget (sv_sessions sv) n = Some s" and "ss_phase s = Running"
    and "mget (rb_origins (sv_rib sv)) (ss_id s) = Some newer" and "newer \<noteq> ss_token s"
  shows "\<exists>sv'. sv_step sv (Recv n (Withdraw vni p)) [OpWithdraw (ss_id s) vni p] sv'
     \<and> holds (sv_rib sv') (ss_id s) (vni, p) = None
     \<and> mget (rb_origins (sv_rib sv')) (ss_id s) = Some newer"
proof (intro exI conjI)
  show "sv_step sv (Recv n (Withdraw vni p)) [OpWithdraw (ss_id s) vni p] (table_step (OpWithdraw (ss_id s) vni p) sv)"
    using assms(1,2) by (rule sv_step.recv) (simp add: session_sink_def)
qed (use assms(3) in \<open>simp_all add: holds_Withdraw, simp add: RIB_Withdraw_def Let_def withdraw_origin_frame\<close>)

text \<open>Node a reconnects, announces again in the new session, and then a message of the old one arrives.\<close>

definition reconnect_evs :: "sv_event list" where
  "reconnect_evs = hello_evs @ [Accept cert_a (Hello ''a'' [] GLOBAL_FEED_NONE), Register 2, Recv 2 announce_a]"

definition sv_reconnect :: server where
  "sv_reconnect = snd (the (sv_exec_run reconnect_evs NewServer))"

theorem superseded_withdraws_witness:
  "holds (sv_rib sv_reconnect) ''a'' (7, ''10.0.0.1/32'') \<noteq> None \<and>
   (\<exists>sv'. sv_step sv_reconnect (Recv 1 (Withdraw 7 ''10.0.0.1/32'')) [OpWithdraw ''a'' 7 ''10.0.0.1/32''] sv'
     \<and> holds (sv_rib sv') ''a'' (7, ''10.0.0.1/32'') = None \<and> mget (rb_origins (sv_rib sv')) ''a'' = Some 3)"
proof
  let ?s = "session_of 1 sv_reconnect"
  have "mget (sv_sessions sv_reconnect) 1 \<noteq> None" by code_simp
  then have 1: "mget (sv_sessions sv_reconnect) 1 = Some ?s" by (simp add: session_of_def)
  have 2: "ss_phase ?s = Running" by code_simp
  have 3: "ss_id ?s = ''a''" by code_simp
  have 4: "mget (rb_origins (sv_rib sv_reconnect)) (ss_id ?s) = Some 3" unfolding 3 by code_simp
  have 5: "3 \<noteq> ss_token ?s" by code_simp
  from superseded_withdraws [OF 1 2 4 5, of 7 "''10.0.0.1/32''"]
  show "\<exists>sv'. sv_step sv_reconnect (Recv 1 (Withdraw 7 ''10.0.0.1/32'')) [OpWithdraw ''a'' 7 ''10.0.0.1/32''] sv'
     \<and> holds (sv_rib sv') ''a'' (7, ''10.0.0.1/32'') = None \<and> mget (rb_origins (sv_rib sv')) ''a'' = Some 3"
    unfolding 3 .
  show "holds (sv_rib sv_reconnect) ''a'' (7, ''10.0.0.1/32'') \<noteq> None" by code_simp
qed

end
