(* ===== verification/Rib_Properties.thy ===== *)
theory Rib_Properties
  imports Rib_View
begin

text \<open>
  The properties of the route table: refinement and invariant on every run, what is advertised,
  what subscribers end up with, fences, session claims, ownership of the global records and the
  query for routes still announced from inside a prefix.
\<close>

section \<open>The table as a whole\<close>

text \<open>
  C10: Every sequence of operations on a fresh route table ends in a state whose indices, caches and
  subscriber maps are consistent, and that implements the abstract table run through the same
  operations.
\<close>

theorem rib_refines:
  "rib_inv (fst (rib_run ops NewRIB)) \<and>
   rib_abs (fst (rib_run ops NewRIB)) = fold spec_step ops (rib_abs NewRIB)"
  by (simp add: rib_inv_run rib_inv_new abs_run)

text \<open>
  C14: In every reachable state the nexthops advertised for a route are, sorted and without
  duplicates, exactly those some origin announced for it and no fence covers; the route counts as
  present exactly when there is one.
\<close>

theorem advertised_exact:
  defines "r \<equiv> \<lambda>ops. fst (rib_run ops NewRIB)"
  shows "sorted (Advertised vni p (r ops)) \<and> distinct (Advertised vni p (r ops))
     \<and> set (Advertised vni p (r ops)) =
         {nh. (\<exists>orig nhs. holds (r ops) orig (vni, p) = Some nhs \<and> nh \<in> set nhs)
              \<and> \<not> (\<exists>key net ip. mget (rb_fenced (r ops)) key = Some net \<and> ParseIP nh = Some ip
                     \<and> ipnet_contains net ip)}
     \<and> (HasRoute vni p (r ops) \<longleftrightarrow> Advertised vni p (r ops) \<noteq> [])"
proof -
  have inv: "routes_inv (r ops)"
    using rib_inv_run [OF rib_inv_new, of ops] by (simp add: rib_inv_def r_def)
  have fence: "nexthopFenced nh (rb_fenced (r ops)) \<longleftrightarrow>
      (\<exists>key net ip. mget (rb_fenced (r ops)) key = Some net \<and> ParseIP nh = Some ip \<and> ipnet_contains net ip)" for nh
    using nexthopFenced_iff [OF routes_invD(3) [OF inv]] by blast
  show ?thesis
    unfolding set_Advertised [OF inv] fence
    by (auto simp: Advertised_def HasRoute_def mget0_def split: option.split)
qed

section \<open>Views\<close>

text \<open>
  C12: A session that subscribes to a VNI and applies the snapshot and then every update handed to
  its sink, in order, knows of a key exactly what the table advertises, after any further sequence
  of operations that leaves its subscription alone and is not its own announcement of the key.
\<close>

theorem subscriber_view_exact:
  assumes "rib_inv r" and "\<not> subscribed (fst k) s r" and "holds r (ID s) k = None"
    and "list_all (undisturbed s k) ops"
  defines "r1 \<equiv> fst (RIB_Subscribe (fst k) s r)"
  shows "learned s (snd (RIB_Subscribe (fst k) s r) @ snd (rib_run ops r1)) Map.empty k =
     shown (fst (rib_run ops r1)) k"
proof -
  have "learned s (snd (RIB_Subscribe (fst k) s r)) Map.empty k = shown r1 k"
    unfolding r1_def using assms(2) by (rule subscribe_view) simp
  moreover have "listening s k r1"
    unfolding r1_def using assms(1,3) by (rule subscribe_listening)
  ultimately show ?thesis
    using view_run [OF _ assms(4)] by (simp add: r1_def)
qed

text \<open>
  Two nodes announce the same prefix, one of them twice, while a third listens; a fence then hides
  one nexthop and the other node withdraws.
\<close>

definition view_sink :: Sink where
  "view_sink = Sink 1 ''c''"

definition view_key :: routeKey where
  "view_key = (7, ''10.0.0.1/32'')"

definition view_before :: RIB where
  "view_before = fst (RIB_Announce ''a'' 7 ''10.0.0.1/32'' [''fd00::a''] False NewRIB)"

definition view_ops :: "rib_op list" where
  "view_ops = [OpAnnounce ''b'' 7 ''10.0.0.1/32'' [''fd00::b''] False, OpSetFence ''fd00::a/128'',
     OpWithdraw ''b'' 7 ''10.0.0.1/32'', OpClearFence ''fd00::a/128'']"

theorem subscriber_view_exact_witness:
  "learned view_sink (snd (RIB_Subscribe (fst view_key) view_sink view_before)
       @ snd (rib_run view_ops (fst (RIB_Subscribe (fst view_key) view_sink view_before)))) Map.empty view_key =
     shown (fst (rib_run view_ops (fst (RIB_Subscribe (fst view_key) view_sink view_before)))) view_key"
proof (rule subscriber_view_exact)
  show "rib_inv view_before"
    using rib_inv_step [OF rib_inv_new, of "OpAnnounce ''a'' 7 ''10.0.0.1/32'' [''fd00::a''] False"]
    by (simp add: view_before_def)
  show "\<not> subscribed (fst view_key) view_sink view_before"
    by (simp add: subscribed_def view_before_def RIB_Announce_def Let_def NewRIB_def mget0_def)
  show "holds view_before (ID view_sink) view_key = None"
    by (simp add: view_before_def holds_Announce view_sink_def view_key_def) (simp add: holds_def NewRIB_def mget0_def no_entry_def)
  show "list_all (undisturbed view_sink view_key) view_ops"
    by (simp add: view_ops_def view_sink_def view_key_def)
qed

text \<open>
  C15: A session on the global feed that applies the replay it is sent on registration and then
  every NAT update knows exactly the table's NAT blocks, after any further sequence of operations
  that does not replace or end the session; and the replay ends with a marker carrying the number
  of records before it.
\<close>

theorem nat_view_exact:
  assumes "rib_inv r" and "list_all (nat_undisturbed s) ops"
  defines "r1 \<equiv> fst (RegisterSink s r)"
  shows "learned_nat s (snd (RegisterSink s r) @ snd (rib_run ops r1)) Map.empty = mget (rb_nat (fst (rib_run ops r1)))
     \<and> (\<exists>recs. snd (RegisterSink s r) = [SendSnapshot s (recs @ [EndOfGlobal (of_nat (length recs))])]
          \<and> mset recs = mset (global_records r))"
proof -
  obtain snap where snap: "snd (RegisterSink s r) = [SendSnapshot s snap]" "is_replay r snap"
    by (rule RegisterSink_replay [OF assms(1)])
  have nat: "rb_nat r1 = rb_nat r" and reg: "registered s r1"
    by (auto simp: r1_def RegisterSink_def globalSnapshotLocked_def Let_def registered_def split: option.split)
  have "feeding s r1"
    using rib_inv_step [OF assms(1), of "OpRegisterSink s"] reg by (simp add: feeding_def r1_def)
  then have "learned_nat s (snd (rib_run ops r1)) (mget (rb_nat r)) = mget (rb_nat (fst (rib_run ops r1)))"
    using nat_view_run [OF _ assms(2), of r1] nat by simp
  moreover have "learned_nat s (snd (RegisterSink s r)) Map.empty = mget (rb_nat r)"
    using replay_teaches [OF assms(1) snap(2)] snap(1) by (simp add: learned_nat_def)
  ultimately have "learned_nat s (snd (RegisterSink s r) @ snd (rib_run ops r1)) Map.empty =
      mget (rb_nat (fst (rib_run ops r1)))" by simp
  then show ?thesis
    using snap by (auto simp: is_replay_def)
qed

definition nat_example :: NatBlock where
  "nat_example = \<lparr>nb_Vni = 7, nb_SourceIP = ''10.0.0.1'', nb_NatIP = ''203.0.113.1'', nb_PortMin = 1024,
     nb_PortMax = 2048, nb_OwnerUnderlay = ''fd00::a''\<rparr>"

theorem nat_view_exact_witness:
  "learned_nat view_sink (snd (RegisterSink view_sink NewRIB)
       @ snd (rib_run [OpAnnounceNat ''a'' nat_example] (fst (RegisterSink view_sink NewRIB)))) Map.empty =
     mget (rb_nat (fst (rib_run [OpAnnounceNat ''a'' nat_example] (fst (RegisterSink view_sink NewRIB)))))"
  using nat_view_exact [OF rib_inv_new, of view_sink "[OpAnnounceNat ''a'' nat_example]"] by simp

section \<open>Fences\<close>

lemma mput_append: "mget m k = None \<Longrightarrow> mput k v m = m @ [(k, v)]"
  by (induction m) (auto simp: mput_def mget_def split: if_splits)

lemma mdel_append: "mget m k = None \<Longrightarrow> mdel k (m @ [(k, v)]) = m"
  by (induction m) (auto simp: mdel_def mget_def AList.delete_eq split: if_splits)

text \<open>
  C17: Setting a fence hides exactly the nexthops inside it, of every route, and forgets nothing:
  what each origin holds is unchanged, and clearing the fence restores the state it found.
\<close>

theorem fence_roundtrip:
  assumes "fenceKey p = Some (key, net)" and "mget (rb_fenced r) key = None"
  defines "r1 \<equiv> fst (SetFence p r)"
  shows "(\<forall>vni q. Advertised vni q r1 =
       filter (\<lambda>nh. case ParseIP nh of None \<Rightarrow> True | Some ip \<Rightarrow> \<not> ipnet_contains net ip) (Advertised vni q r))
     \<and> holds r1 = holds r \<and> fst (ClearFence p r1) = r"
proof -
  have r1: "r1 = r\<lparr>rb_fenced := rb_fenced r @ [(key, net)]\<rparr>"
    using assms by (simp add: r1_def fence_state mput_append)
  have "mdel key (rb_fenced r @ [(key, net)]) = rb_fenced r"
    using assms(2) by (rule mdel_append)
  moreover have "mget (rb_fenced r1) key = Some net"
    using assms(2) by (simp add: r1 mput_append [symmetric])
  ultimately have "fst (ClearFence p r1) = r"
    using assms(1) by (simp add: fence_state r1)
  moreover have "nexthopFenced nh (rb_fenced r @ [(key, net)]) \<longleftrightarrow>
      nexthopFenced nh (rb_fenced r) \<or> (\<exists>ip. ParseIP nh = Some ip \<and> ipnet_contains net ip)" for nh
    by (auto simp: nexthopFenced_def split: option.split)
  then have "Advertised vni q r1 =
      filter (\<lambda>nh. case ParseIP nh of None \<Rightarrow> True | Some ip \<Rightarrow> \<not> ipnet_contains net ip) (Advertised vni q r)" for vni q
    by (simp add: Advertised_def advertised_eq r1) (rule filter_cong, auto split: option.split)
  ultimately show ?thesis by (simp add: r1)
qed

theorem fence_roundtrip_witness:
  "holds (fst (SetFence ''fd00:a::/64'' view_before)) = holds view_before
   \<and> fst (ClearFence ''fd00:a::/64'' (fst (SetFence ''fd00:a::/64'' view_before))) = view_before"
proof -
  have "map_option fst (fenceKey ''fd00:a::/64'') = Some ''fd00:a::/64''" by code_simp
  then obtain net where key: "fenceKey ''fd00:a::/64'' = Some (''fd00:a::/64'', net)" by auto
  have "mget (rb_fenced view_before) ''fd00:a::/64'' = None"
    by (simp add: view_before_def RIB_Announce_def NewRIB_def Let_def)
  from fence_roundtrip [OF key this] show ?thesis by simp
qed

section \<open>Session claims\<close>

lemma token_step:
  "rb_nextToken (fst (rib_step op r)) = rb_nextToken r + (case op of OpClaim _ \<Rightarrow> 1 | _ \<Rightarrow> 0)"
proof (cases op)
  case (OpSubscribe vni s)
  then show ?thesis by (simp add: RIB_Subscribe_def Let_def)
next
  case (OpUnsubscribe vni i)
  then show ?thesis by (simp add: RIB_Unsubscribe_def)
next
  case (OpAnnounce orig vni p nhs ext)
  then show ?thesis by (simp add: RIB_Announce_def Let_def)
next
  case (OpWithdraw orig vni p)
  then show ?thesis by (simp add: RIB_Withdraw_def Let_def withdraw_origin_frame)
next
  case (OpRegisterSink s)
  then show ?thesis by (simp add: RegisterSink_def globalSnapshotLocked_def Let_def split: option.split)
next
  case (OpWithdrawNat orig ip lo hi permit)
  then show ?thesis
    by (cases rule: nat_withdraw_cases [of orig ip lo hi permit r]) (simp_all add: natFanout_def)
next
  case (OpWithdrawPublic orig rec permit)
  then show ?thesis
    by (cases rule: public_withdraw_cases [of orig rec permit r]) (simp_all add: publicFanout_def)
next
  case (OpClaim i)
  then show ?thesis by (simp add: ClaimOrigin_def Let_def dropOriginLocked_fields(7))
next
  case (OpRelease i token)
  then show ?thesis by (simp add: ReleaseOrigin_def dropOriginLocked_fields(7) split: option.split)
qed (auto simp: fence_state nat_announce_state public_announce_state split: option.split)

lemma token_run:
  "\<exists>n \<le> length ops. rb_nextToken (fst (rib_run ops r)) = rb_nextToken r + of_nat n"
proof (induction ops arbitrary: r)
  case (Cons op ops)
  from Cons [of "fst (rib_step op r)"] obtain n where "n \<le> length ops"
      "rb_nextToken (fst (rib_run (op # ops) r)) = rb_nextToken r + (case op of OpClaim _ \<Rightarrow> 1 | _ \<Rightarrow> 0) + of_nat n"
    by (auto simp: rib_run_Cons token_step)
  then show ?case
    by (cases op) (auto intro: exI [of _ n] exI [of _ "Suc n"])
qed simp

text \<open>
  C18: A superseded session cannot tear down its successor: after a newer claim of the same node id,
  the older session's release, with the token it was given, changes nothing and sends nothing.
\<close>

theorem stale_release_noop:
  fixes i :: string and r :: RIB
  assumes "length ops + 1 < 2 ^ 64"
  defines "t1 \<equiv> fst (ClaimOrigin i r)"
    and "r2 \<equiv> fst (rib_run ops (fst (snd (ClaimOrigin i r))))"
  defines "r3 \<equiv> fst (snd (ClaimOrigin i r2))"
  shows "ReleaseOrigin i t1 r3 = (r3, [])"
proof -
  obtain n where n: "n \<le> length ops" "rb_nextToken r2 = rb_nextToken (fst (snd (ClaimOrigin i r))) + of_nat n"
    unfolding r2_def using token_run by blast
  have t1: "rb_nextToken (fst (snd (ClaimOrigin i r))) = t1"
    by (simp add: t1_def ClaimOrigin_def Let_def dropOriginLocked_fields(7))
  have "mget (rb_origins r3) i = Some (rb_nextToken r2 + 1)"
    by (simp add: r3_def ClaimOrigin_def Let_def dropOriginLocked_fields(6))
  moreover have "(of_nat (n + 1) :: u64) \<noteq> 0"
  proof
    assume "(of_nat (n + 1) :: u64) = 0"
    then have "2 ^ 64 dvd n + 1" by (simp only: word_of_nat_eq_0_iff len_of_numeral_defs) simp
    with n(1) assms(1) show False by (auto dest: dvd_imp_le)
  qed
  then have "rb_nextToken r2 + 1 \<noteq> t1" by (simp add: n(2) t1 add.assoc add.commute)
  ultimately show ?thesis by (simp add: ReleaseOrigin_def)
qed

theorem stale_release_noop_witness:
  "ReleaseOrigin ''a'' (fst (ClaimOrigin ''a'' NewRIB))
     (fst (snd (ClaimOrigin ''a'' (fst (rib_run view_ops (fst (snd (ClaimOrigin ''a'' NewRIB))))))))
   = (fst (snd (ClaimOrigin ''a'' (fst (rib_run view_ops (fst (snd (ClaimOrigin ''a'' NewRIB))))))), [])"
  by (rule stale_release_noop) (simp add: view_ops_def)

text \<open>
  C16: When the live session of a node ends, everything it announced and every subscription it had is
  gone, and nothing of any other node is: the other origins' routes, the records they own and the
  other sessions' subscriptions are exactly as before.
\<close>

theorem release_drops_exactly_own:
  assumes "rib_inv r" and "mget (rb_origins r) i = Some token"
  defines "r' \<equiv> fst (ReleaseOrigin i token r)"
  shows "(\<forall>orig k. holds r' orig k = (if orig = i then None else holds r orig k))
     \<and> (\<forall>vni j. mget (mget0 [] (rb_subscribers r') vni) j =
          (if j = i then None else mget (mget0 [] (rb_subscribers r) vni) j))
     \<and> (\<forall>k. owned_by (rb_natOrigin r') (rb_nat r') k = disown i (owned_by (rb_natOrigin r) (rb_nat r)) k)
     \<and> (\<forall>k. owned_by (rb_publicOrigin r') (rb_public r') k = disown i (owned_by (rb_publicOrigin r) (rb_public r)) k)
     \<and> mget (rb_sinks r') = (mget (rb_sinks r))(i := None) \<and> mget (rb_origins r') i = None"
proof -
  have "rib_abs r' = spec_step (OpRelease i token) (rib_abs r)"
    unfolding r'_def using assms(1) by (rule abs_Release)
  then show ?thesis
    using assms(2) by (simp add: rib_abs_def spec_drop_def unhold_def fun_eq_iff)
qed

theorem release_drops_exactly_own_witness:
  "holds (fst (ReleaseOrigin ''a'' 1 (fst (rib_run view_ops (fst (snd (ClaimOrigin ''a'' NewRIB))))))) ''a'' view_key = None"
proof -
  let ?r = "fst (rib_run view_ops (fst (snd (ClaimOrigin ''a'' NewRIB))))"
  have "rib_inv ?r" by (intro rib_inv_run rib_inv_Claim rib_inv_new)
  moreover have "mget (rb_origins ?r) ''a'' = Some 1"
    by code_simp
  ultimately show ?thesis using release_drops_exactly_own [of ?r "''a''" 1] by simp
qed

section \<open>Ownership of the global records\<close>

text \<open>
  C24: A NAT withdraw is applied exactly when a block is stored under the key, the withdrawing origin
  is the one that announced it last and its certificate speaks for the block's owner; it is absent
  exactly when nothing is stored. Refused and absent withdraws change nothing and send nothing; an
  applied one removes that key alone and tells every session on the feed.
\<close>

theorem nat_withdraw_exact:
  assumes "rib_inv r" and "RIB_WithdrawNat orig ip lo hi permit r = (out, r', es)"
  shows "(out = WithdrawAbsent \<longleftrightarrow> mget (rb_nat r) (ip, lo) = None)
     \<and> (out = WithdrawApplied \<longleftrightarrow> (\<exists>b. mget (rb_nat r) (ip, lo) = Some b
          \<and> mget (rb_natOrigin r) (ip, lo) = Some orig \<and> allows permit (nb_OwnerUnderlay b)))
     \<and> (if out = WithdrawApplied
        then mget (rb_nat r') = (mget (rb_nat r))((ip, lo) := None)
           \<and> es = map (\<lambda>(_, s). Send s (NatUpdate (the (mget (rb_nat r) (ip, lo))) ROUTE_OP_WITHDRAW)) (rb_sinks r)
        else r' = r \<and> es = [])"
proof (cases rule: nat_withdraw_cases [of orig ip lo hi permit r])
  case absent
  with assms(2) show ?thesis by auto
next
  case (refused b)
  moreover have "mget (rb_natOrigin r) (ip, lo) = Some (mget0 [] (rb_natOrigin r) (ip, lo))"
    using rib_invD(3) [OF assms(1)] refused(2) by (rule nat_inv_origin)
  ultimately show ?thesis using assms(2) by auto
next
  case (applied b)
  moreover have "mget (rb_natOrigin r) (ip, lo) = Some (mget0 [] (rb_natOrigin r) (ip, lo))"
    using rib_invD(3) [OF assms(1)] applied(2) by (rule nat_inv_origin)
  ultimately show ?thesis
    using assms(2) by (auto simp: natFanout_def natUpdate_def fun_eq_iff)
qed

lemma nat_example_state:
  "rib_inv (fst (RIB_AnnounceNat ''a'' nat_example NewRIB))"
  using rib_inv_step [OF rib_inv_new, of "OpAnnounceNat ''a'' nat_example"] by simp

theorem nat_withdraw_exact_witness:
  "fst (RIB_WithdrawNat ''b'' ''203.0.113.1'' 1024 2048 None (fst (RIB_AnnounceNat ''a'' nat_example NewRIB)))
     \<noteq> WithdrawApplied"
  using nat_withdraw_exact [OF nat_example_state, of "''b''" "''203.0.113.1''" 1024 2048 None]
  by (cases "RIB_WithdrawNat ''b'' ''203.0.113.1'' 1024 2048 None (fst (RIB_AnnounceNat ''a'' nat_example NewRIB))")
    (auto simp: nat_announce_state NewRIB_def nat_example_def nat_key_def)

text \<open>
  C22: A NAT block that changed hands survives its previous owner: after another node announces the
  same key, the first node's withdraw of it is refused, and the end of the first node's session
  leaves it in place, owned by the second.
\<close>

theorem nat_takeover_survives:
  assumes "rib_inv r" and "nat_key b2 = nat_key b1" and "o2 \<noteq> o1"
  defines "r2 \<equiv> fst (RIB_AnnounceNat o2 b2 (fst (RIB_AnnounceNat o1 b1 r)))"
  shows "fst (RIB_WithdrawNat o1 (fst (nat_key b1)) (snd (nat_key b1)) hi permit r2) = WithdrawRefused
     \<and> owned_by (rb_natOrigin (fst (dropOriginLocked o1 r2))) (rb_nat (fst (dropOriginLocked o1 r2))) (nat_key b2)
         = Some (o2, b2)"
proof -
  have inv2: "rib_inv r2"
    using rib_inv_step [OF rib_inv_step [OF assms(1), of "OpAnnounceNat o1 b1"], of "OpAnnounceNat o2 b2"]
    by (simp add: r2_def)
  have stored: "mget (rb_nat r2) (nat_key b1) = Some b2" "mget (rb_natOrigin r2) (nat_key b1) = Some o2"
    by (simp_all add: r2_def nat_announce_state assms(2))
  have "sp_nat (rib_abs (fst (dropOriginLocked o1 r2))) (nat_key b2) = Some (o2, b2)"
    unfolding abs_drop [OF inv2] using stored assms(2,3)
    by (simp add: spec_drop_def disown_def rib_abs_def owned_by_def mget0_def)
  moreover have "fst (RIB_WithdrawNat o1 (fst (nat_key b1)) (snd (nat_key b1)) hi permit r2) = WithdrawRefused"
    using stored assms(3) by (simp add: RIB_WithdrawNat_def Let_def mget0_def)
  ultimately show ?thesis by (simp add: rib_abs_def)
qed

theorem nat_takeover_survives_witness:
  "fst (RIB_WithdrawNat ''a'' ''203.0.113.1'' 1024 2048 None
     (fst (RIB_AnnounceNat ''b'' (nat_example\<lparr>nb_OwnerUnderlay := ''fd00::b''\<rparr>)
       (fst (RIB_AnnounceNat ''a'' nat_example NewRIB))))) = WithdrawRefused"
proof -
  have "nat_key (nat_example\<lparr>nb_OwnerUnderlay := ''fd00::b''\<rparr>) = nat_key nat_example"
    by (simp add: nat_key_def)
  from nat_takeover_survives [OF rib_inv_new this, of "''b''" "''a''" 2048 None]
  show ?thesis by (simp add: nat_key_def nat_example_def)
qed

text \<open>
  The same for public records: a withdraw is applied exactly for the record's announcer with a
  certificate that speaks for the stored owner; otherwise the table is untouched.
\<close>

theorem public_withdraw_exact:
  assumes "rib_inv r" and "RIB_WithdrawPublic orig rec permit r = (out, r', es)"
  shows "(out = WithdrawAbsent \<longleftrightarrow> mget (rb_public r) (public_key rec) = None)
     \<and> (out = WithdrawApplied \<longleftrightarrow> (\<exists>b. mget (rb_public r) (public_key rec) = Some b
          \<and> mget (rb_publicOrigin r) (public_key rec) = Some orig \<and> allows permit (pr_OwnerUnderlay b)))
     \<and> (if out = WithdrawApplied then mget (rb_public r') = (mget (rb_public r))(public_key rec := None)
        else r' = r \<and> es = [])"
proof (cases rule: public_withdraw_cases [of orig rec permit r])
  case absent
  with assms(2) show ?thesis by auto
next
  case (refused b)
  moreover have "mget (rb_publicOrigin r) (public_key rec) = Some (mget0 [] (rb_publicOrigin r) (public_key rec))"
    using rib_invD(4) [OF assms(1)] refused(2) by (rule public_inv_origin)
  ultimately show ?thesis using assms(2) by auto
next
  case (applied b)
  moreover have "mget (rb_publicOrigin r) (public_key rec) = Some (mget0 [] (rb_publicOrigin r) (public_key rec))"
    using rib_invD(4) [OF assms(1)] applied(2) by (rule public_inv_origin)
  ultimately show ?thesis
    using assms(2) by (auto simp: publicFanout_def fun_eq_iff)
qed

definition public_example :: PublicRecord where
  "public_example = \<lparr>pr_Kind = PUBLIC_KIND_LB_IP, pr_Prefix = ''203.0.113.9/32'', pr_OwnerUnderlay = ''fd00::a'',
     pr_Vni = 7, pr_PortMin = 0, pr_PortMax = 0, pr_OverlayIP = ''10.0.0.1'', pr_Ports = []\<rparr>"

theorem public_withdraw_exact_witness:
  "fst (RIB_WithdrawPublic ''b'' public_example None (fst (RIB_AnnouncePublic ''a'' public_example NewRIB)))
     \<noteq> WithdrawApplied"
proof -
  have "rib_inv (fst (RIB_AnnouncePublic ''a'' public_example NewRIB))"
    using rib_inv_step [OF rib_inv_new, of "OpAnnouncePublic ''a'' public_example"] by simp
  from public_withdraw_exact [OF this, of "''b''" public_example None] show ?thesis
    by (cases "RIB_WithdrawPublic ''b'' public_example None (fst (RIB_AnnouncePublic ''a'' public_example NewRIB))")
      (auto simp: public_announce_state NewRIB_def)
qed

section \<open>Routes still announced from inside a prefix\<close>

lemma set_holdersWithin:
  assumes "routes_inv r"
  shows "h \<in> set (holdersWithin k asked nets r) \<longleftrightarrow>
     rh_Key h = asked \<and> (\<exists>nhs. holds r (rh_Origin h) k = Some nhs \<and> rh_Nexthop h \<in> set nhs) \<and> nexthopFenced (rh_Nexthop h) nets"
proof -
  let ?os = "re_origins (mget0 no_entry (rb_routes r) k)"
  have "h \<in> set (holdersWithin k asked nets r) \<longleftrightarrow> (\<exists>i nh. h = \<lparr>rh_Key = asked, rh_Origin = i, rh_Nexthop = nh\<rparr>
      \<and> mget ?os i \<noteq> None \<and> nh \<in> set (mget0 [] ?os i) \<and> nexthopFenced nh nets)"
    by (auto simp: holdersWithin_def Let_def mkeys_iff)
  also have "\<dots> \<longleftrightarrow> rh_Key h = asked \<and> mget ?os (rh_Origin h) \<noteq> None
      \<and> rh_Nexthop h \<in> set (mget0 [] ?os (rh_Origin h)) \<and> nexthopFenced (rh_Nexthop h) nets"
    by (cases h) auto
  finally show ?thesis by (auto simp: holds_def mget0_def split: option.splits)
qed

lemma first_holders_sound:
  "h \<in> set (first_holders ks asked nets r) \<Longrightarrow> \<exists>k \<in> set ks. h \<in> set (holdersWithin k asked nets r)"
  by (induction ks) (auto simp: Let_def split: if_splits)

lemma first_holders_complete:
  "first_holders ks asked nets r = [] \<longleftrightarrow> (\<forall>k \<in> set ks. holdersWithin k asked nets r = [])"
  by (induction ks) (auto simp: Let_def)

lemma set_announced_loop:
  "set (announced_loop keys seen nets r) =
     (\<Union>asked \<in> set keys - set seen. set (first_holders (spellings asked) asked nets r))"
  by (induction keys arbitrary: seen) (auto simp: sput_def split: if_splits)



section \<open>A change the subscribers do not hear of\<close>

lemma mput_same: "mget m k = Some v \<Longrightarrow> mput k v m = m"
  by (induction m) (auto simp: mput_def mget_def split: if_splits)

text \<open>
  C40: Announcing a route again with the same nexthops is never fanned out, even when the external
  flag changes: the table stores the new flag, subscribers keep the one they were sent.
\<close>

theorem external_change_silent:
  assumes "holds r orig (vni, p) = Some nhs"
  shows "snd (RIB_Announce orig vni p nhs ext r) = []
     \<and> re_external (mget0 no_entry (rb_routes (fst (RIB_Announce orig vni p nhs ext r))) (vni, p)) = ext"
  using assms by (simp add: RIB_Announce_def Let_def holds_def mput_same fanoutChange_def advertised_eq)

theorem external_change_silent_witness:
  "snd (RIB_Announce ''a'' 7 ''10.0.0.1/32'' [''fd00::a''] True view_before) = []
     \<and> re_external (mget0 no_entry (rb_routes view_before) view_key) = False"
proof -
  have "holds view_before ''a'' (7, ''10.0.0.1/32'') = Some [''fd00::a'']"
    by (simp add: view_before_def holds_Announce)
  from external_change_silent [OF this] show ?thesis
    by (simp add: view_before_def view_key_def announce_routes Let_def)
qed

end
