(* ===== verification/Portblock.thy ===== *)
theory Portblock
  imports Prelude
begin

text \<open>
  The egress SNAT allocator (\<^verbatim>\<open>mesh/allocator/portblock.go\<close>): disjoint, stable port blocks on a pool
  of public addresses. \<^verbatim>\<open>int32\<close> values are integers; where the code's arithmetic can leave the range
  the wrap-around is written out (\<open>i32\<close>). Go's truncating division is only reached with a
  non-negative dividend and a positive divisor, where it is \<^term>\<open>(div)\<close>.
\<close>

section \<open>Definitions\<close>

definition i32 :: "int \<Rightarrow> int" where
  "i32 x = signed_take_bit 31 x"

definition firstUsablePort :: int where
  "firstUsablePort = 1024"

definition lastUsablePort :: int where
  "lastUsablePort = 65535"

record Block =
  bk_PublicIP :: string
  bk_PortMin :: int
  bk_PortMax :: int

record Allocator =
  al_ips :: "string list"
  al_size :: int
  al_blocksPerIP :: int
  al_used :: "int goset"
  al_assigned :: "(string, Block) gomap"

definition New :: "string list \<Rightarrow> int \<Rightarrow> Allocator" where
  "New ips n = \<lparr>al_ips = ips, al_size = n,
     al_blocksPerIP = (if n > 0 then (lastUsablePort - firstUsablePort + 1) div n else 0),
     al_used = [], al_assigned = []\<rparr>"

definition al_total :: "Allocator \<Rightarrow> int" where
  "al_total a = i32 (i32 (int (length (al_ips a))) * al_blocksPerIP a)"

fun index_of :: "string list \<Rightarrow> string \<Rightarrow> nat option" where
  "index_of [] x = None"
| "index_of (y # ys) x = (if y = x then Some 0 else map_option Suc (index_of ys x))"

definition blockToIndex :: "Allocator \<Rightarrow> Block \<Rightarrow> int option" where
  "blockToIndex a b =
     (if al_blocksPerIP a = 0 \<or> al_size a = 0 then None
      else (case index_of (al_ips a) (bk_PublicIP b) of
              None \<Rightarrow> None
            | Some i \<Rightarrow>
                let ipIdx = i32 (int i); off = i32 (bk_PortMin b - firstUsablePort) in
                if off < 0 \<or> off mod al_size a \<noteq> 0 then None
                else let blockInIP = off div al_size a in
                     if blockInIP \<ge> al_blocksPerIP a then None
                     else Some (i32 (ipIdx * al_blocksPerIP a + blockInIP))))"

definition blockAt :: "Allocator \<Rightarrow> int \<Rightarrow> Block" where
  "blockAt a idx =
     (let portMin = i32 (firstUsablePort + (idx mod al_blocksPerIP a) * al_size a)
      in \<lparr>bk_PublicIP = al_ips a ! nat (idx div al_blocksPerIP a), bk_PortMin = portMin,
          bk_PortMax = i32 (portMin + al_size a - 1)\<rparr>)"

definition Preassign :: "string \<Rightarrow> Block \<Rightarrow> Allocator \<Rightarrow> Allocator" where
  "Preassign source b a = (case blockToIndex a b of
     None \<Rightarrow> a
   | Some idx \<Rightarrow> if idx \<in> set (al_used a) then a
       else a\<lparr>al_used := sput idx (al_used a), al_assigned := mput source (blockAt a idx) (al_assigned a)\<rparr>)"

text \<open>The lowest index from \<open>i\<close> up that is not used, below the total.\<close>

function first_unused :: "int \<Rightarrow> int \<Rightarrow> int goset \<Rightarrow> int option" where
  "first_unused i n used =
     (if i \<ge> n then None else if i \<notin> set used then Some i else first_unused (i + 1) n used)"
  by pat_completeness auto
termination by (relation "measure (\<lambda>(i, n, _). nat (n - i))") auto

declare first_unused.simps [simp del]

definition Assign :: "string \<Rightarrow> Allocator \<Rightarrow> Block option \<times> Allocator" where
  "Assign source a = (case mget (al_assigned a) source of
     Some b \<Rightarrow> (Some b, a)
   | None \<Rightarrow>
       let n = al_total a in
       if n = 0 then (None, a)
       else (case first_unused 0 n (al_used a) of
               None \<Rightarrow> (None, a)
             | Some idx \<Rightarrow>
                 let b = blockAt a idx
                 in (Some b, a\<lparr>al_used := sput idx (al_used a), al_assigned := mput source b (al_assigned a)\<rparr>)))"

datatype alloc_op = OpPreassign string Block | OpAssign string

fun alloc_step :: "alloc_op \<Rightarrow> Allocator \<Rightarrow> Allocator" where
  "alloc_step (OpPreassign s b) a = Preassign s b a"
| "alloc_step (OpAssign s) a = snd (Assign s a)"

section \<open>The block layout\<close>

text \<open>
  A pool that fits: distinct addresses, a positive block size, and fewer blocks than \<^verbatim>\<open>int32\<close> can count.
\<close>

definition pool_ok :: "Allocator \<Rightarrow> bool" where
  "pool_ok a \<longleftrightarrow> distinct (al_ips a) \<and> 0 < al_size a
     \<and> al_blocksPerIP a = (lastUsablePort - firstUsablePort + 1) div al_size a
     \<and> int (length (al_ips a)) * 64512 < 2 ^ 31"

lemma i32_id: "- (2 ^ 31) \<le> x \<Longrightarrow> x < 2 ^ 31 \<Longrightarrow> i32 x = x"
  by (simp add: i32_def signed_take_bit_int_eq_self)

lemma i32_range: "- (2 ^ 31) \<le> i32 x" "i32 x < 2 ^ 31"
  unfolding i32_def
  using signed_take_bit_int_greater_eq_minus_exp [of 31 x] signed_take_bit_int_less_exp [of 31 x] by simp_all

lemma pool_bounds:
  assumes "pool_ok a"
  shows "0 \<le> al_blocksPerIP a" "al_blocksPerIP a * al_size a \<le> 64512" "al_blocksPerIP a \<le> 64512"
proof -
  have B: "al_blocksPerIP a = 64512 div al_size a" and S: "0 < al_size a"
    using assms by (simp_all add: pool_ok_def lastUsablePort_def firstUsablePort_def)
  show "0 \<le> al_blocksPerIP a" using S B by (simp add: pos_imp_zdiv_nonneg_iff)
  show "al_blocksPerIP a * al_size a \<le> 64512"
    unfolding B using div_mult_mod_eq [of 64512 "al_size a"] pos_mod_sign [OF S, of 64512] by linarith
  show "al_blocksPerIP a \<le> 64512"
    unfolding B using S zdiv_mono2 [of 64512 1 "al_size a"] by simp
qed

lemma total_eq:
  assumes "pool_ok a"
  shows "al_total a = int (length (al_ips a)) * al_blocksPerIP a"
proof -
  let ?n = "int (length (al_ips a))"
  have n: "?n * 64512 < 2 ^ 31" using assms by (simp add: pool_ok_def)
  have "?n * al_blocksPerIP a \<le> ?n * 64512"
    using pool_bounds [OF assms] by (intro mult_left_mono) auto
  with n have 1: "?n * al_blocksPerIP a < 2 ^ 31" by linarith
  have 2: "0 \<le> ?n * al_blocksPerIP a" using pool_bounds [OF assms] by simp
  have "i32 ?n = ?n" using n by (intro i32_id) linarith+
  with 1 2 show ?thesis unfolding al_total_def by (simp add: i32_id)
qed

lemma index_of_nth: "distinct xs \<Longrightarrow> i < length xs \<Longrightarrow> index_of xs (xs ! i) = Some i"
  by (induction xs arbitrary: i) (auto simp: nth_Cons split: nat.split)

lemma index_of_Some: "index_of xs x = Some i \<Longrightarrow> i < length xs \<and> xs ! i = x"
  by (induction xs arbitrary: i) (auto split: if_splits)

lemma div_below:
  assumes "0 < (b :: int)" and "x < n * b"
  shows "x div b < n"
proof (rule ccontr)
  assume "\<not> x div b < n"
  then have "n * b \<le> (x div b) * b" using assms(1) by (intro mult_right_mono) auto
  also have "\<dots> \<le> x" using div_mult_mod_eq [of x b] pos_mod_sign [OF assms(1), of x] by linarith
  finally show False using assms(2) by simp
qed

text \<open>The fields of the block at an index of the pool.\<close>

lemma blockAt_fields:
  assumes "pool_ok a" and "0 \<le> idx" and "idx < al_total a"
  shows "bk_PublicIP (blockAt a idx) = al_ips a ! nat (idx div al_blocksPerIP a)"
    and "nat (idx div al_blocksPerIP a) < length (al_ips a)"
    and "bk_PortMin (blockAt a idx) = 1024 + (idx mod al_blocksPerIP a) * al_size a"
    and "bk_PortMax (blockAt a idx) = bk_PortMin (blockAt a idx) + al_size a - 1"
    and "1024 \<le> bk_PortMin (blockAt a idx)" and "bk_PortMax (blockAt a idx) \<le> 65535"
proof -
  let ?B = "al_blocksPerIP a" and ?S = "al_size a"
  have tot: "idx < int (length (al_ips a)) * ?B" using assms total_eq by simp
  then have B: "0 < ?B" using assms(2) pool_bounds(1) [OF assms(1)] by (cases "?B = 0") auto
  have S: "0 < ?S" using assms(1) by (simp add: pool_ok_def)
  have r: "0 \<le> idx mod ?B" "idx mod ?B + 1 \<le> ?B" using pos_mod_bound [OF B, of idx] pos_mod_sign [OF B, of idx] by linarith+
  have "(idx mod ?B + 1) * ?S \<le> ?B * ?S" using r(2) S by (intro mult_right_mono) auto
  then have top: "(idx mod ?B) * ?S + ?S \<le> 64512"
    using pool_bounds(2) [OF assms(1)] by (simp add: algebra_simps)
  have low: "0 \<le> (idx mod ?B) * ?S" using r(1) S by simp
  have min: "i32 (1024 + (idx mod ?B) * ?S) = 1024 + (idx mod ?B) * ?S"
    using top low S by (intro i32_id) auto
  show "bk_PublicIP (blockAt a idx) = al_ips a ! nat (idx div ?B)"
    by (simp add: blockAt_def Let_def)
  show "nat (idx div ?B) < length (al_ips a)"
    using div_below [OF B tot] B assms(2) by (simp add: nat_less_iff pos_imp_zdiv_nonneg_iff)
  show 1: "bk_PortMin (blockAt a idx) = 1024 + (idx mod ?B) * ?S"
    by (simp add: blockAt_def Let_def firstUsablePort_def min)
  have "i32 (1024 + (idx mod ?B) * ?S + ?S - 1) = 1024 + (idx mod ?B) * ?S + ?S - 1"
    using top low S by (intro i32_id) auto
  then show 2: "bk_PortMax (blockAt a idx) = bk_PortMin (blockAt a idx) + ?S - 1"
    by (simp add: blockAt_def Let_def firstUsablePort_def min)
  show "1024 \<le> bk_PortMin (blockAt a idx)" using 1 low by simp
  show "bk_PortMax (blockAt a idx) \<le> 65535" using 1 2 top by simp
qed

text \<open>Different indices give blocks that do not meet.\<close>

definition blocks_disjoint :: "Block \<Rightarrow> Block \<Rightarrow> bool" where
  "blocks_disjoint b c \<longleftrightarrow> bk_PublicIP b \<noteq> bk_PublicIP c \<or> bk_PortMax b < bk_PortMin c \<or> bk_PortMax c < bk_PortMin b"

lemma blocks_apart:
  assumes "pool_ok a" and "0 \<le> i" "i < al_total a" and "0 \<le> j" "j < al_total a" and "i \<noteq> j"
  shows "blocks_disjoint (blockAt a i) (blockAt a j)"
proof (cases "i div al_blocksPerIP a = j div al_blocksPerIP a")
  case True
  then have "i mod al_blocksPerIP a \<noteq> j mod al_blocksPerIP a"
    using assms(6) by (metis div_mult_mod_eq)
  then consider "i mod al_blocksPerIP a + 1 \<le> j mod al_blocksPerIP a" | "j mod al_blocksPerIP a + 1 \<le> i mod al_blocksPerIP a"
    by linarith
  moreover have "0 < al_size a" using assms(1) by (simp add: pool_ok_def)
  ultimately show ?thesis
  proof cases
    case 1
    then have "(i mod al_blocksPerIP a + 1) * al_size a \<le> (j mod al_blocksPerIP a) * al_size a"
      using \<open>0 < al_size a\<close> by (intro mult_right_mono) auto
    then show ?thesis
      by (simp add: blocks_disjoint_def blockAt_fields(3,4) [OF assms(1)] assms(2-5) algebra_simps)
  next
    case 2
    then have "(j mod al_blocksPerIP a + 1) * al_size a \<le> (i mod al_blocksPerIP a) * al_size a"
      using \<open>0 < al_size a\<close> by (intro mult_right_mono) auto
    then show ?thesis
      by (simp add: blocks_disjoint_def blockAt_fields(3,4) [OF assms(1)] assms(2-5) algebra_simps)
  qed
next
  case False
  have "0 \<le> k div al_blocksPerIP a" if "0 \<le> k" for k
    using that pool_bounds(1) [OF assms(1)] by (simp add: div_int_pos_iff)
  with False assms have "nat (i div al_blocksPerIP a) \<noteq> nat (j div al_blocksPerIP a)" by (simp add: eq_nat_nat_iff)
  moreover have "distinct (al_ips a)" using assms(1) by (simp add: pool_ok_def)
  ultimately show ?thesis
    using blockAt_fields(1,2) [OF assms(1-3)] blockAt_fields(1,2) [OF assms(1,4,5)]
    by (simp add: blocks_disjoint_def nth_eq_iff_index_eq)
qed

lemma index_roundtrip:
  assumes "pool_ok a" and "0 \<le> idx" and "idx < al_total a"
  shows "blockToIndex a (blockAt a idx) = Some idx"
proof -
  let ?B = "al_blocksPerIP a" and ?S = "al_size a" and ?i = "nat (idx div al_blocksPerIP a)"
  note f = blockAt_fields [OF assms]
  have S: "0 < ?S" using assms(1) by (simp add: pool_ok_def)
  have tot: "al_total a = int (length (al_ips a)) * ?B" by (rule total_eq [OF assms(1)])
  have B: "0 < ?B" using assms(2,3) tot pool_bounds(1) [OF assms(1)] by (cases "?B = 0") auto
  have i: "index_of (al_ips a) (bk_PublicIP (blockAt a idx)) = Some ?i"
    unfolding f(1) using assms(1) f(2) by (intro index_of_nth) (auto simp: pool_ok_def)
  have lt: "int (length (al_ips a)) * 64512 < 2 ^ 31" using assms(1) by (simp add: pool_ok_def)
  then have ii: "i32 (int ?i) = int ?i" using f(2) by (intro i32_id) linarith+
  have off: "i32 (bk_PortMin (blockAt a idx) - firstUsablePort) = (idx mod ?B) * ?S"
  proof -
    have "0 \<le> (idx mod ?B) * ?S" using S B by simp
    moreover have "(idx mod ?B) * ?S \<le> 65535" using f(3,4,6) S by linarith
    ultimately show ?thesis unfolding f(3) firstUsablePort_def by (simp add: i32_id)
  qed
  have idx: "int ?i * ?B + idx mod ?B = idx"
    using B assms(2) by (simp add: pos_imp_zdiv_nonneg_iff)
  have "int (length (al_ips a)) * ?B \<le> int (length (al_ips a)) * 64512"
    using pool_bounds(3) [OF assms(1)] by (intro mult_left_mono) auto
  then have "i32 idx = idx" using assms(2,3) tot lt by (intro i32_id) linarith+
  moreover have "\<not> (idx mod ?B) * ?S < 0" using S B by (simp add: not_less)
  ultimately show ?thesis
    using i ii off S B pos_mod_sign [OF B, of idx] pos_mod_bound [OF B, of idx] idx
    by (simp add: blockToIndex_def Let_def)
qed

lemma blockToIndex_range:
  assumes "pool_ok a" and "blockToIndex a b = Some idx"
  shows "0 \<le> idx \<and> idx < al_total a"
proof -
  let ?B = "al_blocksPerIP a" and ?n = "int (length (al_ips a))"
  have S: "0 < al_size a" and lt: "?n * 64512 < 2 ^ 31" using assms(1) by (simp_all add: pool_ok_def)
  define off where "off = i32 (bk_PortMin b - firstUsablePort)"
  from assms(2) obtain i where i: "index_of (al_ips a) (bk_PublicIP b) = Some i"
    and off: "0 \<le> off" "off div al_size a < ?B" and idx: "idx = i32 (i32 (int i) * ?B + off div al_size a)"
    by (auto simp: blockToIndex_def Let_def off_def [symmetric] split: option.splits if_splits)
  have i_lt: "i < length (al_ips a)" using index_of_Some [OF i] by simp
  then have ii: "i32 (int i) = int i" using lt by (intro i32_id) linarith+
  have "(int i + 1) * ?B \<le> ?n * ?B"
    using i_lt pool_bounds(1) [OF assms(1)] by (intro mult_right_mono) auto
  then have hi: "int i * ?B + off div al_size a < ?n * ?B" using off(2) by (simp add: algebra_simps)
  have lo: "0 \<le> int i * ?B + off div al_size a"
    using off(1) S pool_bounds(1) [OF assms(1)] by (simp add: pos_imp_zdiv_nonneg_iff)
  have "?n * ?B \<le> ?n * 64512" using pool_bounds(3) [OF assms(1)] by (intro mult_left_mono) auto
  with hi lo lt have "i32 (int i * ?B + off div al_size a) = int i * ?B + off div al_size a"
    by (intro i32_id) linarith+
  with hi lo idx ii total_eq [OF assms(1)] show ?thesis by simp
qed

section \<open>Invariant\<close>

text \<open>Every assigned block sits at a used index of the pool, and no two sources share one.\<close>

definition alloc_inv :: "Allocator \<Rightarrow> bool" where
  "alloc_inv a \<longleftrightarrow> (\<forall>i \<in> set (al_used a). 0 \<le> i \<and> i < al_total a)
     \<and> (\<forall>s b. mget (al_assigned a) s = Some b \<longrightarrow> (\<exists>i \<in> set (al_used a). b = blockAt a i))
     \<and> (\<forall>s t b c. mget (al_assigned a) s = Some b \<longrightarrow> mget (al_assigned a) t = Some c \<longrightarrow> s \<noteq> t \<longrightarrow> blocks_disjoint b c)"

lemma alloc_inv_block:
  "alloc_inv a \<Longrightarrow> mget (al_assigned a) s = Some b \<Longrightarrow> \<exists>i. 0 \<le> i \<and> i < al_total a \<and> b = blockAt a i"
  unfolding alloc_inv_def by blast

lemma blockAt_cong [simp]:
  "blockAt (a\<lparr>al_used := u, al_assigned := m\<rparr>) = blockAt a"
  "al_total (a\<lparr>al_used := u, al_assigned := m\<rparr>) = al_total a"
  "pool_ok (a\<lparr>al_used := u, al_assigned := m\<rparr>) = pool_ok a"
  by (simp_all add: blockAt_def al_total_def pool_ok_def fun_eq_iff)

lemma disjoint_sym: "blocks_disjoint b c \<longleftrightarrow> blocks_disjoint c b"
  by (auto simp: blocks_disjoint_def)

lemma alloc_inv_take:
  assumes "pool_ok a" and "alloc_inv a" and "0 \<le> i" "i < al_total a" and "i \<notin> set (al_used a)"
  shows "alloc_inv (a\<lparr>al_used := sput i (al_used a), al_assigned := mput s (blockAt a i) (al_assigned a)\<rparr>)"
proof -
  have apart: "blocks_disjoint (blockAt a i) b" if "mget (al_assigned a) t = Some b" for t b
  proof -
    from that assms(2) obtain j where "j \<in> set (al_used a)" "b = blockAt a j" "0 \<le> j" "j < al_total a"
      unfolding alloc_inv_def by blast
    with assms show ?thesis by (auto intro: blocks_apart)
  qed
  show ?thesis
    using assms(2-4) apart disjoint_sym unfolding alloc_inv_def by (auto split: if_splits)
qed

lemma first_unused_Some: "first_unused i n used = Some k \<Longrightarrow>
   i \<le> k \<and> k < n \<and> k \<notin> set used \<and> (\<forall>j. i \<le> j \<and> j < k \<longrightarrow> j \<in> set used)"
proof (induction i n used rule: first_unused.induct)
  case (1 i n used)
  show ?case
  proof (cases "i \<ge> n \<or> i \<notin> set used")
    case True
    with "1.prems" show ?thesis by (auto simp: first_unused.simps [of i] split: if_splits)
  next
    case False
    with "1.prems" "1.IH" have "i + 1 \<le> k \<and> k < n \<and> k \<notin> set used \<and> (\<forall>j. i + 1 \<le> j \<and> j < k \<longrightarrow> j \<in> set used)"
      by (simp add: first_unused.simps [of i])
    with False show ?thesis by (metis add.commute less_le not_less zless_add1_eq add1_zle_eq)
  qed
qed

lemma first_unused_None: "first_unused i n used = None \<longleftrightarrow> (\<forall>j. i \<le> j \<and> j < n \<longrightarrow> j \<in> set used)"
proof (induction i n used rule: first_unused.induct)
  case (1 i n used)
  show ?case
  proof (cases "i \<ge> n \<or> i \<notin> set used")
    case True
    then show ?thesis by (auto simp: first_unused.simps [of i])
  next
    case False
    with 1 have "first_unused i n used = None \<longleftrightarrow> (\<forall>j. i + 1 \<le> j \<and> j < n \<longrightarrow> j \<in> set used)"
      by (simp add: first_unused.simps [of i])
    with False show ?thesis by (metis add1_zle_eq le_less)
  qed
qed

lemma alloc_inv_Preassign: "pool_ok a \<Longrightarrow> alloc_inv a \<Longrightarrow> alloc_inv (Preassign s b a) \<and> pool_ok (Preassign s b a)"
  using blockToIndex_range [of a b] by (auto simp: Preassign_def intro: alloc_inv_take split: option.split)

lemma alloc_inv_Assign: "pool_ok a \<Longrightarrow> alloc_inv a \<Longrightarrow> alloc_inv (snd (Assign s a)) \<and> pool_ok (snd (Assign s a))"
  using first_unused_Some [of 0 "al_total a" "al_used a"]
  by (auto simp: Assign_def Let_def intro: alloc_inv_take split: option.split)

lemma alloc_inv_step: "pool_ok a \<Longrightarrow> alloc_inv a \<Longrightarrow> alloc_inv (alloc_step op a) \<and> pool_ok (alloc_step op a)"
  by (cases op) (simp_all add: alloc_inv_Preassign alloc_inv_Assign)

lemma alloc_inv_run: "pool_ok a \<Longrightarrow> alloc_inv a \<Longrightarrow> alloc_inv (fold alloc_step ops a) \<and> pool_ok (fold alloc_step ops a)"
  by (induction ops arbitrary: a) (auto simp: alloc_inv_step)

lemma alloc_inv_New: "alloc_inv (New ips n)"
  by (simp add: alloc_inv_def New_def)

lemma pool_ok_New: "distinct ips \<Longrightarrow> 0 < n \<Longrightarrow> int (length ips) * 64512 < 2 ^ 31 \<Longrightarrow> pool_ok (New ips n)"
  by (simp add: pool_ok_def New_def)

lemma alloc_frame:
  "al_size (alloc_step op a) = al_size a" "al_ips (alloc_step op a) = al_ips a"
  "al_blocksPerIP (alloc_step op a) = al_blocksPerIP a"
  by (cases op; simp add: Preassign_def Assign_def Let_def split: option.split)+

lemma alloc_frame_run:
  "al_size (fold alloc_step ops a) = al_size a" "al_ips (fold alloc_step ops a) = al_ips a"
  by (induction ops arbitrary: a) (simp_all add: alloc_frame)

lemma blocks_disjoint_run_bounds:
  assumes "alloc_inv a" and "pool_ok a" and "mget (al_assigned a) s = Some b"
  shows "bk_PortMin b \<le> bk_PortMax b"
proof -
  from alloc_inv_block [OF assms(1,3)] obtain i where "0 \<le> i" "i < al_total a" "b = blockAt a i" by blast
  with blockAt_fields(4) [OF assms(2)] assms(2) show ?thesis by (auto simp: pool_ok_def)
qed

section \<open>Stability\<close>

fun leaves_source :: "string \<Rightarrow> alloc_op \<Rightarrow> bool" where
  "leaves_source s (OpPreassign t b) = (t \<noteq> s)"
| "leaves_source s (OpAssign t) = True"

lemma assigned_step:
  "mget (al_assigned a) s = Some b \<Longrightarrow> leaves_source s op \<Longrightarrow> mget (al_assigned (alloc_step op a)) s = Some b"
  by (cases op) (auto simp: Preassign_def Assign_def Let_def split: option.split)

lemma assigned_run:
  "mget (al_assigned a) s = Some b \<Longrightarrow> list_all (leaves_source s) ops \<Longrightarrow>
     mget (al_assigned (fold alloc_step ops a)) s = Some b"
  by (induction ops arbitrary: a) (auto simp: assigned_step)

section \<open>Restoring from the persisted status\<close>

definition reseed :: "(string, Block) gomap \<Rightarrow> Allocator \<Rightarrow> Allocator" where
  "reseed m a = fold (\<lambda>(s, b). Preassign s b) m a"

text \<open>The blocks still to seed are all at free indices of the pool and apart from one another.\<close>

definition seeds_ok :: "(string, Block) gomap \<Rightarrow> Allocator \<Rightarrow> bool" where
  "seeds_ok m a \<longleftrightarrow> mwf m
     \<and> (\<forall>s b. mget m s = Some b \<longrightarrow> (\<exists>i. 0 \<le> i \<and> i < al_total a \<and> b = blockAt a i \<and> i \<notin> set (al_used a)))
     \<and> (\<forall>s t b c. mget m s = Some b \<longrightarrow> mget m t = Some c \<longrightarrow> s \<noteq> t \<longrightarrow> b \<noteq> c)"

lemma reseed_gives:
  assumes "pool_ok a" and "seeds_ok m a"
  shows "mget (al_assigned (reseed m a)) s = (case mget m s of Some b \<Rightarrow> Some b | None \<Rightarrow> mget (al_assigned a) s)"
  using assms
proof (induction m arbitrary: a)
  case (Cons x m)
  obtain t b where x: "x = (t, b)" by (cases x)
  have get: "mget (x # m) u = (if u = t then Some b else mget m u)" for u
    by (auto simp: x mget_def)
  obtain i where i: "0 \<le> i" "i < al_total a" "b = blockAt a i" "i \<notin> set (al_used a)"
    using Cons.prems(2) get [of t] unfolding seeds_ok_def by auto
  have step: "Preassign t b a = a\<lparr>al_used := sput i (al_used a), al_assigned := mput t b (al_assigned a)\<rparr>"
    using index_roundtrip [OF Cons.prems(1) i(1,2)] i(3,4) by (simp add: Preassign_def)
  have t: "mget m t = None" and wf: "mwf m"
    using Cons.prems(2) by (auto simp: seeds_ok_def mwf_def x mget_def map_of_eq_None_iff)
  have "seeds_ok m (Preassign t b a)"
    unfolding seeds_ok_def
  proof (intro conjI allI impI)
    fix u c assume u: "mget m u = Some c"
    then have "u \<noteq> t" using t by auto
    with u have "mget (x # m) u = Some c" "b \<noteq> c"
      using Cons.prems(2) get unfolding seeds_ok_def by force+
    then obtain j where "0 \<le> j" "j < al_total a" "c = blockAt a j" "j \<notin> set (al_used a)" "j \<noteq> i"
      using Cons.prems(2) i(3) unfolding seeds_ok_def by metis
    then show "\<exists>j. 0 \<le> j \<and> j < al_total (Preassign t b a) \<and> c = blockAt (Preassign t b a) j
        \<and> j \<notin> set (al_used (Preassign t b a))"
      by (intro exI [of _ j]) (simp add: step)
  next
    fix u v c d assume "mget m u = Some c" "mget m v = Some d" "u \<noteq> v"
    with t have "mget (x # m) u = Some c" "mget (x # m) v = Some d" by (auto simp: get)
    with \<open>u \<noteq> v\<close> show "c \<noteq> d" using Cons.prems(2) unfolding seeds_ok_def by blast
  qed (rule wf)
  moreover have "pool_ok (Preassign t b a)" using Cons.prems(1) by (simp add: step)
  ultimately have "mget (al_assigned (reseed m (Preassign t b a))) s =
      (case mget m s of Some b \<Rightarrow> Some b | None \<Rightarrow> mget (al_assigned (Preassign t b a)) s)"
    by (intro Cons.IH)
  then show ?case
    using t by (auto simp: reseed_def x get [unfolded x] step split: option.split)
qed (simp add: reseed_def)

lemma mget_set_eq:
  assumes "mwf m" and "mwf m'" and "set m' = set m"
  shows "mget m' = mget m"
proof
  fix k
  show "mget m' k = mget m k"
    using mget_iff [OF assms(1), of k] mget_iff [OF assms(2), of k] assms(3)
    by (cases "mget m' k"; cases "mget m k") auto
qed

section \<open>Properties\<close>


definition pool_ops :: "alloc_op list" where
  "pool_ops = [OpPreassign ''10.0.0.9'' \<lparr>bk_PublicIP = ''203.0.113.1'', bk_PortMin = 33280, bk_PortMax = 65535\<rparr>,
     OpAssign ''10.0.0.1'', OpAssign ''10.0.0.2'']"


text \<open>
  A source keeps its block: once it has one, no assignment of any source and no seeding of
  another source changes it, and asking again returns it and changes nothing.
\<close>

theorem block_stable:
  assumes "mget (al_assigned a) s = Some b" and "list_all (leaves_source s) ops"
  shows "Assign s (fold alloc_step ops a) = (Some b, fold alloc_step ops a)"
  using assigned_run [OF assms] by (simp add: Assign_def)

theorem block_stable_witness:
  "Assign ''10.0.0.9'' (fold alloc_step (tl pool_ops) (alloc_step (hd pool_ops) (New [''203.0.113.1''] 32256))) =
     (Some \<lparr>bk_PublicIP = ''203.0.113.1'', bk_PortMin = 33280, bk_PortMax = 65535\<rparr>,
      fold alloc_step (tl pool_ops) (alloc_step (hd pool_ops) (New [''203.0.113.1''] 32256)))"
  by (rule block_stable) code_simp+

text \<open>
  A new source gets the block at the lowest free index, and is refused exactly when every index
  of the pool is taken, in which case nothing changes.
\<close>

theorem assign_lowest_free:
  assumes "mget (al_assigned a) s = None" and "pool_ok a"
  shows "case fst (Assign s a) of
      Some b \<Rightarrow> (\<exists>i. 0 \<le> i \<and> i < al_total a \<and> i \<notin> set (al_used a) \<and> (\<forall>j. 0 \<le> j \<and> j < i \<longrightarrow> j \<in> set (al_used a))
          \<and> b = blockAt a i \<and> mget (al_assigned (snd (Assign s a))) = (mget (al_assigned a))(s \<mapsto> b)
          \<and> set (al_used (snd (Assign s a))) = insert i (set (al_used a)))
    | None \<Rightarrow> (\<forall>i. 0 \<le> i \<and> i < al_total a \<longrightarrow> i \<in> set (al_used a)) \<and> snd (Assign s a) = a"
proof (cases "first_unused 0 (al_total a) (al_used a)")
  case None
  then show ?thesis
    using assms(1) first_unused_None [of 0 "al_total a" "al_used a"] by (auto simp: Assign_def Let_def)
next
  case (Some i)
  note first_unused_Some [OF this]
  moreover from this have "al_total a \<noteq> 0" by auto
  ultimately show ?thesis
    using assms(1) Some by (auto simp: Assign_def Let_def fun_eq_iff intro!: exI [of _ i])
qed

theorem assign_lowest_free_witness:
  "snd (Assign ''c'' (fold alloc_step [OpAssign ''a'', OpAssign ''b''] (New [''203.0.113.1''] 32256)))
     = fold alloc_step [OpAssign ''a'', OpAssign ''b''] (New [''203.0.113.1''] 32256)"
proof -
  let ?a = "fold alloc_step [OpAssign ''a'', OpAssign ''b''] (New [''203.0.113.1''] 32256)"
  have "pool_ok (New [''203.0.113.1''] 32256)" by (rule pool_ok_New) simp_all
  then have "pool_ok ?a" using alloc_inv_run [OF _ alloc_inv_New] by blast
  moreover have "mget (al_assigned ?a) ''c'' = None" "fst (Assign ''c'' ?a) = None" by code_simp+
  ultimately show ?thesis using assign_lowest_free [of ?a "''c''"] by simp
qed

text \<open>
  C35: Rebuilding the allocator from the assignments it persisted, in any order of them, gives every
  source its block back and no other source anything.
\<close>

theorem reseed_roundtrip:
  assumes "distinct ips" and "0 < n" and "int (length ips) * 64512 < 2 ^ 31"
    and "mwf m" and "mget m = mget (al_assigned (fold alloc_step ops (New ips n)))"
  shows "mget (al_assigned (reseed m (New ips n))) = mget (al_assigned (fold alloc_step ops (New ips n)))"
proof -
  let ?a = "fold alloc_step ops (New ips n)"
  have new: "pool_ok (New ips n)" using assms(1-3) by (rule pool_ok_New)
  have ok: "alloc_inv ?a" "pool_ok ?a" using alloc_inv_run [OF new alloc_inv_New] by auto
  have frame: "al_ips ?a = al_ips (New ips n)" "al_size ?a = al_size (New ips n)"
    by (simp_all add: alloc_frame_run)
  then have "al_blocksPerIP ?a = al_blocksPerIP (New ips n)"
    using ok(2) new by (simp add: pool_ok_def)
  with frame have same: "blockAt ?a = blockAt (New ips n)" "al_total ?a = al_total (New ips n)"
    by (simp_all add: blockAt_def al_total_def fun_eq_iff)
  have apart: "b \<noteq> c" if "mget (al_assigned ?a) s = Some b" "mget (al_assigned ?a) t = Some c" "s \<noteq> t" for s t b c
  proof
    assume "b = c"
    with ok(1) that have "blocks_disjoint b b" unfolding alloc_inv_def by blast
    moreover have "bk_PortMin b \<le> bk_PortMax b"
      using blocks_disjoint_run_bounds [OF ok that(1)] by simp
    ultimately show False by (auto simp: blocks_disjoint_def)
  qed
  have "seeds_ok m (New ips n)"
    unfolding seeds_ok_def
  proof (intro conjI allI impI)
    fix s b assume "mget m s = Some b"
    with assms(5) have "mget (al_assigned ?a) s = Some b" by simp
    from alloc_inv_block [OF ok(1) this] obtain i where "0 \<le> i" "i < al_total ?a" "b = blockAt ?a i"
      by blast
    with same show "\<exists>i. 0 \<le> i \<and> i < al_total (New ips n) \<and> b = blockAt (New ips n) i \<and> i \<notin> set (al_used (New ips n))"
      by (auto simp: New_def)
  qed (use assms(4,5) apart in auto)
  from reseed_gives [OF new this] assms(5) show ?thesis
    by (auto simp: fun_eq_iff New_def split: option.split)
qed

theorem reseed_roundtrip_witness:
  "mget (al_assigned (reseed (rev (al_assigned (fold alloc_step pool_ops (New [''203.0.113.1''] 32256)))) (New [''203.0.113.1''] 32256)))
     ''10.0.0.9'' = Some \<lparr>bk_PublicIP = ''203.0.113.1'', bk_PortMin = 33280, bk_PortMax = 65535\<rparr>"
proof -
  let ?m = "al_assigned (fold alloc_step pool_ops (New [''203.0.113.1''] 32256))"
  have "mwf ?m" by code_simp
  then have "mwf (rev ?m)" "mget (rev ?m) = mget ?m"
    by (auto simp: mwf_def rev_map [symmetric] intro!: mget_set_eq)
  from reseed_roundtrip [OF _ _ _ this] have
    "mget (al_assigned (reseed (rev ?m) (New [''203.0.113.1''] 32256))) = mget ?m" by simp
  moreover have "mget ?m ''10.0.0.9'' = Some \<lparr>bk_PublicIP = ''203.0.113.1'', bk_PortMin = 33280, bk_PortMax = 65535\<rparr>"
    by code_simp
  ultimately show ?thesis by simp
qed

end
