(* ===== verification/Ipam.thy ===== *)
theory Ipam
  imports Netip
begin

text \<open>
  The address allocator (\<^verbatim>\<open>mesh/allocator/ipam.go\<close>): reserved addresses of a prefix, the lowest free
  address, membership. The loop of \<^verbatim>\<open>LowestFree\<close> ends because the address only grows; running past the
  last address gives the invalid address, which no prefix contains.
\<close>

unbundle bit_operations_syntax

section \<open>Definitions\<close>

text \<open>\<^const>\<open>None\<close> is the panic of \<^verbatim>\<open>As4\<close> on an address that is not IPv4; the code only calls it on one.\<close>

definition lastAddr :: "Prefix \<Rightarrow> Addr option" where
  "lastAddr p = (case pfx_addr (Masked p) of
     V6 _ _ \<Rightarrow> None
   | V4 v \<Rightarrow>
       let host = 32 - pfx_bits p in
       Some (V4 (if host \<ge> 32 then NOT 0 else if host > 0 then v OR (push_bit host 1 - 1) else v)))"

definition ReservedFor :: "Prefix \<Rightarrow> Addr list option" where
  "ReservedFor pfx =
     (let p = Masked pfx; network = pfx_addr p in
      if Is4 network then (case lastAddr p of None \<Rightarrow> None | Some l \<Rightarrow> Some [network, l])
      else Some [network])"

text \<open>How far an address is from the end of its family.\<close>

fun addr_num :: "Addr \<Rightarrow> int" where
  "addr_num (V4 a) = uint a"
| "addr_num (V6 a z) = uint a"

fun addr_left :: "Addr option \<Rightarrow> nat" where
  "addr_left None = 0"
| "addr_left (Some (V4 a)) = nat (2 ^ 32 - uint a)"
| "addr_left (Some (V6 a z)) = nat (2 ^ 128 - uint a)"

section \<open>Words as numbers\<close>

lemma word_succ_num:
  assumes "(a :: 'a :: len word) + 1 \<noteq> 0"
  shows "uint (a + 1) = uint a + 1"
proof -
  have eq: "uint (a + 1) = (uint a + 1) mod 2 ^ LENGTH('a)"
    by (simp add: uint_word_ariths)
  have lt: "uint a + 1 \<le> 2 ^ LENGTH('a)" using uint_lt2p [of a] by linarith
  show ?thesis
  proof (cases "uint a + 1 = 2 ^ LENGTH('a)")
    case True
    with eq have "uint (a + 1) = 0" by simp
    with assms show ?thesis by (simp add: uint_0_iff)
  next
    case False
    with lt eq show ?thesis by (simp add: mod_pos_pos_trivial)
  qed
qed

definition wmask :: "nat \<Rightarrow> 'a :: len word \<Rightarrow> 'a word" where
  "wmask k a = push_bit k (drop_bit k a)"

lemma uint_wmask: "uint (wmask k (a :: 'a :: len word)) = (uint a div 2 ^ k) * 2 ^ k"
proof -
  have le: "(uint a div 2 ^ k) * 2 ^ k \<le> uint a"
  proof -
    have "0 \<le> uint a mod 2 ^ k" by simp
    with div_mult_mod_eq [of "uint a" "2 ^ k"] show ?thesis by linarith
  qed
  have tb: "take_bit LENGTH('a) (uint a) = uint a"
    by (rule take_bit_int_eq_self) (simp_all add: uint_lt2p)
  have "uint (wmask k a) = take_bit LENGTH('a) ((uint a div 2 ^ k) * 2 ^ k)"
    unfolding wmask_def unsigned_push_bit_eq unsigned_drop_bit_eq tb
    by (simp add: push_bit_eq_mult [where 'a = int] drop_bit_eq_div [where 'a = int])
  also have "\<dots> = (uint a div 2 ^ k) * 2 ^ k"
  proof (rule take_bit_int_eq_self)
    show "(uint a div 2 ^ k) * 2 ^ k < 2 ^ LENGTH('a)" using le uint_lt2p [of a] by linarith
  qed (simp add: pos_imp_zdiv_nonneg_iff)
  finally show ?thesis .
qed

lemma wmask_eq_iff: "wmask k (a :: 'a :: len word) = wmask k b \<longleftrightarrow> uint a div 2 ^ k = uint b div 2 ^ k"
  by (simp add: word_uint_eq_iff uint_wmask)
lemma uint_max: "uint (NOT 0 :: 'a::len word) = 2 ^ LENGTH('a) - 1"
  by (simp add: unsigned_minus_1_eq_mask mask_eq_exp_minus_1)

lemma wmask_or:
  assumes "k < LENGTH('a)"
  shows "uint (wmask k (a :: 'a :: len word) OR (push_bit k 1 - 1)) = uint (wmask k a) + (2 ^ k - 1)"
proof -
  have m: "push_bit k 1 - 1 = (mask k :: 'a word)" by (simp add: mask_eq_exp_minus_1 push_bit_eq_mult)
  have "take_bit k (uint (wmask k a)) = 0" by (simp add: uint_wmask take_bit_eq_mod)
  then have "uint (wmask k a) AND mask k = 0" by (simp add: take_bit_eq_mask)
  then have "uint (wmask k a) OR mask k = uint (wmask k a) + mask k"
    by (simp add: disjunctive_add_eq_or)
  moreover have "uint (mask k :: 'a word) = mask k" using assms by (simp add: uint_mask_eq min_def)
  ultimately show ?thesis
    unfolding m uint_or by (simp only: mask_eq_exp_minus_1 [where 'a = int])
qed

lemma mask4_wmask: "mask4 n = wmask (32 - n)" and mask16_wmask: "mask16 n = wmask (128 - n)"
  by (simp_all add: mask4_def mask16_def wmask_def fun_eq_iff)

lemma Next_num: "Next a = Some b \<Longrightarrow> addr_num b = addr_num a + 1"
  by (cases a) (auto simp: word_succ_num split: if_splits)

lemma Next_left: "addr_left (Next a) < addr_left (Some a)"
proof (cases a)
  case (V4 x)
  then show ?thesis using uint_lt2p [of x] by (auto simp: word_succ_num)
next
  case (V6 x z)
  then show ?thesis using uint_lt2p [of x] by (auto simp: word_succ_num)
qed

section \<open>The search\<close>

function lf_loop :: "Prefix \<Rightarrow> Addr goset \<Rightarrow> Addr option \<Rightarrow> Addr option" where
  "lf_loop p skip None = None"
| "lf_loop p skip (Some a) =
     (if \<not> prefix_contains p a then None else if a \<notin> set skip then Some a else lf_loop p skip (Next a))"
  by pat_completeness auto
termination by (relation "measure (\<lambda>(p, skip, a). addr_left a)") (simp_all add: Next_left)

declare lf_loop.simps(2) [simp del]

lemma lf_loop_step:
  "prefix_contains p a \<Longrightarrow> a \<in> set skip \<Longrightarrow> lf_loop p skip (Some a) = lf_loop p skip (Next a)"
  "\<not> prefix_contains p a \<Longrightarrow> lf_loop p skip (Some a) = None"
  "prefix_contains p a \<Longrightarrow> a \<notin> set skip \<Longrightarrow> lf_loop p skip (Some a) = Some a"
  by (simp_all add: lf_loop.simps(2))

definition LowestFree :: "Prefix \<Rightarrow> Addr goset \<Rightarrow> Addr list \<Rightarrow> Addr option" where
  "LowestFree pfx used reserved =
     (let skip = fold sput reserved used; p = Masked pfx in lf_loop p skip (Some (pfx_addr p)))"

definition InPrefix :: "Prefix \<Rightarrow> Addr \<Rightarrow> bool" where
  "InPrefix p a = (if Is4 (pfx_addr p) \<noteq> Is4 a then False else prefix_contains p a)"

section \<open>A prefix is an interval\<close>

text \<open>The number of host bits.\<close>

definition host_bits :: "Prefix \<Rightarrow> nat" where
  "host_bits p = BitLen (pfx_addr p) - pfx_bits p"

lemma contains_iff:
  "prefix_contains p a \<longleftrightarrow> Is4 a = Is4 (pfx_addr p) \<and> addr_zone a = []
     \<and> addr_num a div 2 ^ host_bits p = addr_num (pfx_addr p) div 2 ^ host_bits p"
  by (cases "pfx_addr p"; cases a)
    (auto simp: prefix_contains_def host_bits_def mask4_wmask mask16_wmask wmask_eq_iff)

lemma contains_inj: "prefix_contains p a \<Longrightarrow> prefix_contains p b \<Longrightarrow> addr_num a = addr_num b \<Longrightarrow> a = b"
  unfolding contains_iff by (cases a; cases b) (auto simp: word_uint_eq_iff)

lemma Next_family: "Next a = Some b \<Longrightarrow> Is4 b = Is4 a \<and> addr_zone b = addr_zone a"
  by (cases a) (auto split: if_splits)

lemma contains_next:
  assumes "prefix_contains p a" and "Next a = Some b" and "\<not> prefix_contains p b" and "prefix_contains p c"
  shows "addr_num c \<le> addr_num a"
proof (rule ccontr)
  assume "\<not> addr_num c \<le> addr_num a"
  then have "addr_num a \<le> addr_num b" "addr_num b \<le> addr_num c" using Next_num [OF assms(2)] by auto
  then have "addr_num a div 2 ^ host_bits p \<le> addr_num b div 2 ^ host_bits p"
      "addr_num b div 2 ^ host_bits p \<le> addr_num c div 2 ^ host_bits p"
    by (simp_all add: zdiv_mono1)
  with assms Next_family [OF assms(2)] show False unfolding contains_iff by auto
qed

lemma word_last:
  fixes x y :: "'a :: len word"
  assumes "x + 1 = 0"
  shows "uint y \<le> uint x"
proof -
  from assms have "x = - 1" by (simp add: eq_neg_iff_add_eq_0)
  moreover have "y \<le> (- 1 :: 'a word)" by simp
  ultimately show ?thesis by (simp only: word_le_def)
qed

lemma contains_last:
  assumes "Next a = None" and "prefix_contains p a" and "prefix_contains p c"
  shows "addr_num c \<le> addr_num a"
proof -
  from assms show ?thesis unfolding contains_iff
    by (cases a; cases c) (auto simp: word_last split: if_splits)
qed

lemma masked_num: "addr_num (pfx_addr (Masked p)) = (addr_num (pfx_addr p) div 2 ^ host_bits p) * 2 ^ host_bits p"
  and masked_family: "Is4 (pfx_addr (Masked p)) = Is4 (pfx_addr p)" "addr_zone (pfx_addr (Masked p)) = []"
  and masked_bits: "host_bits (Masked p) = host_bits p"
  by (cases "pfx_addr p"; simp add: Masked_def host_bits_def mask4_wmask mask16_wmask uint_wmask)+

lemma contains_masked: "prefix_contains (Masked p) a = prefix_contains p a"
  by (simp add: contains_iff masked_num masked_family masked_bits)

lemma start_contained: "prefix_contains p (pfx_addr (Masked p))"
  by (simp add: contains_iff masked_num masked_family)

lemma start_lowest:
  assumes "prefix_contains p a"
  shows "addr_num (pfx_addr (Masked p)) \<le> addr_num a"
proof -
  have "addr_num a div 2 ^ host_bits p * 2 ^ host_bits p \<le> addr_num a"
    using div_mult_mod_eq [of "addr_num a" "2 ^ host_bits p"] pos_mod_sign [of "2 ^ host_bits p" "addr_num a"]
    by (smt (verit) zero_less_power)
  with assms show ?thesis by (simp add: contains_iff masked_num)
qed

lemma lf_loop_Some:
  "lf_loop p skip (Some a) = Some r \<Longrightarrow>
     prefix_contains p r \<and> r \<notin> set skip \<and> (\<forall>b. prefix_contains p b \<and> addr_num a \<le> addr_num b \<and> addr_num b < addr_num r \<longrightarrow> b \<in> set skip)"
proof (induction p skip "Some a" arbitrary: a rule: lf_loop.induct)
  case (2 p skip a)
  show ?case
  proof (cases "prefix_contains p a \<and> a \<in> set skip")
    case False
    with "2.prems" show ?thesis
      by (cases "prefix_contains p a") (auto simp: lf_loop_step)
  next
    case True
    with "2.prems" have next_a: "lf_loop p skip (Next a) = Some r" by (simp add: lf_loop_step)
    then obtain b where b: "Next a = Some b" by (cases "Next a") auto
    from "2.hyps" [OF _ _ b] True next_a b have ih: "prefix_contains p r \<and> r \<notin> set skip
        \<and> (\<forall>c. prefix_contains p c \<and> addr_num b \<le> addr_num c \<and> addr_num c < addr_num r \<longrightarrow> c \<in> set skip)"
      by simp
    have "c \<in> set skip" if "prefix_contains p c" "addr_num a \<le> addr_num c" "addr_num c < addr_num r" for c
    proof (cases "addr_num c = addr_num a")
      case True
      then show ?thesis using contains_inj [OF that(1)] \<open>prefix_contains p a \<and> _\<close> by metis
    next
      case False
      with that ih Next_num [OF b] show ?thesis by auto
    qed
    with ih show ?thesis by blast
  qed
qed

lemma lf_loop_None:
  "lf_loop p skip (Some a) = None \<Longrightarrow> prefix_contains p a \<Longrightarrow>
     (\<forall>b. prefix_contains p b \<and> addr_num a \<le> addr_num b \<longrightarrow> b \<in> set skip)"
proof (induction p skip "Some a" arbitrary: a rule: lf_loop.induct)
  case (2 p skip a)
  have taken: "a \<in> set skip"
    using "2.prems" by (cases "a \<in> set skip") (simp_all add: lf_loop_step)
  then have rest: "lf_loop p skip (Next a) = None"
    using "2.prems" by (simp add: lf_loop_step)
  have only: "c \<in> set skip" if "prefix_contains p c" "addr_num c = addr_num a" for c
    using contains_inj [OF that(1) "2.prems"(2) that(2)] taken by simp
  show ?case
  proof (cases "Next a")
    case None
    with only show ?thesis using contains_last [OF None "2.prems"(2)] by (metis order_antisym)
  next
    case (Some b)
    show ?thesis
    proof (cases "prefix_contains p b")
      case True
      with "2.hyps" "2.prems"(2) taken Some rest
      have "\<forall>c. prefix_contains p c \<and> addr_num b \<le> addr_num c \<longrightarrow> c \<in> set skip" by simp
      with only Next_num [OF Some] show ?thesis
        by (metis add1_zle_eq order_le_less)
    next
      case False
      with only show ?thesis using contains_next [OF "2.prems"(2) Some False] by (metis order_antisym)
    qed
  qed
qed

lemma set_sputs: "set (fold sput xs s) = set xs \<union> set s"
  by (induction xs arbitrary: s) (auto simp: sput_def)

section \<open>The last address\<close>

lemma block_top:
  fixes x q :: int
  assumes "x div 2 ^ k = q"
  shows "x \<le> q * 2 ^ k + (2 ^ k - 1)"
proof -
  have "x mod 2 ^ k \<le> 2 ^ k - 1" using pos_mod_bound [of "2 ^ k" x] by simp
  with div_mult_mod_eq [of x "2 ^ k"] show ?thesis unfolding assms [symmetric] by linarith
qed

lemma lastAddr_num:
  assumes "pfx_addr p = V4 x"
  shows "\<exists>l. lastAddr p = Some (V4 l) \<and> uint l = (uint x div 2 ^ host_bits p) * 2 ^ host_bits p + (2 ^ host_bits p - 1)"
proof -
  have h: "host_bits p = 32 - pfx_bits p" and hl: "host_bits p \<le> 32" using assms by (simp_all add: host_bits_def)
  have m: "pfx_addr (Masked p) = V4 (wmask (host_bits p) x)"
    using assms by (simp add: Masked_def mask4_wmask h)
  have div0: "uint x div 2 ^ 32 = 0" using uint_lt2p [of x] by (simp add: div_pos_pos_trivial)
  consider "host_bits p = 32" | "host_bits p = 0" | "0 < host_bits p" "host_bits p < 32" using hl by linarith
  then show ?thesis
  proof cases
    case 1
    then show ?thesis
      using div0 uint_max [where 'a = 32] by (simp add: lastAddr_def m Let_def h [symmetric])
  next
    case 2
    then show ?thesis by (simp add: lastAddr_def m Let_def h [symmetric] wmask_def)
  next
    case 3
    then show ?thesis
      using wmask_or [of "host_bits p" x] by (simp add: lastAddr_def m Let_def h [symmetric] uint_wmask)
  qed
qed

section \<open>Properties\<close>

text \<open>
  C36: The search returns the numerically lowest address of the prefix that is neither used nor
  reserved, and reports exhaustion only when every address of the prefix is used or reserved.
\<close>

theorem lowest_free_exact:
  "case LowestFree p used reserved of
     Some a \<Rightarrow> prefix_contains p a \<and> a \<notin> set used \<and> a \<notin> set reserved
       \<and> (\<forall>b. prefix_contains p b \<and> addr_num b < addr_num a \<longrightarrow> b \<in> set used \<or> b \<in> set reserved)
   | None \<Rightarrow> (\<forall>b. prefix_contains p b \<longrightarrow> b \<in> set used \<or> b \<in> set reserved)"
proof (cases "LowestFree p used reserved")
  case None
  then have "\<forall>b. prefix_contains (Masked p) b \<and> addr_num (pfx_addr (Masked p)) \<le> addr_num b
      \<longrightarrow> b \<in> set (fold sput reserved used)"
    by (intro lf_loop_None) (simp_all add: LowestFree_def Let_def contains_masked start_contained)
  with None show ?thesis using start_lowest by (auto simp: set_sputs contains_masked)
next
  case (Some a)
  then have "prefix_contains (Masked p) a \<and> a \<notin> set (fold sput reserved used)
      \<and> (\<forall>b. prefix_contains (Masked p) b \<and> addr_num (pfx_addr (Masked p)) \<le> addr_num b \<and> addr_num b < addr_num a
           \<longrightarrow> b \<in> set (fold sput reserved used))"
    by (intro lf_loop_Some) (simp add: LowestFree_def Let_def)
  with Some show ?thesis using start_lowest by (auto simp: set_sputs contains_masked)
qed

definition slash30 :: Prefix where
  "slash30 = \<lparr>pfx_addr = V4 0x0A000001, pfx_bits = 30\<rparr>"

theorem lowest_free_exact_witness:
  "\<exists>a. LowestFree slash30 [V4 0x0A000001] [V4 0x0A000000, V4 0x0A000003] = Some a
     \<and> prefix_contains slash30 a \<and> a \<noteq> V4 0x0A000001 \<and> a \<noteq> V4 0x0A000000 \<and> a \<noteq> V4 0x0A000003"
proof -
  have "LowestFree slash30 [V4 0x0A000001] [V4 0x0A000000, V4 0x0A000003] \<noteq> None" by code_simp
  then obtain a where "LowestFree slash30 [V4 0x0A000001] [V4 0x0A000000, V4 0x0A000003] = Some a" by blast
  with lowest_free_exact [of slash30 "[V4 0x0A000001]" "[V4 0x0A000000, V4 0x0A000003]"] show ?thesis by simp
qed

text \<open>
  The reserved addresses are the ends of the prefix: always its first address, and for IPv4 its
  last one too. An IPv6 prefix reserves only the first.
\<close>

theorem reserved_ends:
  "\<exists>net rest. ReservedFor p = Some (net # rest) \<and> prefix_contains p net
     \<and> (\<forall>b. prefix_contains p b \<longrightarrow> addr_num net \<le> addr_num b)
     \<and> (if Is4 (pfx_addr p)
        then \<exists>l. rest = [l] \<and> prefix_contains p l \<and> (\<forall>b. prefix_contains p b \<longrightarrow> addr_num b \<le> addr_num l)
        else rest = [])"
proof (cases "pfx_addr p")
  case (V6 x z)
  then show ?thesis
    using start_contained [of p] start_lowest [of p]
    by (simp add: ReservedFor_def Let_def masked_family(1))
next
  case (V4 x)
  then obtain x' where x': "pfx_addr (Masked p) = V4 x'" by (simp add: Masked_def)
  then obtain l where l: "lastAddr (Masked p) = Some (V4 l)"
      "uint l = (uint x' div 2 ^ host_bits p) * 2 ^ host_bits p + (2 ^ host_bits p - 1)"
    using lastAddr_num by (metis masked_bits)
  have q: "uint x' div 2 ^ host_bits p = uint x div 2 ^ host_bits p"
    using masked_num [of p] V4 x' by simp
  have "uint l div 2 ^ host_bits p = uint x div 2 ^ host_bits p"
    unfolding l(2) q by (simp add: div_add1_eq div_pos_pos_trivial)
  then have "prefix_contains p (V4 l)" using V4 by (simp add: contains_iff)
  moreover have "addr_num b \<le> addr_num (V4 l)" if "prefix_contains p b" for b
    using that V4 block_top [of "addr_num b" "host_bits p"] by (simp add: contains_iff l(2) q)
  ultimately show ?thesis
    using V4 x' l(1) start_contained [of p] start_lowest [of p] by (simp add: ReservedFor_def Let_def)
qed

theorem reserved_ends_witness:
  "\<exists>net l. ReservedFor slash30 = Some [net, l] \<and> prefix_contains slash30 net \<and> prefix_contains slash30 l"
proof -
  have "Is4 (pfx_addr slash30)" by (simp add: slash30_def)
  with reserved_ends [of slash30] show ?thesis by auto
qed

end
