(* ===== verification/Mac.thy ===== *)
theory Mac
  imports Netip
begin

text \<open>
  The MAC allocator (\<^verbatim>\<open>mesh/allocator/mac.go\<close>): a 64-bit FNV-1a hash of the seed and the attempt gives
  the low 40 bits, the top octet is fixed. The hash and the printing are those of the Go standard
  library (\<^verbatim>\<open>hash/fnv\<close>, \<^verbatim>\<open>net.HardwareAddr.String\<close>).
\<close>

unbundle bit_operations_syntax

section \<open>Definitions\<close>

type_synonym u8 = "8 word"

definition fnv_offset64 :: u64 where
  "fnv_offset64 = 14695981039346656037"

definition fnv_prime64 :: u64 where
  "fnv_prime64 = 1099511628211"

definition fnv1a_write :: "u8 list \<Rightarrow> u64 \<Rightarrow> u64" where
  "fnv1a_write bs h = fold (\<lambda>b h. (h XOR ucast b) * fnv_prime64) bs h"

definition string_bytes :: "string \<Rightarrow> u8 list" where
  "string_bytes s = map (\<lambda>c. of_char c) s"

definition be64 :: "u64 \<Rightarrow> u8 list" where
  "be64 w = map (\<lambda>i. ucast (drop_bit (8 * i) w)) [7, 6, 5, 4, 3, 2, 1, 0]"

definition laaUnicast :: u8 where
  "laaUnicast = 0x02"

type_synonym HardwareAddr = "u8 list"

definition DeriveMAC :: "string \<Rightarrow> nat \<Rightarrow> HardwareAddr" where
  "DeriveMAC seed attempt =
     (let h1 = fnv1a_write (string_bytes seed) fnv_offset64;
          tail = 0 # be64 (of_nat attempt);
          sum = fnv1a_write tail h1
      in [laaUnicast, ucast (drop_bit 32 sum), ucast (drop_bit 24 sum), ucast (drop_bit 16 sum),
          ucast (drop_bit 8 sum), ucast sum])"

definition hex_digit :: "nat \<Rightarrow> char" where
  "hex_digit n = ''0123456789abcdef'' ! n"

definition hex_byte :: "u8 \<Rightarrow> string" where
  "hex_byte b = [hex_digit (unat (drop_bit 4 b)), hex_digit (unat (take_bit 4 b))]"

fun hw_string :: "HardwareAddr \<Rightarrow> string" where
  "hw_string [] = []"
| "hw_string [b] = hex_byte b"
| "hw_string (b # bs) = hex_byte b @ '':'' @ hw_string bs"

definition maxMACAttempts :: nat where
  "maxMACAttempts = 4096"

text \<open>The attempts from \<open>i\<close> on, \<open>k\<close> of them left.\<close>

fun mac_loop :: "string \<Rightarrow> string goset \<Rightarrow> nat \<Rightarrow> nat \<Rightarrow> string option" where
  "mac_loop seed used 0 i = None"
| "mac_loop seed used (Suc k) i =
     (let m = hw_string (DeriveMAC seed i) in
      if m \<notin> set used then Some m else mac_loop seed used k (i + 1))"

definition LowestFreeMAC :: "string \<Rightarrow> string goset \<Rightarrow> string option" where
  "LowestFreeMAC seed used = mac_loop seed used maxMACAttempts 0"

section \<open>The loop\<close>

lemma mac_loop_Some:
  "mac_loop seed used k i = Some m \<Longrightarrow>
     \<exists>j. i \<le> j \<and> j < i + k \<and> m = hw_string (DeriveMAC seed j) \<and> m \<notin> set used
       \<and> (\<forall>j'. i \<le> j' \<and> j' < j \<longrightarrow> hw_string (DeriveMAC seed j') \<in> set used)"
proof (induction k arbitrary: i)
  case (Suc k)
  show ?case
  proof (cases "hw_string (DeriveMAC seed i) \<in> set used")
    case False
    with Suc.prems show ?thesis by (intro exI [of _ i]) (auto simp: Let_def)
  next
    case True
    with Suc.prems have "mac_loop seed used k (Suc i) = Some m" by (simp add: Let_def)
    from Suc.IH [OF this] obtain j where j: "Suc i \<le> j" "j < Suc i + k" "m = hw_string (DeriveMAC seed j)" "m \<notin> set used"
        "\<forall>j'. Suc i \<le> j' \<and> j' < j \<longrightarrow> hw_string (DeriveMAC seed j') \<in> set used" by blast
    with True have "\<forall>j'. i \<le> j' \<and> j' < j \<longrightarrow> hw_string (DeriveMAC seed j') \<in> set used"
      by (metis Suc_leI le_neq_implies_less)
    with j show ?thesis by (intro exI [of _ j]) auto
  qed
qed simp

lemma mac_loop_None:
  "mac_loop seed used k i = None \<longleftrightarrow> (\<forall>j. i \<le> j \<and> j < i + k \<longrightarrow> hw_string (DeriveMAC seed j) \<in> set used)"
proof (induction k arbitrary: i)
  case (Suc k)
  have "(\<forall>j. i \<le> j \<and> j < i + Suc k \<longrightarrow> P j) \<longleftrightarrow> P i \<and> (\<forall>j. Suc i \<le> j \<and> j < Suc i + k \<longrightarrow> P j)" for P
    by (metis Suc_leI add_Suc_right add_Suc le_add1 le_eq_less_or_eq le_imp_less_Suc less_or_eq_imp_le not_less_eq_eq)
  with Suc.IH show ?case by (simp add: Let_def)
qed auto

section \<open>Properties\<close>

text \<open>
  C38: A derived address is six octets, locally administered (bit 1 of the first octet set) and
  unicast (bit 0 clear); the allocator returns the printed form of the first attempt that is not in
  use, and gives up only when all 4096 attempts are in use.
\<close>

theorem mac_allocation:
  "length (DeriveMAC seed i) = 6 \<and> bit (hd (DeriveMAC seed i)) 1 \<and> \<not> bit (hd (DeriveMAC seed i)) 0
   \<and> (case LowestFreeMAC seed used of
        Some m \<Rightarrow> (\<exists>j < 4096. m = hw_string (DeriveMAC seed j) \<and> m \<notin> set used
            \<and> (\<forall>j' < j. hw_string (DeriveMAC seed j') \<in> set used))
      | None \<Rightarrow> (\<forall>j < 4096. hw_string (DeriveMAC seed j) \<in> set used))"
proof -
  have "case LowestFreeMAC seed used of
        Some m \<Rightarrow> (\<exists>j < 4096. m = hw_string (DeriveMAC seed j) \<and> m \<notin> set used
            \<and> (\<forall>j' < j. hw_string (DeriveMAC seed j') \<in> set used))
      | None \<Rightarrow> (\<forall>j < 4096. hw_string (DeriveMAC seed j) \<in> set used)"
    unfolding LowestFreeMAC_def maxMACAttempts_def
    using mac_loop_Some [of seed used 4096 0] mac_loop_None [of seed used 4096 0]
    by (auto split: option.split)
  moreover have "bit (2 :: u8) 1" "\<not> bit (2 :: u8) 0" by simp_all
  ultimately show ?thesis by (simp add: DeriveMAC_def laaUnicast_def Let_def)
qed

text \<open>With the first attempt of a seed taken, the second one is given out.\<close>

theorem mac_allocation_witness:
  "\<exists>m. LowestFreeMAC ''vm-1'' [hw_string (DeriveMAC ''vm-1'' 0)] = Some m \<and> m \<noteq> hw_string (DeriveMAC ''vm-1'' 0)"
proof -
  note alloc = mac_allocation [of "''vm-1''" 0 "[hw_string (DeriveMAC ''vm-1'' 0)]"]
  have second: "hw_string (DeriveMAC ''vm-1'' 1) \<noteq> hw_string (DeriveMAC ''vm-1'' 0)" by code_simp
  have "LowestFreeMAC ''vm-1'' [hw_string (DeriveMAC ''vm-1'' 0)] \<noteq> None"
  proof
    assume none: "LowestFreeMAC ''vm-1'' [hw_string (DeriveMAC ''vm-1'' 0)] = None"
    have "\<forall>j < 4096. hw_string (DeriveMAC ''vm-1'' j) \<in> set [hw_string (DeriveMAC ''vm-1'' 0)]"
      using alloc unfolding none option.case by blast
    moreover have "(1 :: nat) < 4096" by simp
    ultimately have "hw_string (DeriveMAC ''vm-1'' 1) \<in> set [hw_string (DeriveMAC ''vm-1'' 0)]" by blast
    with second show False by simp
  qed
  then obtain m where m: "LowestFreeMAC ''vm-1'' [hw_string (DeriveMAC ''vm-1'' 0)] = Some m" by blast
  then have "m \<notin> set [hw_string (DeriveMAC ''vm-1'' 0)]"
    using alloc unfolding m option.case by blast
  with m show ?thesis by simp
qed

end
