(* ===== verification/Desired.thy ===== *)
theory Desired
  imports Netip Routebus
begin

text \<open>
  The agent's desired announcement set and its diff (\<^verbatim>\<open>mesh/agent/desired.go\<close>): the records a node
  wants live on the route bus, and the messages that move what is announced to what is wanted. The
  interface \<open>keyed_records\<close> holds what the three record channels have in common: a key, an equality
  on values, and the diff of two record lists by key. Each channel of \<open>diffDesired\<close> interprets it.
\<close>

section \<open>Records\<close>

record Route =
  rt_Vni :: u32
  rt_Prefix :: string
  rt_Nexthop :: string
  rt_External :: bool
  rt_DeliveryVNI :: u32

record PeerImport =
  pi_PeerVNI :: u32
  pi_ImportPrefixes :: "string list"

type_synonym PublicPrefix = PublicRecord

record DesiredState =
  ds_Subs :: "u32 list"
  ds_Routes :: "Route list"
  ds_Nats :: "NatBlock list"
  ds_Pubs :: "PublicPrefix list"
  ds_EgressVNIs :: "u32 list"
  ds_PeeringImports :: "(u32, PeerImport list) gomap"

text \<open>The zero value: what is applied on a session that has just opened.\<close>

definition no_desired :: DesiredState where
  "no_desired = \<lparr>ds_Subs = [], ds_Routes = [], ds_Nats = [], ds_Pubs = [], ds_EgressVNIs = [],
     ds_PeeringImports = []\<rparr>"

type_synonym routeRef = "u32 \<times> string"
type_synonym natRef = "string \<times> u32 \<times> u32"

record busDelta =
  bd_subscribe :: "u32 list"
  bd_unsubscribe :: "u32 list"
  bd_announceR :: "Route list"
  bd_withdrawR :: "routeRef list"
  bd_announceN :: "NatBlock list"
  bd_withdrawN :: "natRef list"
  bd_announceP :: "PublicPrefix list"
  bd_withdrawP :: "PublicPrefix list"

definition delta_empty :: "busDelta \<Rightarrow> bool" where
  "delta_empty d \<longleftrightarrow> length (bd_subscribe d) = 0 \<and> length (bd_unsubscribe d) = 0
     \<and> length (bd_announceR d) = 0 \<and> length (bd_withdrawR d) = 0
     \<and> length (bd_announceN d) = 0 \<and> length (bd_withdrawN d) = 0
     \<and> length (bd_announceP d) = 0 \<and> length (bd_withdrawP d) = 0"

definition routeKey :: "Route \<Rightarrow> routeRef" where
  "routeKey r = (rt_Vni r, rt_Prefix r)"

definition natKey :: "NatBlock \<Rightarrow> natRef" where
  "natKey n = (nb_NatIP n, nb_PortMin n, nb_PortMax n)"

fun kind_number :: "PublicKind \<Rightarrow> int" where
  "kind_number PUBLIC_KIND_UNSPECIFIED = 0"
| "kind_number PUBLIC_KIND_EDGE_UNDERLAY = 1"
| "kind_number PUBLIC_KIND_NAT_IP = 2"
| "kind_number PUBLIC_KIND_LB_IP = 3"
| "kind_number PUBLIC_KIND_FLOATING_IP = 4"

definition pubKey :: "PublicPrefix \<Rightarrow> string" where
  "pubKey p = itoa (kind_number (pr_Kind p)) @ ''|'' @ pr_Prefix p @ ''|'' @ pr_OwnerUnderlay p @ ''|'' @ pr_OverlayIP p"

definition pubEqual :: "PublicPrefix \<Rightarrow> PublicPrefix \<Rightarrow> bool" where
  "pubEqual a b \<longleftrightarrow> pr_Kind a = pr_Kind b \<and> pr_Prefix a = pr_Prefix b \<and> pr_OwnerUnderlay a = pr_OwnerUnderlay b
     \<and> pr_Vni a = pr_Vni b \<and> pr_PortMin a = pr_PortMin b \<and> pr_PortMax a = pr_PortMax b
     \<and> pr_OverlayIP a = pr_OverlayIP b \<and> LbPortsEqual (pr_Ports a) (pr_Ports b)"

section \<open>The diff\<close>

text \<open>A list of records as a map by key; a later record overwrites an earlier one of its key.\<close>

definition index_by :: "('r \<Rightarrow> 'k) \<Rightarrow> 'r list \<Rightarrow> ('k, 'r) gomap" where
  "index_by key rs = fold (\<lambda>r m. mput (key r) r m) rs []"

text \<open>The records that are new or differ from the applied record of their key.\<close>

definition to_announce :: "('r \<Rightarrow> 'k) \<Rightarrow> ('r \<Rightarrow> 'r \<Rightarrow> bool) \<Rightarrow> 'r list \<Rightarrow> 'r list \<Rightarrow> 'r list" where
  "to_announce key same prev rs =
     filter (\<lambda>r. case mget (index_by key prev) (key r) of None \<Rightarrow> True | Some old \<Rightarrow> \<not> same old r) rs"

text \<open>The applied records whose key is wanted no more.\<close>

definition to_withdraw :: "('r \<Rightarrow> 'k) \<Rightarrow> 'r list \<Rightarrow> 'r list \<Rightarrow> ('k \<times> 'r) list" where
  "to_withdraw key prev rs = filter (\<lambda>(k, _). mget (index_by key rs) k = None) (index_by key prev)"

definition vni_set :: "u32 list \<Rightarrow> u32 goset" where
  "vni_set vs = fold sput vs []"

definition diffDesired :: "DesiredState \<Rightarrow> DesiredState \<Rightarrow> busDelta" where
  "diffDesired applied next =
     (let prevSubs = vni_set (ds_Subs applied);
          nextSubs = vni_set (ds_Subs next)
      in \<lparr>bd_subscribe = filter (\<lambda>v. v \<notin> set prevSubs) nextSubs,
          bd_unsubscribe = filter (\<lambda>v. v \<notin> set nextSubs) prevSubs,
          bd_announceR = to_announce routeKey (=) (ds_Routes applied) (ds_Routes next),
          bd_withdrawR = map fst (to_withdraw routeKey (ds_Routes applied) (ds_Routes next)),
          bd_announceN = to_announce natKey (=) (ds_Nats applied) (ds_Nats next),
          bd_withdrawN = map fst (to_withdraw natKey (ds_Nats applied) (ds_Nats next)),
          bd_announceP = to_announce pubKey pubEqual (ds_Pubs applied) (ds_Pubs next),
          bd_withdrawP = map snd (to_withdraw pubKey (ds_Pubs applied) (ds_Pubs next))\<rparr>)"

section \<open>Keyed records\<close>

text \<open>
  What a receiver that upserts announced records by key and deletes withdrawn keys ends up with.
\<close>

fun upserts :: "('r \<Rightarrow> 'k) \<Rightarrow> 'r list \<Rightarrow> ('k \<Rightarrow> 'r option) \<Rightarrow> ('k \<Rightarrow> 'r option)" where
  "upserts key [] v = v"
| "upserts key (r # rs) v = upserts key rs (v(key r \<mapsto> r))"

definition deletes :: "'k list \<Rightarrow> ('k \<Rightarrow> 'r option) \<Rightarrow> 'k \<Rightarrow> 'r option" where
  "deletes ks v k = (if k \<in> set ks then None else v k)"

text \<open>Records of one list that share a key are the same record, as for two backends behind one address.\<close>

definition consistent :: "('r \<Rightarrow> 'k) \<Rightarrow> 'r list \<Rightarrow> bool" where
  "consistent key rs \<longleftrightarrow> list_all (\<lambda>r. list_all (\<lambda>r'. key r = key r' \<longrightarrow> r = r') rs) rs"

locale keyed_records =
  fixes key :: "'r \<Rightarrow> 'k"
    and same :: "'r \<Rightarrow> 'r \<Rightarrow> bool"
  assumes same_iff: "same a b \<longleftrightarrow> a = b"
begin

lemma consistentD: "consistent key rs \<Longrightarrow> r \<in> set rs \<Longrightarrow> r' \<in> set rs \<Longrightarrow> key r = key r' \<Longrightarrow> r = r'"
  by (auto simp: consistent_def list_all_iff)

lemma consistent_filter: "consistent key rs \<Longrightarrow> consistent key (filter P rs)"
  by (auto simp: consistent_def list_all_iff)

lemma index_upserts: "mget (fold (\<lambda>r m. mput (key r) r m) rs m) = upserts key rs (mget m)"
proof (induction rs arbitrary: m)
  case (Cons r rs)
  have "mget (mput (key r) r m) = (mget m)(key r \<mapsto> r)" by (auto simp: fun_eq_iff)
  with Cons show ?case by (metis fold_simps(2) upserts.simps(2))
qed simp

lemma mget_index: "mget (index_by key rs) = upserts key rs (\<lambda>_. None)"
proof -
  have "mget [] = (\<lambda>_ :: 'k. None :: 'r option)" by (simp add: fun_eq_iff)
  then show ?thesis unfolding index_by_def index_upserts by simp
qed

lemma index_mwf: "mwf (index_by key rs)"
proof -
  have "mwf m \<Longrightarrow> mwf (fold (\<lambda>r m. mput (key r) r m) rs m)" for m
    by (induction rs arbitrary: m) auto
  then show ?thesis by (simp add: index_by_def)
qed

lemma upserts_absent: "k \<notin> key ` set rs \<Longrightarrow> upserts key rs v k = v k"
  by (induction rs arbitrary: v) auto

lemma upserts_some: "upserts key rs v k = Some r \<Longrightarrow> v k = Some r \<or> (r \<in> set rs \<and> key r = k)"
  by (induction rs arbitrary: v) (fastforce split: if_splits)+

lemma upserts_none: "upserts key rs v k = None \<longleftrightarrow> v k = None \<and> k \<notin> key ` set rs"
  by (induction rs arbitrary: v) (auto split: if_splits)

lemma upserts_present:
  assumes "consistent key rs" and "r \<in> set rs"
  shows "upserts key rs v (key r) = Some r"
proof -
  have "upserts key xs v (key r) = Some r"
    if "set xs \<subseteq> set rs" and "r \<in> set xs \<or> v (key r) = Some r" for xs v
    using that
  proof (induction xs arbitrary: v)
    case (Cons x xs)
    have "(v(key x \<mapsto> x)) (key r) = Some r" if "x = r \<or> v (key r) = Some r"
      using that Cons.prems(1) consistentD [OF assms(1) _ assms(2), of x] by auto
    with Cons show ?case by (metis list.set_intros(2) set_ConsD subset_code(1) upserts.simps(2))
  qed simp
  with assms(2) show ?thesis by blast
qed

lemma index_value: "mget (index_by key rs) k = Some r \<Longrightarrow> r \<in> set rs \<and> key r = k"
  using upserts_some [of rs "\<lambda>_. None"] by (auto simp: mget_index)

lemma index_None: "mget (index_by key rs) k = None \<longleftrightarrow> k \<notin> key ` set rs"
  by (simp add: mget_index upserts_none)

lemma index_present: "consistent key rs \<Longrightarrow> r \<in> set rs \<Longrightarrow> mget (index_by key rs) (key r) = Some r"
  by (simp add: mget_index upserts_present)

lemma announce_iff: "r \<in> set (to_announce key same prev rs) \<longleftrightarrow> r \<in> set rs \<and> mget (index_by key prev) (key r) \<noteq> Some r"
  by (auto simp: to_announce_def same_iff split: option.splits)

lemma withdraw_iff: "(k, r) \<in> set (to_withdraw key prev rs) \<longleftrightarrow> mget (index_by key prev) k = Some r \<and> k \<notin> key ` set rs"
  by (auto simp: to_withdraw_def mget_iff [OF index_mwf] index_None)

lemma withdraw_keys: "k \<in> set (map fst (to_withdraw key prev rs)) \<longleftrightarrow> k \<in> key ` set prev \<and> k \<notin> key ` set rs"
proof -
  have "k \<in> set (map fst (to_withdraw key prev rs)) \<longleftrightarrow> (\<exists>r. (k, r) \<in> set (to_withdraw key prev rs))"
    by force
  also have "\<dots> \<longleftrightarrow> mget (index_by key prev) k \<noteq> None \<and> k \<notin> key ` set rs"
    unfolding withdraw_iff by auto
  finally show ?thesis by (simp add: index_None)
qed

lemma withdraw_records: "map key (map snd (to_withdraw key prev rs)) = map fst (to_withdraw key prev rs)"
proof -
  have "key r = k" if "(k, r) \<in> set (to_withdraw key prev rs)" for k r
    using that withdraw_iff index_value by blast
  then show ?thesis by force
qed

text \<open>Announcing the changed records and then withdrawing the vanished keys reaches the wanted table.\<close>

lemma diff_reaches:
  assumes "consistent key rs"
  shows "deletes (map fst (to_withdraw key prev rs)) (upserts key (to_announce key same prev rs) (mget (index_by key prev))) =
     mget (index_by key rs)"
proof
  fix k
  have cons: "consistent key (to_announce key same prev rs)"
    using assms by (simp add: to_announce_def consistent_filter)
  show "deletes (map fst (to_withdraw key prev rs)) (upserts key (to_announce key same prev rs) (mget (index_by key prev))) k =
     mget (index_by key rs) k"
  proof (cases "k \<in> key ` set rs")
    case True
    then obtain r where r: "r \<in> set rs" "k = key r" by auto
    have "upserts key (to_announce key same prev rs) (mget (index_by key prev)) k = Some r"
    proof (cases "r \<in> set (to_announce key same prev rs)")
      case True
      with cons r show ?thesis by (simp add: upserts_present)
    next
      case False
      have "k \<notin> key ` set (to_announce key same prev rs)"
      proof
        assume "k \<in> key ` set (to_announce key same prev rs)"
        then obtain r' where "r' \<in> set (to_announce key same prev rs)" "key r' = key r" using r by auto
        with assms r(1) False show False using consistentD [OF assms, of r' r] by (auto simp: announce_iff)
      qed
      with False r show ?thesis by (simp add: upserts_absent announce_iff)
    qed
    with True assms r show ?thesis
      unfolding deletes_def withdraw_keys by (simp add: index_present)
  next
    case False
    then have "k \<notin> key ` set (to_announce key same prev rs)" by (auto simp: announce_iff)
    with False show ?thesis
      unfolding deletes_def withdraw_keys
      by (auto simp: upserts_absent index_None [of rs k, THEN iffD2] index_None [of prev k, THEN iffD2])
  qed
qed

lemma diff_nothing:
  assumes "consistent key rs"
  shows "to_announce key same prev rs = [] \<and> to_withdraw key prev rs = [] \<longleftrightarrow>
     mget (index_by key prev) = mget (index_by key rs)"
proof
  assume "to_announce key same prev rs = [] \<and> to_withdraw key prev rs = []"
  then show "mget (index_by key prev) = mget (index_by key rs)"
    using diff_reaches [OF assms, of prev] by (simp add: deletes_def fun_eq_iff)
next
  assume eq: "mget (index_by key prev) = mget (index_by key rs)"
  have "r \<notin> set (to_announce key same prev rs)" for r
    using eq index_present [OF assms, of r] by (auto simp: announce_iff)
  moreover have "(k, r) \<notin> set (to_withdraw key prev rs)" for k r
    using eq index_None [of rs k] by (auto simp: withdraw_iff)
  ultimately show "to_announce key same prev rs = [] \<and> to_withdraw key prev rs = []"
    by (metis equals0I list.set_intros(1) neq_Nil_conv surj_pair)
qed

end

interpretation route: keyed_records routeKey "(=)"
  by unfold_locales simp

interpretation natb: keyed_records natKey "(=)"
  by unfold_locales simp

lemma pubEqual_iff: "pubEqual a b \<longleftrightarrow> a = b"
  by (cases a, cases b) (auto simp: pubEqual_def)

interpretation pubp: keyed_records pubKey pubEqual
  by unfold_locales (rule pubEqual_iff)

section \<open>What the diff achieves\<close>

lemma set_vni_set [simp]: "set (vni_set vs) = set vs"
proof -
  have "set (fold sput vs s) = set vs \<union> set s" for s
    by (induction vs arbitrary: s) auto
  then show ?thesis by (simp add: vni_set_def)
qed

text \<open>The records of each channel of a desired state are well keyed.\<close>

definition desired_ok :: "DesiredState \<Rightarrow> bool" where
  "desired_ok s \<longleftrightarrow> consistent routeKey (ds_Routes s) \<and> consistent natKey (ds_Nats s) \<and> consistent pubKey (ds_Pubs s)"

text \<open>Two desired states announce the same thing.\<close>

definition same_announcements :: "DesiredState \<Rightarrow> DesiredState \<Rightarrow> bool" where
  "same_announcements s t \<longleftrightarrow> set (ds_Subs s) = set (ds_Subs t)
     \<and> mget (index_by routeKey (ds_Routes s)) = mget (index_by routeKey (ds_Routes t))
     \<and> mget (index_by natKey (ds_Nats s)) = mget (index_by natKey (ds_Nats t))
     \<and> mget (index_by pubKey (ds_Pubs s)) = mget (index_by pubKey (ds_Pubs t))"


text \<open>
  The diff is empty, so nothing is sent, exactly when the applied and the wanted state announce
  the same thing.
\<close>

theorem diff_empty_iff:
  assumes "desired_ok next"
  shows "delta_empty (diffDesired applied next) \<longleftrightarrow> same_announcements applied next"
proof -
  have subs: "filter (\<lambda>v. v \<notin> set (ds_Subs applied)) (vni_set (ds_Subs next)) = [] \<and>
      filter (\<lambda>v. v \<notin> set (ds_Subs next)) (vni_set (ds_Subs applied)) = [] \<longleftrightarrow> set (ds_Subs applied) = set (ds_Subs next)"
    by (auto simp: filter_empty_conv)
  show ?thesis
    using assms route.diff_nothing [of "ds_Routes next" "ds_Routes applied"] natb.diff_nothing [of "ds_Nats next" "ds_Nats applied"]
      pubp.diff_nothing [of "ds_Pubs next" "ds_Pubs applied"] subs
    by (auto simp: delta_empty_def same_announcements_def diffDesired_def Let_def desired_ok_def)
qed

section \<open>A concrete diff\<close>

definition demo_route :: "u32 \<Rightarrow> string \<Rightarrow> string \<Rightarrow> Route" where
  "demo_route vni p nh = \<lparr>rt_Vni = vni, rt_Prefix = p, rt_Nexthop = nh, rt_External = False, rt_DeliveryVNI = vni\<rparr>"

definition demo_applied :: DesiredState where
  "demo_applied = no_desired\<lparr>ds_Subs := [0, 100],
     ds_Routes := [demo_route 100 ''10.0.0.5/32'' ''fd00::1'', demo_route 100 ''10.0.0.6/32'' ''fd00::1'']\<rparr>"

definition demo_next :: DesiredState where
  "demo_next = no_desired\<lparr>ds_Subs := [0, 200],
     ds_Routes := [demo_route 100 ''10.0.0.5/32'' ''fd00::2'', demo_route 200 ''10.0.0.7/32'' ''fd00::1'']\<rparr>"


theorem diff_empty_iff_witness:
  "desired_ok demo_next \<and> delta_empty (diffDesired demo_next demo_next) \<and> same_announcements demo_next demo_next
     \<and> \<not> same_announcements demo_applied demo_next"
proof -
  have "desired_ok demo_next" and "delta_empty (diffDesired demo_next demo_next)"
    and "\<not> delta_empty (diffDesired demo_applied demo_next)"
    by code_simp+
  then show ?thesis using diff_empty_iff [of demo_next demo_next] diff_empty_iff [of demo_next demo_applied] by blast
qed

end
