(* ===== verification/Dataplane.thy ===== *)
theory Dataplane
  imports Desired
begin

text \<open>
  The node-local dataplane as the agent sees it (\<^verbatim>\<open>mesh/agent/bus.go\<close>, the \<^verbatim>\<open>Dataplane\<close> interface).
  The dataplane is a separate program, so it is a parameter of every definition that calls it: a
  record with one function per method, over a state \<open>'d\<close> the agent knows nothing about. A call returns
  an error or nothing, and the new state. What the agent relies on is \<open>routes_ok\<close>, \<open>nats_ok\<close> and
  \<open>lbs_ok\<close>, the documented effect of the calls on what the dataplane holds; \<open>store_dp\<close> is a dataplane
  that satisfies all three.
\<close>

section \<open>Errors\<close>

datatype dpCode = Unavailable | DeadlineExceeded | Canceled | Unimplemented | OtherCode

datatype dpErr = DpErr (err_code: dpCode) (err_text: string)

definition transientDataplaneError :: "dpErr \<Rightarrow> bool" where
  "transientDataplaneError e = (case err_code e of
     Unavailable \<Rightarrow> True | DeadlineExceeded \<Rightarrow> True | Canceled \<Rightarrow> True | _ \<Rightarrow> False)"

section \<open>The interface\<close>

record LocalInterface =
  li_InterfaceID :: string
  li_Vni :: u32
  li_OverlayIPs :: "string list"
  li_Underlay :: string

record FwRule =
  fw_SrcCIDR :: string
  fw_DstCIDR :: string
  fw_Proto :: u32
  fw_DstPortMin :: u32
  fw_DstPortMax :: u32
  fw_IcmpType :: "u32 option"
  fw_IcmpCode :: "u32 option"
  fw_Allow :: bool
  fw_Egress :: bool

record FwRuleWithID =
  fr_ID :: string
  fr_Rule :: FwRule

record NeighborNatBlock =
  nn_NatIP :: string
  nn_PortMin :: u32
  nn_PortMax :: u32
  nn_OwnerUnderlay :: string
  nn_Vni :: u32

type_synonym 'd call = "'d \<Rightarrow> dpErr option \<times> 'd"

record 'd Dataplane =
  dp_AddRoute :: "u32 \<Rightarrow> string \<Rightarrow> string \<Rightarrow> bool \<Rightarrow> u32 \<Rightarrow> 'd call"
  dp_WithdrawRoute :: "u32 \<Rightarrow> string \<Rightarrow> 'd call"
  dp_AddNatSource :: "u32 \<Rightarrow> string \<Rightarrow> string \<Rightarrow> u32 \<Rightarrow> u32 \<Rightarrow> 'd call"
  dp_AddNeighborNat :: "string \<Rightarrow> u32 \<Rightarrow> u32 \<Rightarrow> string \<Rightarrow> u32 \<Rightarrow> 'd call"
  dp_WithdrawNeighborNat :: "string \<Rightarrow> u32 \<Rightarrow> u32 \<Rightarrow> u32 \<Rightarrow> 'd call"
  dp_ReplaceNeighborNats :: "NeighborNatBlock list \<Rightarrow> 'd call"
  dp_ReplaceInterfaceFirewall :: "string \<Rightarrow> FwRuleWithID list \<Rightarrow> 'd call"
  dp_AddLoadBalancer :: "string \<Rightarrow> u32 \<Rightarrow> string \<Rightarrow> string \<Rightarrow> LbPort list \<Rightarrow> 'd call"
  dp_DelLoadBalancer :: "string \<Rightarrow> 'd call"
  dp_AddLbBackend :: "string \<Rightarrow> string \<Rightarrow> string \<Rightarrow> u32 \<Rightarrow> 'd call"
  dp_DelLbBackend :: "string \<Rightarrow> string \<Rightarrow> string \<Rightarrow> 'd call"
  dp_ConfigureQoS :: "string \<Rightarrow> u32 \<Rightarrow> u32 \<Rightarrow> u32 \<Rightarrow> 'd call"
  dp_ListInterfaces :: "'d \<Rightarrow> (dpErr + LocalInterface list \<times> string) \<times> 'd"

section \<open>What the agent relies on\<close>

text \<open>
  The effect of a call on what the dataplane holds, as a view of its state. A call that succeeds
  sets its key to a value or clears it; one that fails may or may not have landed, and leaves every
  other key alone.
\<close>

definition lands :: "('d \<Rightarrow> 'k \<Rightarrow> 'v option) \<Rightarrow> 'k \<Rightarrow> 'v option \<Rightarrow> 'd \<Rightarrow> dpErr option \<times> 'd \<Rightarrow> bool" where
  "lands view k v d r \<longleftrightarrow> (case r of
     (None, d') \<Rightarrow> view d' = (view d)(k := v)
   | (Some _, d') \<Rightarrow> (\<forall>k'. k' \<noteq> k \<longrightarrow> view d' k' = view d k'))"

text \<open>A call that is refused as a whole when it fails.\<close>

definition all_or_nothing :: "('d \<Rightarrow> 'v) \<Rightarrow> 'v \<Rightarrow> 'd \<Rightarrow> dpErr option \<times> 'd \<Rightarrow> bool" where
  "all_or_nothing view v d r \<longleftrightarrow> (case r of (None, d') \<Rightarrow> view d' = v | (Some _, d') \<Rightarrow> view d' = view d)"

text \<open>
  A route as the dataplane holds it for a key: nexthop, external flag and delivery VNI. The calls for
  NAT and load balancers and the reading of the interfaces change no route.
\<close>

type_synonym fib_entry = "string \<times> bool \<times> u32"
type_synonym 'd fib = "'d \<Rightarrow> routeRef \<Rightarrow> fib_entry option"

definition routes_ok :: "'d Dataplane \<Rightarrow> 'd fib \<Rightarrow> bool" where
  "routes_ok dp fib \<longleftrightarrow>
     (\<forall>vni p nh ext dvni d. lands fib (vni, p) (Some (nh, ext, dvni)) d (dp_AddRoute dp vni p nh ext dvni d))
   \<and> (\<forall>vni p d. lands fib (vni, p) None d (dp_WithdrawRoute dp vni p d))
   \<and> (\<forall>d. fib (snd (dp_ListInterfaces dp d)) = fib d)
   \<and> (\<forall>ip lo hi owner vni d. fib (snd (dp_AddNeighborNat dp ip lo hi owner vni d)) = fib d)
   \<and> (\<forall>ip lo hi vni d. fib (snd (dp_WithdrawNeighborNat dp ip lo hi vni d)) = fib d)
   \<and> (\<forall>bs d. fib (snd (dp_ReplaceNeighborNats dp bs d)) = fib d)
   \<and> (\<forall>i vni ip ul ports d. fib (snd (dp_AddLoadBalancer dp i vni ip ul ports d)) = fib d)
   \<and> (\<forall>i d. fib (snd (dp_DelLoadBalancer dp i d)) = fib d)
   \<and> (\<forall>i ul ov vni d. fib (snd (dp_AddLbBackend dp i ul ov vni d)) = fib d)
   \<and> (\<forall>i ul ov d. fib (snd (dp_DelLbBackend dp i ul ov d)) = fib d)"

text \<open>In the states \<open>up\<close> the route calls succeed, and the calls stay in these states.\<close>

definition routes_up :: "'d Dataplane \<Rightarrow> ('d \<Rightarrow> bool) \<Rightarrow> bool" where
  "routes_up dp up \<longleftrightarrow> (\<forall>d. up d \<longrightarrow>
     (\<forall>vni p nh ext dvni. fst (dp_AddRoute dp vni p nh ext dvni d) = None \<and> up (snd (dp_AddRoute dp vni p nh ext dvni d)))
   \<and> (\<forall>vni p. fst (dp_WithdrawRoute dp vni p d) = None \<and> up (snd (dp_WithdrawRoute dp vni p d)))
   \<and> up (snd (dp_ListInterfaces dp d)))"

text \<open>
  The neighbor-NAT blocks by address, ports and VNI, with their owner. A replace that the dataplane
  does not know or that never reached it changes nothing.
\<close>

type_synonym nat_id = "string \<times> u32 \<times> u32 \<times> u32"
type_synonym 'd nats = "'d \<Rightarrow> nat_id \<Rightarrow> string option"

definition nn_id :: "NeighborNatBlock \<Rightarrow> nat_id" where
  "nn_id b = (nn_NatIP b, nn_PortMin b, nn_PortMax b, nn_Vni b)"

definition replaces :: "'d nats \<Rightarrow> NeighborNatBlock list \<Rightarrow> 'd \<Rightarrow> dpErr option \<times> 'd \<Rightarrow> bool" where
  "replaces nats bs d r \<longleftrightarrow> (case r of
     (None, d') \<Rightarrow> nats d' = map_of (map (\<lambda>b. (nn_id b, nn_OwnerUnderlay b)) bs)
   | (Some e, d') \<Rightarrow> err_code e = Unimplemented \<or> transientDataplaneError e \<longrightarrow> nats d' = nats d)"

definition nats_ok :: "'d Dataplane \<Rightarrow> 'd nats \<Rightarrow> bool" where
  "nats_ok dp nats \<longleftrightarrow>
     (\<forall>ip lo hi owner vni d. lands nats (ip, lo, hi, vni) (Some owner) d (dp_AddNeighborNat dp ip lo hi owner vni d))
   \<and> (\<forall>ip lo hi vni d. lands nats (ip, lo, hi, vni) None d (dp_WithdrawNeighborNat dp ip lo hi vni d))
   \<and> (\<forall>bs d. replaces nats bs d (dp_ReplaceNeighborNats dp bs d))"

text \<open>
  The load balancers by id: their ports and their backends. Creating one that exists and adding a
  backend to an unknown load balancer, or one it already has, are refused. Deleting an unknown load
  balancer succeeds.
\<close>

type_synonym backend_id = "string \<times> string"
type_synonym lb_view = "LbPort list \<times> (backend_id \<Rightarrow> u32 option)"
type_synonym 'd lbs = "'d \<Rightarrow> string \<Rightarrow> lb_view option"

definition set_backend :: "string \<Rightarrow> backend_id \<Rightarrow> u32 option \<Rightarrow> (string \<Rightarrow> lb_view option) \<Rightarrow> (string \<Rightarrow> lb_view option)" where
  "set_backend i bk v m = (case m i of None \<Rightarrow> m | Some (ports, bs) \<Rightarrow> m(i \<mapsto> (ports, bs(bk := v))))"

definition lbs_ok :: "'d Dataplane \<Rightarrow> 'd lbs \<Rightarrow> bool" where
  "lbs_ok dp lbs \<longleftrightarrow>
     (\<forall>i vni ip ul ports d. all_or_nothing lbs ((lbs d)(i \<mapsto> (ports, \<lambda>_. None))) d (dp_AddLoadBalancer dp i vni ip ul ports d))
   \<and> (\<forall>i vni ip ul ports d. lbs d i \<noteq> None \<longrightarrow> fst (dp_AddLoadBalancer dp i vni ip ul ports d) \<noteq> None)
   \<and> (\<forall>i d. all_or_nothing lbs ((lbs d)(i := None)) d (dp_DelLoadBalancer dp i d))
   \<and> (\<forall>i ul ov vni d. all_or_nothing lbs (set_backend i (ul, ov) (Some vni) (lbs d)) d (dp_AddLbBackend dp i ul ov vni d))
   \<and> (\<forall>i ul ov vni d. lbs d i = None \<longrightarrow> fst (dp_AddLbBackend dp i ul ov vni d) \<noteq> None)
   \<and> (\<forall>i ul ov d. all_or_nothing lbs (set_backend i (ul, ov) None (lbs d)) d (dp_DelLbBackend dp i ul ov d))"

lemma lands_ok: "lands view k v d (None, d') \<longleftrightarrow> view d' = (view d)(k := v)"
  by (simp add: lands_def)

lemma lands_fail: "lands view k v d (Some e, d') \<Longrightarrow> k' \<noteq> k \<Longrightarrow> view d' k' = view d k'"
  by (simp add: lands_def)

lemma routes_okD:
  assumes "routes_ok dp fib"
  shows "lands fib (vni, p) (Some (nh, ext, dvni)) d (dp_AddRoute dp vni p nh ext dvni d)"
    and "lands fib (vni, p) None d (dp_WithdrawRoute dp vni p d)"
    and "fib (snd (dp_ListInterfaces dp d)) = fib d"
    and "fib (snd (dp_AddNeighborNat dp ip lo hi owner vni d)) = fib d"
    and "fib (snd (dp_WithdrawNeighborNat dp ip lo hi vni d)) = fib d"
    and "fib (snd (dp_ReplaceNeighborNats dp bs d)) = fib d"
    and "fib (snd (dp_AddLoadBalancer dp i vni ip ul ports d)) = fib d"
    and "fib (snd (dp_DelLoadBalancer dp i d)) = fib d"
    and "fib (snd (dp_AddLbBackend dp i ul ov vni d)) = fib d"
    and "fib (snd (dp_DelLbBackend dp i ul ov d)) = fib d"
  using assms by (simp_all add: routes_ok_def)

lemma nats_okD:
  assumes "nats_ok dp nats"
  shows "lands nats (ip, lo, hi, vni) (Some owner) d (dp_AddNeighborNat dp ip lo hi owner vni d)"
    and "lands nats (ip, lo, hi, vni) None d (dp_WithdrawNeighborNat dp ip lo hi vni d)"
    and "replaces nats bs d (dp_ReplaceNeighborNats dp bs d)"
  using assms by (simp_all add: nats_ok_def)

lemma lbs_okD:
  assumes "lbs_ok dp lbs"
  shows "all_or_nothing lbs ((lbs d)(i \<mapsto> (ports, \<lambda>_. None))) d (dp_AddLoadBalancer dp i vni ip ul ports d)"
    and "lbs d i \<noteq> None \<Longrightarrow> fst (dp_AddLoadBalancer dp i vni ip ul ports d) \<noteq> None"
    and "all_or_nothing lbs ((lbs d)(i := None)) d (dp_DelLoadBalancer dp i d)"
    and "all_or_nothing lbs (set_backend i (ul, ov) (Some bvni) (lbs d)) d (dp_AddLbBackend dp i ul ov bvni d)"
    and "lbs d i = None \<Longrightarrow> fst (dp_AddLbBackend dp i ul ov bvni d) \<noteq> None"
    and "all_or_nothing lbs (set_backend i (ul, ov) None (lbs d)) d (dp_DelLbBackend dp i ul ov d)"
  using assms by (simp_all add: lbs_ok_def)

section \<open>A dataplane\<close>

text \<open>A dataplane that stores what it is told, with a switch that makes every call fail.\<close>

record store =
  so_down :: bool
  so_fib :: "routeRef \<Rightarrow> fib_entry option"
  so_nats :: "nat_id \<Rightarrow> string option"
  so_lbs :: "string \<Rightarrow> lb_view option"
  so_ifaces :: "LocalInterface list"
  so_instance :: string

definition no_answer :: dpErr where
  "no_answer = DpErr Unavailable ''connection refused''"

definition refused :: dpErr where
  "refused = DpErr OtherCode ''refused''"

definition store_call :: "(store \<Rightarrow> store) \<Rightarrow> store call" where
  "store_call f d = (if so_down d then (Some no_answer, d) else (None, f d))"

definition store_dp :: "store Dataplane" where
  "store_dp = \<lparr>
     dp_AddRoute = (\<lambda>vni p nh ext dvni. store_call (\<lambda>d. d\<lparr>so_fib := (so_fib d)((vni, p) \<mapsto> (nh, ext, dvni))\<rparr>)),
     dp_WithdrawRoute = (\<lambda>vni p. store_call (\<lambda>d. d\<lparr>so_fib := (so_fib d)((vni, p) := None)\<rparr>)),
     dp_AddNatSource = (\<lambda>_ _ _ _ _. store_call id),
     dp_AddNeighborNat = (\<lambda>ip lo hi owner vni.
       store_call (\<lambda>d. d\<lparr>so_nats := (so_nats d)((ip, lo, hi, vni) \<mapsto> owner)\<rparr>)),
     dp_WithdrawNeighborNat = (\<lambda>ip lo hi vni.
       store_call (\<lambda>d. d\<lparr>so_nats := (so_nats d)((ip, lo, hi, vni) := None)\<rparr>)),
     dp_ReplaceNeighborNats = (\<lambda>bs. store_call (\<lambda>d. d\<lparr>so_nats := map_of (map (\<lambda>b. (nn_id b, nn_OwnerUnderlay b)) bs)\<rparr>)),
     dp_ReplaceInterfaceFirewall = (\<lambda>_ _. store_call id),
     dp_AddLoadBalancer = (\<lambda>i _ _ _ ports d. if so_lbs d i \<noteq> None then (Some refused, d)
       else store_call (\<lambda>d. d\<lparr>so_lbs := (so_lbs d)(i \<mapsto> (ports, \<lambda>_. None))\<rparr>) d),
     dp_DelLoadBalancer = (\<lambda>i. store_call (\<lambda>d. d\<lparr>so_lbs := (so_lbs d)(i := None)\<rparr>)),
     dp_AddLbBackend = (\<lambda>i ul ov vni d. case so_lbs d i of
         None \<Rightarrow> (Some refused, d)
       | Some (ports, bs) \<Rightarrow> if bs (ul, ov) \<noteq> None then (Some refused, d)
           else store_call (\<lambda>d. d\<lparr>so_lbs := set_backend i (ul, ov) (Some vni) (so_lbs d)\<rparr>) d),
     dp_DelLbBackend = (\<lambda>i ul ov. store_call (\<lambda>d. d\<lparr>so_lbs := set_backend i (ul, ov) None (so_lbs d)\<rparr>)),
     dp_ConfigureQoS = (\<lambda>_ _ _ _. store_call id),
     dp_ListInterfaces = (\<lambda>d. if so_down d then (Inl no_answer, d) else (Inr (so_ifaces d, so_instance d), d))\<rparr>"

definition empty_store :: store where
  "empty_store = \<lparr>so_down = False, so_fib = (\<lambda>_. None), so_nats = (\<lambda>_. None), so_lbs = (\<lambda>_. None),
     so_ifaces = [], so_instance = ''a''\<rparr>"

lemma store_routes_ok: "routes_ok store_dp so_fib"
  by (auto simp: routes_ok_def store_dp_def store_call_def lands_def split: option.splits prod.splits)

lemma store_routes_up: "routes_up store_dp (\<lambda>d. \<not> so_down d \<and> so_ifaces d = ifs)"
  by (simp add: routes_up_def store_dp_def store_call_def)

lemma store_nats_ok: "nats_ok store_dp so_nats"
  by (simp add: nats_ok_def store_dp_def store_call_def lands_def replaces_def)

lemma store_lbs_ok: "lbs_ok store_dp so_lbs"
  by (auto simp: lbs_ok_def store_dp_def store_call_def all_or_nothing_def set_backend_def split: option.splits prod.splits)

end
