(* ===== verification/Agent_Bus.thy ===== *)
theory Agent_Bus
  imports Dataplane
begin

text \<open>
  The agent's route-bus session driver, its state and its learned routes (\<^verbatim>\<open>mesh/agent/bus.go\<close>).
  The state is the \<^verbatim>\<open>Bus\<close> struct without its mutex and timers; a definition that calls the dataplane
  takes it as \<open>dp\<close> and threads the pair of the bus and the dataplane's state. Logging is left out.
  Tick counters are natural numbers and times integers; route and record counters keep their 32 bits.
\<close>

section \<open>State\<close>

definition PublicVNI :: u32 where
  "PublicVNI = 0"

definition routeCallsPerTick :: nat where
  "routeCallsPerTick = 256"

definition retryMaxTicks :: nat where
  "retryMaxTicks = 60"

definition unsubscribeAfterTicks :: nat where
  "unsubscribeAfterTicks = 3"

text \<open>Five minutes in nanoseconds.\<close>

definition fullResyncEvery :: int where
  "fullResyncEvery = 5 * 60 * 1000000000"

text \<open>Where a programmed route came from; \<open>originNone\<close> is the empty string of the zero value.\<close>

datatype routeOrigin = originNone | originOwn | originPeer | originPublic

record dpRoute =
  dr_nexthop :: string
  dr_external :: bool
  dr_deliveryVNI :: u32
  dr_origin :: routeOrigin

definition zero_route :: dpRoute where
  "zero_route = \<lparr>dr_nexthop = [], dr_external = False, dr_deliveryVNI = 0, dr_origin = originNone\<rparr>"

record ownRoute =
  ow_nexthops :: "string list"
  ow_external :: bool

record routeRetry =
  ry_want :: dpRoute
  ry_wantOK :: bool
  ry_failures :: nat
  ry_nextTick :: nat
  ry_lastError :: string

record natEntry =
  ne_natIP :: string
  ne_portMin :: u32
  ne_portMax :: u32
  ne_vni :: u32

record publicEntry =
  pe_lbIP :: string
  pe_owner :: string
  pe_overlay :: string

record edgeLb =
  el_ports :: "LbPort list"
  el_backends :: "(string \<times> string, u32) gomap"

record Bus =
  b_nodeID :: string
  b_underlay :: string
  b_isEdge :: bool
  b_learnedEdge :: "(string, string) gomap"
  b_egressVNIs :: "u32 list"
  b_learnedPublic :: "(string, string) gomap"
  b_edgeLbs :: "(string, edgeLb) gomap"
  b_installedNat :: "natEntry goset"
  b_seenNat :: "(natEntry, string) gomap"
  b_seenPublic :: "publicEntry goset"
  b_replayingGlobal :: bool
  b_globalRecords :: u32
  b_subscribedVNIs :: "u32 goset"
  b_eorSeen :: "u32 goset"
  b_globalDone :: bool
  b_converged :: bool
  b_peerImports :: "(u32, PeerImport list) gomap"
  b_learnedOwn :: "(u32, (string, ownRoute) gomap) gomap"
  b_programmed :: "(u32, (string, dpRoute) gomap) gomap"
  b_seen :: "(u32, string goset) gomap"
  b_rxRoutes :: "(u32, u32) gomap"
  b_localHosts :: "(u32, string goset) gomap"
  b_ownUnderlays :: "string goset"
  b_dpInstance :: string
  b_dpSeen :: bool
  b_dpUnreachable :: bool
  b_resendQueue :: "routeRef list"
  b_lastFullResync :: int
  b_ticks :: nat
  b_retries :: "(routeRef, routeRetry) gomap"
  b_absentTicks :: "(u32, nat) gomap"

definition NewBus :: "string \<Rightarrow> string \<Rightarrow> bool \<Rightarrow> int \<Rightarrow> Bus" where
  "NewBus nodeID underlay isEdge now = \<lparr>
     b_nodeID = nodeID, b_underlay = underlay, b_isEdge = isEdge,
     b_learnedEdge = [], b_egressVNIs = [], b_learnedPublic = [],
     b_edgeLbs = [], b_installedNat = [], b_seenNat = [], b_seenPublic = [],
     b_replayingGlobal = True, b_globalRecords = 0,
     b_subscribedVNIs = [], b_eorSeen = [], b_globalDone = False, b_converged = False,
     b_peerImports = [], b_learnedOwn = [], b_programmed = [], b_seen = [], b_rxRoutes = [],
     b_localHosts = [], b_ownUnderlays = [],
     b_dpInstance = [], b_dpSeen = False, b_dpUnreachable = False,
     b_resendQueue = [], b_lastFullResync = now, b_ticks = 0, b_retries = [], b_absentTicks = []\<rparr>"

section \<open>What the dataplane should hold\<close>

definition is_local :: "Bus \<Rightarrow> u32 \<Rightarrow> string \<Rightarrow> bool" where
  "is_local b vni p \<longleftrightarrow> p \<in> set (mget0 [] (b_localHosts b) vni)"

fun foreignNexthop :: "Bus \<Rightarrow> string list \<Rightarrow> string" where
  "foreignNexthop b [] = []"
| "foreignNexthop b (nh # nhs) = (if nh \<notin> set (b_ownUnderlays b) then nh else foreignNexthop b nhs)"

definition nexthopFor :: "Bus \<Rightarrow> u32 \<Rightarrow> string \<Rightarrow> string list \<Rightarrow> string option" where
  "nexthopFor b vni p nexthops =
     (if \<not> is_local b vni p then (if length nexthops = 0 then None else Some (hd nexthops))
      else let nh = foreignNexthop b nexthops in if nh \<noteq> [] then Some nh else None)"

definition prefixInCIDRs :: "string \<Rightarrow> string list \<Rightarrow> bool" where
  "prefixInCIDRs p cidrs =
     (case (case ParseCIDR p of Some (ip, _) \<Rightarrow> Some ip | None \<Rightarrow> ParseIP p) of
        None \<Rightarrow> False
      | Some addr \<Rightarrow> list_ex (\<lambda>c. case ParseCIDR c of None \<Rightarrow> False | Some (_, ipnet) \<Rightarrow> ipnet_contains ipnet addr) cidrs)"

text \<open>The first import of the table that covers the prefix and has a usable route for it.\<close>

fun import_route :: "Bus \<Rightarrow> u32 \<Rightarrow> string \<Rightarrow> PeerImport list \<Rightarrow> dpRoute option" where
  "import_route b vni p [] = None"
| "import_route b vni p (im # ims) =
     (case nget (b_learnedOwn b) (pi_PeerVNI im) p of
        None \<Rightarrow> import_route b vni p ims
      | Some r \<Rightarrow>
          if \<not> prefixInCIDRs p (pi_ImportPrefixes im) then import_route b vni p ims
          else (case nexthopFor b vni p (ow_nexthops r) of
                  Some nh \<Rightarrow> Some \<lparr>dr_nexthop = nh, dr_external = False, dr_deliveryVNI = pi_PeerVNI im, dr_origin = originPeer\<rparr>
                | None \<Rightarrow> import_route b vni p ims))"

definition desiredRoute :: "Bus \<Rightarrow> u32 \<Rightarrow> string \<Rightarrow> dpRoute option" where
  "desiredRoute b vni p =
     (case nget (b_learnedOwn b) vni p of
        Some r \<Rightarrow>
          (case nexthopFor b vni p (ow_nexthops r) of
             None \<Rightarrow> None
           | Some nh \<Rightarrow> Some \<lparr>dr_nexthop = nh, dr_external = ow_external r, dr_deliveryVNI = vni, dr_origin = originOwn\<rparr>)
      | None \<Rightarrow>
          (case import_route b vni p (mget0 [] (b_peerImports b) vni) of
             Some r \<Rightarrow> Some r
           | None \<Rightarrow>
               (case mget (b_learnedPublic b) p of
                  Some nh \<Rightarrow>
                    if list_ex (\<lambda>v. v = vni) (b_egressVNIs b)
                    then Some \<lparr>dr_nexthop = nh, dr_external = True, dr_deliveryVNI = PublicVNI, dr_origin = originPublic\<rparr>
                    else None
                | None \<Rightarrow> None)))"

section \<open>Programming one key\<close>

definition setProgrammed :: "u32 \<Rightarrow> string \<Rightarrow> dpRoute \<Rightarrow> Bus \<Rightarrow> Bus" where
  "setProgrammed vni p r b = b\<lparr>b_programmed := nput vni p r (b_programmed b)\<rparr>"

definition forgetProgrammed :: "u32 \<Rightarrow> string \<Rightarrow> Bus \<Rightarrow> Bus" where
  "forgetProgrammed vni p b = b\<lparr>b_programmed := ndel vni p (b_programmed b)\<rparr>"

definition noteSuccess :: "routeRef \<Rightarrow> Bus \<Rightarrow> Bus" where
  "noteSuccess k b = (case mget (b_retries b) k of None \<Rightarrow> b | Some _ \<Rightarrow> b\<lparr>b_retries := mdel k (b_retries b)\<rparr>)"

definition backoff :: "nat \<Rightarrow> nat" where
  "backoff failures = min (2 ^ (min (failures - 1) 30)) retryMaxTicks"

definition noteFailure :: "routeRef \<Rightarrow> dpErr \<Rightarrow> dpRoute \<Rightarrow> bool \<Rightarrow> Bus \<Rightarrow> Bus" where
  "noteFailure k err want wantOK b =
     (if transientDataplaneError err then b
      else let fresh = \<lparr>ry_want = want, ry_wantOK = wantOK, ry_failures = 0, ry_nextTick = 0, ry_lastError = []\<rparr>;
               r = (case mget (b_retries b) k of
                      None \<Rightarrow> fresh
                    | Some r \<Rightarrow> if ry_want r \<noteq> want \<or> ry_wantOK r \<noteq> wantOK then fresh else r);
               r1 = r\<lparr>ry_failures := ry_failures r + 1\<rparr>;
               r2 = r1\<lparr>ry_nextTick := b_ticks b + backoff (ry_failures r1)\<rparr>;
               r3 = (if err_text err \<noteq> ry_lastError r2 then r2\<lparr>ry_lastError := err_text err\<rparr> else r2)
           in b\<lparr>b_retries := mput k r3 (b_retries b)\<rparr>)"

text \<open>Whether a key waits, and the bus after the check: a key that wants another route starts over.\<close>

definition backingOff :: "routeRef \<Rightarrow> routeRetry \<Rightarrow> Bus \<Rightarrow> bool \<times> Bus" where
  "backingOff k r b =
     (case desiredRoute b (fst k) (snd k) of
        None \<Rightarrow> (False, b)
      | Some want \<Rightarrow>
          if \<not> ry_wantOK r \<or> want \<noteq> ry_want r then (False, b\<lparr>b_retries := mdel k (b_retries b)\<rparr>)
          else (b_ticks b < ry_nextTick r, b))"

type_synonym 'd agent = "Bus \<times> 'd"

definition syncKey :: "'d Dataplane \<Rightarrow> u32 \<Rightarrow> string \<Rightarrow> bool \<Rightarrow> 'd agent \<Rightarrow> (bool \<times> dpErr option) \<times> 'd agent" where
  "syncKey dp vni p force s = (case s of (b, d) \<Rightarrow>
     (case desiredRoute b vni p of
        None \<Rightarrow>
          if nget (b_programmed b) vni p = None \<and> \<not> force then ((False, None), (b, d))
          else (case dp_WithdrawRoute dp vni p d of
                  (Some err, d1) \<Rightarrow>
                    ((True, Some err), (setProgrammed vni p zero_route (noteFailure (vni, p) err zero_route False b), d1))
                | (None, d1) \<Rightarrow> ((True, None), (forgetProgrammed vni p (noteSuccess (vni, p) b), d1)))
      | Some want \<Rightarrow>
          if nget (b_programmed b) vni p = Some want \<and> \<not> force then ((False, None), (b, d))
          else (case dp_AddRoute dp vni p (dr_nexthop want) (dr_external want) (dr_deliveryVNI want) d of
                  (Some err, d1) \<Rightarrow>
                    ((True, Some err), (setProgrammed vni p zero_route (noteFailure (vni, p) err want True b), d1))
                | (None, d1) \<Rightarrow> ((True, None), (setProgrammed vni p want (noteSuccess (vni, p) b), d1)))))"

definition sync_key :: "'d Dataplane \<Rightarrow> u32 \<Rightarrow> string \<Rightarrow> bool \<Rightarrow> 'd agent \<Rightarrow> 'd agent" where
  "sync_key dp vni p force s = snd (syncKey dp vni p force s)"

fun sync_all :: "'d Dataplane \<Rightarrow> bool \<Rightarrow> routeRef list \<Rightarrow> 'd agent \<Rightarrow> 'd agent" where
  "sync_all dp force [] s = s"
| "sync_all dp force (k # ks) s = sync_all dp force ks (sync_key dp (fst k) (snd k) force s)"

section \<open>Learning\<close>

definition setLearnedOwn :: "u32 \<Rightarrow> string \<Rightarrow> ownRoute \<Rightarrow> Bus \<Rightarrow> Bus" where
  "setLearnedOwn vni p r b = b\<lparr>b_learnedOwn := nput vni p r (b_learnedOwn b)\<rparr>"

definition delLearnedOwn :: "u32 \<Rightarrow> string \<Rightarrow> Bus \<Rightarrow> Bus" where
  "delLearnedOwn vni p b = b\<lparr>b_learnedOwn := ndel vni p (b_learnedOwn b)\<rparr>"

definition markSeen :: "u32 \<Rightarrow> string \<Rightarrow> Bus \<Rightarrow> Bus" where
  "markSeen vni p b = b\<lparr>b_seen := mput vni (sput p (mget0 [] (b_seen b) vni)) (b_seen b)\<rparr>"

text \<open>The local VNIs that import a peer VNI, each with that import's prefixes.\<close>

definition importersOf :: "Bus \<Rightarrow> u32 \<Rightarrow> (u32 \<times> string list) list" where
  "importersOf b peerVNI = concat (map (\<lambda>(local, imports).
     map (\<lambda>im. (local, pi_ImportPrefixes im)) (filter (\<lambda>im. pi_PeerVNI im = peerVNI) imports)) (b_peerImports b))"

definition syncLearned :: "'d Dataplane \<Rightarrow> u32 \<Rightarrow> string \<Rightarrow> bool \<Rightarrow> 'd agent \<Rightarrow> 'd agent" where
  "syncLearned dp vni p force s =
     (if vni = PublicVNI then sync_all dp False (map (\<lambda>egress. (egress, p)) (b_egressVNIs (fst s))) s
      else let s1 = sync_key dp vni p force s
           in sync_all dp False (map (\<lambda>(local, _). (local, p))
                (filter (\<lambda>(_, prefixes). prefixInCIDRs p prefixes) (importersOf (fst s1) vni))) s1)"

definition apply_update :: "'d Dataplane \<Rightarrow> u32 \<Rightarrow> string \<Rightarrow> string list \<Rightarrow> RouteOp \<Rightarrow> bool \<Rightarrow> 'd agent \<Rightarrow> 'd agent" where
  "apply_update dp vni p nexthops op external s = (case s of (b, d) \<Rightarrow>
     (case op of
        ROUTE_OP_ADD \<Rightarrow>
          let b1 = markSeen vni p b;
              b2 = (if vni = PublicVNI
                    then b1\<lparr>b_learnedPublic := mput p (if length nexthops > 0 then hd nexthops else []) (b_learnedPublic b1)\<rparr>
                    else setLearnedOwn vni p \<lparr>ow_nexthops = nexthops, ow_external = external\<rparr> b1)
          in syncLearned dp vni p True (b2, d)
      | ROUTE_OP_WITHDRAW \<Rightarrow>
          let b1 = (if vni = PublicVNI then b\<lparr>b_learnedPublic := mdel p (b_learnedPublic b)\<rparr> else delLearnedOwn vni p b)
          in syncLearned dp vni p True (b1, d)
      | ROUTE_OP_UNSPECIFIED \<Rightarrow> (b, d)))"

definition resetRouteSnapshot :: "u32 \<Rightarrow> Bus \<Rightarrow> Bus" where
  "resetRouteSnapshot vni b = b\<lparr>b_rxRoutes := mput vni 0 (b_rxRoutes b), b_seen := mput vni [] (b_seen b)\<rparr>"

text \<open>The end of a VNI's snapshot: what was learned and not replayed is forgotten and reprogrammed.\<close>

definition stale_prefixes :: "u32 \<Rightarrow> Bus \<Rightarrow> string list" where
  "stale_prefixes vni b =
     (let seen = mget0 [] (b_seen b) vni
      in filter (\<lambda>p. p \<notin> set seen)
           (if vni = PublicVNI then mkeys (b_learnedPublic b) else mkeys (mget0 [] (b_learnedOwn b) vni)))"

definition pruneVNI :: "'d Dataplane \<Rightarrow> u32 \<Rightarrow> u32 \<Rightarrow> 'd agent \<Rightarrow> 'd agent" where
  "pruneVNI dp vni want s = (case s of (b, d) \<Rightarrow>
     (if mget0 0 (b_rxRoutes b) vni \<noteq> want then (b, d)
      else let stale = stale_prefixes vni b;
               b1 = (if vni = PublicVNI then b\<lparr>b_learnedPublic := fold mdel stale (b_learnedPublic b)\<rparr>
                     else fold (delLearnedOwn vni) stale b)
           in fold (\<lambda>p. syncLearned dp vni p False) stale (b1, d)))"

section \<open>The resync\<close>

definition routeKeys :: "Bus \<Rightarrow> routeRef goset" where
  "routeKeys b = remdups (
     nkeys (b_learnedOwn b)
     @ concat (map (\<lambda>(local, imports). concat (map (\<lambda>im.
         map (\<lambda>p. (local, p)) (filter (\<lambda>p. prefixInCIDRs p (pi_ImportPrefixes im))
           (mkeys (mget0 [] (b_learnedOwn b) (pi_PeerVNI im))))) imports)) (b_peerImports b))
     @ concat (map (\<lambda>vni. map (\<lambda>p. (vni, p)) (mkeys (b_learnedPublic b))) (b_egressVNIs b))
     @ nkeys (b_programmed b))"

definition queueFullResend :: "int \<Rightarrow> Bus \<Rightarrow> Bus" where
  "queueFullResend now b = b\<lparr>
     b_resendQueue := sort_key (\<lambda>k. (\<not> is_local b (fst k) (snd k), fst k, snd k)) (routeKeys b),
     b_lastFullResync := now\<rparr>"

definition unreachable :: "dpErr option \<Rightarrow> bool" where
  "unreachable e = (case e of None \<Rightarrow> False | Some err \<Rightarrow> transientDataplaneError err)"

definition waits :: "routeRef \<Rightarrow> Bus \<Rightarrow> bool \<times> Bus" where
  "waits k b = (case mget (b_retries b) k of None \<Rightarrow> (False, b) | Some r \<Rightarrow> backingOff k r b)"

text \<open>
  The diff pass: the remaining budget, and whether the pass went over every key. It stops when the
  budget is spent and at the first call that did not reach the dataplane.
\<close>

fun diff_pass :: "'d Dataplane \<Rightarrow> routeRef list \<Rightarrow> nat \<Rightarrow> 'd agent \<Rightarrow> (bool \<times> nat) \<times> 'd agent" where
  "diff_pass dp [] budget s = ((True, budget), s)"
| "diff_pass dp (k # ks) budget s =
     (if budget = 0 then ((False, budget), s)
      else let (waiting, b1) = waits k (fst s)
           in if waiting then diff_pass dp ks budget (b1, snd s)
              else let ((sent, err), s1) = syncKey dp (fst k) (snd k) False (b1, snd s);
                       budget1 = (if sent then budget - 1 else budget)
                   in if unreachable err then ((False, budget1), s1) else diff_pass dp ks budget1 s1)"

definition skip_resend :: "Bus \<Rightarrow> routeRef \<Rightarrow> bool" where
  "skip_resend b k \<longleftrightarrow> desiredRoute b (fst k) (snd k) = None
     \<and> nget (b_programmed b) (fst k) (snd k) = None \<and> \<not> is_local b (fst k) (snd k)"

text \<open>The owed re-send, from the head of the queue, within what is left of the budget.\<close>

fun resend_pass :: "'d Dataplane \<Rightarrow> routeRef list \<Rightarrow> nat \<Rightarrow> 'd agent \<Rightarrow> 'd agent" where
  "resend_pass dp [] budget s = ((fst s)\<lparr>b_resendQueue := []\<rparr>, snd s)"
| "resend_pass dp (k # ks) budget s =
     (if budget = 0 then ((fst s)\<lparr>b_resendQueue := k # ks\<rparr>, snd s)
      else if skip_resend (fst s) k then resend_pass dp ks budget s
      else let ((sent, err), s1) = syncKey dp (fst k) (snd k) True s;
               budget1 = (if sent then budget - 1 else budget)
           in if unreachable err then ((fst s1)\<lparr>b_resendQueue := ks\<rparr>, snd s1) else resend_pass dp ks budget1 s1)"

definition resyncRoutes :: "'d Dataplane \<Rightarrow> 'd agent \<Rightarrow> 'd agent" where
  "resyncRoutes dp s = (case s of (b, d) \<Rightarrow>
     let keys = routeKeys b;
         b1 = b\<lparr>b_retries := filter (\<lambda>(k, _). k \<in> set keys) (b_retries b)\<rparr>;
         ((all, budget), s1) = diff_pass dp keys routeCallsPerTick (b1, d)
     in if \<not> all then s1 else resend_pass dp (b_resendQueue (fst s1)) budget s1)"

section \<open>Local interfaces\<close>

definition hostPrefix :: "string \<Rightarrow> string option" where
  "hostPrefix ip = (case ParseIP ip of
     None \<Rightarrow> None
   | Some parsed \<Rightarrow> if To4 parsed \<noteq> None then Some (ip @ ''/32'') else Some (ip @ ''/128''))"

definition add_host :: "u32 \<Rightarrow> string \<Rightarrow> (u32, string goset) gomap \<Rightarrow> (u32, string goset) gomap" where
  "add_host vni ip m = (case hostPrefix ip of
     None \<Rightarrow> m
   | Some p \<Rightarrow> mput vni (sput p (mget0 [] m vni)) m)"

definition hosts_of :: "LocalInterface list \<Rightarrow> (u32, string goset) gomap" where
  "hosts_of ifaces = fold (\<lambda>iface m. if li_Vni iface = 0 then m else fold (add_host (li_Vni iface)) (li_OverlayIPs iface) m) ifaces []"

definition own_of :: "string \<Rightarrow> LocalInterface list \<Rightarrow> string goset" where
  "own_of underlay ifaces =
     fold (\<lambda>iface own. if li_Underlay iface \<noteq> [] then sput (li_Underlay iface) own else own) ifaces [underlay]"

definition releaseLocalHost :: "'d Dataplane \<Rightarrow> u32 \<Rightarrow> string \<Rightarrow> 'd agent \<Rightarrow> 'd agent" where
  "releaseLocalHost dp vni p s = (case s of (b, d) \<Rightarrow>
     let b1 = (case nget (b_learnedOwn b) vni p of
                 None \<Rightarrow> b
               | Some r \<Rightarrow> setLearnedOwn vni p
                   (r\<lparr>ow_nexthops := filter (\<lambda>nh. nh \<notin> set (b_ownUnderlays b)) (ow_nexthops r)\<rparr>) b)
     in sync_key dp vni p True (b1, d))"

definition departed :: "(u32, string goset) gomap \<Rightarrow> (u32, string goset) gomap \<Rightarrow> routeRef list" where
  "departed prev next = concat (map (\<lambda>(vni, ps).
     map (\<lambda>p. (vni, p)) (filter (\<lambda>p. p \<notin> set (mget0 [] next vni)) ps)) prev)"

definition refreshLocalHosts :: "'d Dataplane \<Rightarrow> 'd agent \<Rightarrow> bool \<times> 'd agent" where
  "refreshLocalHosts dp s = (case s of (b, d) \<Rightarrow>
     (case dp_ListInterfaces dp d of
        (Inl _, d1) \<Rightarrow> (False, (b\<lparr>b_dpUnreachable := True\<rparr>, d1))
      | (Inr (ifaces, inst), d1) \<Rightarrow>
          let restarted = (b_dpUnreachable b \<or> (b_dpSeen b \<and> inst \<noteq> b_dpInstance b));
              next = hosts_of ifaces;
              prev = b_localHosts b;
              b1 = b\<lparr>b_dpInstance := inst, b_dpSeen := True, b_dpUnreachable := False,
                     b_localHosts := next, b_ownUnderlays := own_of (b_underlay b) ifaces\<rparr>
          in (restarted, fold (\<lambda>k. releaseLocalHost dp (fst k) (snd k)) (departed prev next) (b1, d1))))"

definition syncRoutes :: "'d Dataplane \<Rightarrow> int \<Rightarrow> 'd agent \<Rightarrow> 'd agent" where
  "syncRoutes dp now s = (case s of (b, d) \<Rightarrow>
     let (restarted, s1) = refreshLocalHosts dp (b\<lparr>b_ticks := b_ticks b + 1\<rparr>, d);
         b2 = (if restarted then queueFullResend now (fst s1) else fst s1);
         b3 = (if b_dpInstance b2 = [] \<and> length (b_resendQueue b2) = 0 \<and> now - b_lastFullResync b2 \<ge> fullResyncEvery
               then queueFullResend now b2 else b2)
     in resyncRoutes dp (b3, snd s1))"

section \<open>Configuration of a tick\<close>

definition setPeerImportsLocked :: "(u32, PeerImport list) gomap \<Rightarrow> Bus \<Rightarrow> Bus" where
  "setPeerImportsLocked m b = b\<lparr>b_peerImports := fold (\<lambda>(local, imports) next.
     mput local (map (\<lambda>im. \<lparr>pi_PeerVNI = pi_PeerVNI im, pi_ImportPrefixes = pi_ImportPrefixes im\<rparr>) imports) next) m []\<rparr>"

definition absent_vnis :: "u32 list \<Rightarrow> Bus \<Rightarrow> u32 goset" where
  "absent_vnis subs b =
     (let absent = filter (\<lambda>vni. vni \<notin> set (vni_set subs)) (mkeys (b_learnedOwn b))
      in if PublicVNI \<notin> set (vni_set subs) \<and> length (b_learnedPublic b) > 0 then sput PublicVNI absent else absent)"

definition forget_absent :: "u32 \<Rightarrow> Bus \<Rightarrow> Bus" where
  "forget_absent vni b =
     (let n = mget0 0 (b_absentTicks b) vni + 1;
          b1 = b\<lparr>b_absentTicks := mput vni n (b_absentTicks b)\<rparr>
      in if n < unsubscribeAfterTicks then b1
         else let b2 = b1\<lparr>b_absentTicks := mdel vni (b_absentTicks b1)\<rparr>
              in if vni = PublicVNI then b2\<lparr>b_learnedPublic := []\<rparr>
                 else b2\<lparr>b_learnedOwn := mdel vni (b_learnedOwn b2)\<rparr>)"

definition forgetUnsubscribed :: "u32 list \<Rightarrow> Bus \<Rightarrow> Bus" where
  "forgetUnsubscribed subs b =
     (let absent = absent_vnis subs b;
          b1 = b\<lparr>b_absentTicks := filter (\<lambda>(vni, _). vni \<in> set absent) (b_absentTicks b)\<rparr>
      in fold forget_absent absent b1)"

section \<open>Convergence\<close>

definition recomputeConvergedLocked :: "Bus \<Rightarrow> Bus" where
  "recomputeConvergedLocked b =
     (if b_converged b \<or> \<not> b_globalDone b then b
      else if list_ex (\<lambda>v. v \<notin> set (b_eorSeen b)) (b_subscribedVNIs b) then b
      else b\<lparr>b_converged := True\<rparr>)"

definition noteSubscribed :: "u32 list \<Rightarrow> Bus \<Rightarrow> Bus" where
  "noteSubscribed vnis b = recomputeConvergedLocked (b\<lparr>b_subscribedVNIs := vni_set vnis\<rparr>)"

definition noteEndOfRIB :: "u32 \<Rightarrow> Bus \<Rightarrow> Bus" where
  "noteEndOfRIB vni b = recomputeConvergedLocked (b\<lparr>b_eorSeen := sput vni (b_eorSeen b)\<rparr>)"

definition noteEndOfGlobal :: "Bus \<Rightarrow> Bus" where
  "noteEndOfGlobal b = recomputeConvergedLocked (b\<lparr>b_globalDone := True\<rparr>)"

definition resetGlobalSnapshot :: "Bus \<Rightarrow> Bus" where
  "resetGlobalSnapshot b = b\<lparr>b_seenNat := [], b_seenPublic := [], b_globalRecords := 0, b_replayingGlobal := True,
     b_globalDone := False, b_eorSeen := []\<rparr>"

end
