(* ===== verification/Agent_Edge.thy ===== *)
theory Agent_Edge
  imports Agent_Bus
begin

text \<open>
  What a WAN edge programs from the global channel: the neighbor-NAT blocks (\<^verbatim>\<open>mesh/agent/bus.go\<close>)
  and the load balancers with their backends (\<^verbatim>\<open>mesh/agent/public.go\<close>), and what the end of the
  global snapshot prunes.
\<close>

section \<open>Neighbor NAT\<close>

definition addNeighborNat :: "'d Dataplane \<Rightarrow> natEntry \<Rightarrow> string \<Rightarrow> 'd agent \<Rightarrow> 'd agent" where
  "addNeighborNat dp e owner s = (case s of (b, d) \<Rightarrow>
     (case dp_AddNeighborNat dp (ne_natIP e) (ne_portMin e) (ne_portMax e) owner (ne_vni e) d of
        (Some _, d1) \<Rightarrow> (b, d1)
      | (None, d1) \<Rightarrow> (b\<lparr>b_installedNat := sput e (b_installedNat b)\<rparr>, d1)))"

definition add_nats :: "'d Dataplane \<Rightarrow> (natEntry \<times> string) list \<Rightarrow> 'd agent \<Rightarrow> 'd agent" where
  "add_nats dp es s = fold (\<lambda>(e, owner). addNeighborNat dp e owner) es s"

definition prune_nat :: "'d Dataplane \<Rightarrow> natEntry \<Rightarrow> 'd agent \<Rightarrow> 'd agent" where
  "prune_nat dp e s = (case s of (b, d) \<Rightarrow>
     if mget (b_seenNat b) e \<noteq> None then (b, d)
     else (case dp_WithdrawNeighborNat dp (ne_natIP e) (ne_portMin e) (ne_portMax e) (ne_vni e) d of
             (Some _, d1) \<Rightarrow> (b, d1)
           | (None, d1) \<Rightarrow> (b\<lparr>b_installedNat := sdel e (b_installedNat b)\<rparr>, d1)))"

definition nat_blocks :: "(natEntry, string) gomap \<Rightarrow> NeighborNatBlock list" where
  "nat_blocks seen = map (\<lambda>(e, owner). \<lparr>nn_NatIP = ne_natIP e, nn_PortMin = ne_portMin e, nn_PortMax = ne_portMax e,
     nn_OwnerUnderlay = owner, nn_Vni = ne_vni e\<rparr>) seen"

definition syncNeighborNats :: "'d Dataplane \<Rightarrow> 'd agent \<Rightarrow> 'd agent" where
  "syncNeighborNats dp s = (case s of (b, d) \<Rightarrow>
     (case dp_ReplaceNeighborNats dp (nat_blocks (b_seenNat b)) d of
        (None, d1) \<Rightarrow> (b\<lparr>b_installedNat := fold sput (mkeys (b_seenNat b)) []\<rparr>, d1)
      | (Some err, d1) \<Rightarrow>
          if transientDataplaneError err then (b, d1)
          else let s1 = add_nats dp (b_seenNat b) (b, d1)
               in if err_code err \<noteq> Unimplemented then s1
                  else fold (prune_nat dp) (b_installedNat (fst s1)) s1))"

definition applyNat :: "'d Dataplane \<Rightarrow> NatBlock \<Rightarrow> RouteOp \<Rightarrow> 'd agent \<Rightarrow> 'd agent" where
  "applyNat dp nu op s = (case s of (b, d) \<Rightarrow>
     if \<not> b_isEdge b \<or> nb_OwnerUnderlay nu = b_underlay b then (b, d)
     else let e = \<lparr>ne_natIP = nb_NatIP nu, ne_portMin = nb_PortMin nu, ne_portMax = nb_PortMax nu, ne_vni = nb_Vni nu\<rparr>
          in (case op of
                ROUTE_OP_ADD \<Rightarrow>
                  let b1 = b\<lparr>b_seenNat := mput e (nb_OwnerUnderlay nu) (b_seenNat b)\<rparr>
                  in if b_replayingGlobal b1 then (b1, d) else addNeighborNat dp e (nb_OwnerUnderlay nu) (b1, d)
              | ROUTE_OP_WITHDRAW \<Rightarrow>
                  let b1 = b\<lparr>b_seenNat := mdel e (b_seenNat b)\<rparr>
                  in (case dp_WithdrawNeighborNat dp (nb_NatIP nu) (nb_PortMin nu) (nb_PortMax nu) (nb_Vni nu) d of
                        (Some _, d1) \<Rightarrow> (b1, d1)
                      | (None, d1) \<Rightarrow> (b1\<lparr>b_installedNat := sdel e (b_installedNat b1)\<rparr>, d1))
              | ROUTE_OP_UNSPECIFIED \<Rightarrow> (b, d)))"

section \<open>Load balancers\<close>

definition stripMask :: "string \<Rightarrow> string" where
  "stripMask cidr = takeWhile (\<lambda>c. c \<noteq> CHR ''/'') cidr"

text \<open>The register call reports success; on a refused create it deletes the id and creates it again.\<close>

definition registerLoadBalancer :: "'d Dataplane \<Rightarrow> string \<Rightarrow> LbPort list \<Rightarrow> 'd agent \<Rightarrow> bool \<times> 'd agent" where
  "registerLoadBalancer dp lbIP ports s = (case s of (b, d) \<Rightarrow>
     let add = dp_AddLoadBalancer dp lbIP PublicVNI lbIP (b_underlay b) ports;
         recorded = b\<lparr>b_edgeLbs := mput lbIP \<lparr>el_ports = ports, el_backends = []\<rparr> (b_edgeLbs b)\<rparr>
     in (case add d of
           (None, d1) \<Rightarrow> (True, (recorded, d1))
         | (Some _, d1) \<Rightarrow>
             (case dp_DelLoadBalancer dp lbIP d1 of
                (Some _, d2) \<Rightarrow> (False, (b, d2))
              | (None, d2) \<Rightarrow>
                  (case add d2 of
                     (Some _, d3) \<Rightarrow> (False, (b, d3))
                   | (None, d3) \<Rightarrow> (True, (recorded, d3))))))"

definition record_backend :: "string \<Rightarrow> string \<times> string \<Rightarrow> u32 \<Rightarrow> Bus \<Rightarrow> Bus" where
  "record_backend lbIP bk vni b = (case mget (b_edgeLbs b) lbIP of
     None \<Rightarrow> b
   | Some lb \<Rightarrow> b\<lparr>b_edgeLbs := mput lbIP (lb\<lparr>el_backends := mput bk vni (el_backends lb)\<rparr>) (b_edgeLbs b)\<rparr>)"

definition attach_backend :: "'d Dataplane \<Rightarrow> string \<Rightarrow> string \<times> string \<Rightarrow> u32 \<Rightarrow> 'd agent \<Rightarrow> 'd agent" where
  "attach_backend dp lbIP bk vni s = (case s of (b, d) \<Rightarrow>
     (case dp_AddLbBackend dp lbIP (fst bk) (snd bk) vni d of
        (Some _, d1) \<Rightarrow> (b, d1)
      | (None, d1) \<Rightarrow> (record_backend lbIP bk vni b, d1)))"

text \<open>The load balancer a backend record needs, created or rebuilt; \<^const>\<open>None\<close> when the call returns early.\<close>

definition ensure_lb :: "'d Dataplane \<Rightarrow> string \<Rightarrow> LbPort list \<Rightarrow> 'd agent \<Rightarrow> bool \<times> 'd agent" where
  "ensure_lb dp lbIP ports s = (case s of (b, d) \<Rightarrow>
     (case mget (b_edgeLbs b) lbIP of
        None \<Rightarrow> registerLoadBalancer dp lbIP ports (b, d)
      | Some lb \<Rightarrow>
          if LbPortsEqual (el_ports lb) ports then (True, (b, d))
          else (case dp_DelLoadBalancer dp lbIP d of
                  (Some _, d1) \<Rightarrow> (False, (b, d1))
                | (None, d1) \<Rightarrow>
                    (case registerLoadBalancer dp lbIP ports (b\<lparr>b_edgeLbs := mdel lbIP (b_edgeLbs b)\<rparr>, d1) of
                       (False, s2) \<Rightarrow> (False, s2)
                     | (True, s2) \<Rightarrow> (True, fold (\<lambda>(pk, pvni). attach_backend dp lbIP pk pvni) (el_backends lb) s2)))))"

definition attached :: "string \<Rightarrow> string \<times> string \<Rightarrow> Bus \<Rightarrow> bool" where
  "attached lbIP bk b \<longleftrightarrow> (case mget (b_edgeLbs b) lbIP of None \<Rightarrow> False | Some lb \<Rightarrow> mget (el_backends lb) bk \<noteq> None)"

definition addLbBackend :: "'d Dataplane \<Rightarrow> PublicRecord \<Rightarrow> 'd agent \<Rightarrow> 'd agent" where
  "addLbBackend dp pp s =
     (let lbIP = stripMask (pr_Prefix pp);
          bk = (pr_OwnerUnderlay pp, pr_OverlayIP pp);
          (ok, s1) = ensure_lb dp lbIP (pr_Ports pp) s
      in if \<not> ok then s1
         else if attached lbIP bk (fst s1) then s1
         else attach_backend dp lbIP bk (pr_Vni pp) s1)"

text \<open>A load balancer without backends is deleted.\<close>

definition drop_empty_lb :: "'d Dataplane \<Rightarrow> string \<Rightarrow> 'd agent \<Rightarrow> 'd agent" where
  "drop_empty_lb dp lbIP s = (case s of (b, d) \<Rightarrow>
     (case mget (b_edgeLbs b) lbIP of
        None \<Rightarrow> (b, d)
      | Some lb \<Rightarrow>
          if length (el_backends lb) > 0 then (b, d)
          else (case dp_DelLoadBalancer dp lbIP d of
                  (Some _, d1) \<Rightarrow> (b, d1)
                | (None, d1) \<Rightarrow> (b\<lparr>b_edgeLbs := mdel lbIP (b_edgeLbs b)\<rparr>, d1))))"

text \<open>Detaching one attached backend; reports whether the dataplane accepted it.\<close>

definition detach_backend :: "'d Dataplane \<Rightarrow> string \<Rightarrow> string \<times> string \<Rightarrow> 'd agent \<Rightarrow> bool \<times> 'd agent" where
  "detach_backend dp lbIP bk s = (case s of (b, d) \<Rightarrow>
     (case dp_DelLbBackend dp lbIP (fst bk) (snd bk) d of
        (Some _, d1) \<Rightarrow> (False, (b, d1))
      | (None, d1) \<Rightarrow> (True, (case mget (b_edgeLbs b) lbIP of
            None \<Rightarrow> b
          | Some lb \<Rightarrow> b\<lparr>b_edgeLbs := mput lbIP (lb\<lparr>el_backends := mdel bk (el_backends lb)\<rparr>) (b_edgeLbs b)\<rparr>, d1))))"

definition delLbBackend :: "'d Dataplane \<Rightarrow> PublicRecord \<Rightarrow> 'd agent \<Rightarrow> 'd agent" where
  "delLbBackend dp pp s =
     (let lbIP = stripMask (pr_Prefix pp);
          bk = (pr_OwnerUnderlay pp, pr_OverlayIP pp)
      in if mget (b_edgeLbs (fst s)) lbIP = None then s
         else let (ok, s1) = (if attached lbIP bk (fst s) then detach_backend dp lbIP bk s else (True, s))
              in if \<not> ok then s1 else drop_empty_lb dp lbIP s1)"

definition applyPublic :: "'d Dataplane \<Rightarrow> PublicRecord \<Rightarrow> RouteOp \<Rightarrow> 'd agent \<Rightarrow> 'd agent" where
  "applyPublic dp pp op s = (case s of (b, d) \<Rightarrow>
     (case pr_Kind pp of
        PUBLIC_KIND_EDGE_UNDERLAY \<Rightarrow>
          let anycast = stripMask (pr_Prefix pp)
          in (case op of
                ROUTE_OP_ADD \<Rightarrow> (b\<lparr>b_learnedEdge := mput anycast (pr_OwnerUnderlay pp) (b_learnedEdge b)\<rparr>, d)
              | ROUTE_OP_WITHDRAW \<Rightarrow> (b\<lparr>b_learnedEdge := mdel anycast (b_learnedEdge b)\<rparr>, d)
              | ROUTE_OP_UNSPECIFIED \<Rightarrow> (b, d))
      | PUBLIC_KIND_LB_IP \<Rightarrow>
          if \<not> b_isEdge b then (b, d)
          else let pe = \<lparr>pe_lbIP = stripMask (pr_Prefix pp), pe_owner = pr_OwnerUnderlay pp, pe_overlay = pr_OverlayIP pp\<rparr>
               in (case op of
                     ROUTE_OP_ADD \<Rightarrow> addLbBackend dp pp (b\<lparr>b_seenPublic := sput pe (b_seenPublic b)\<rparr>, d)
                   | ROUTE_OP_WITHDRAW \<Rightarrow> delLbBackend dp pp (b\<lparr>b_seenPublic := sdel pe (b_seenPublic b)\<rparr>, d)
                   | ROUTE_OP_UNSPECIFIED \<Rightarrow> (b, d))
      | _ \<Rightarrow> (b, d)))"

section \<open>The end of the global snapshot\<close>

definition prune_backend :: "'d Dataplane \<Rightarrow> string \<Rightarrow> string \<times> string \<Rightarrow> 'd agent \<Rightarrow> 'd agent" where
  "prune_backend dp lbIP bk s =
     (if \<lparr>pe_lbIP = lbIP, pe_owner = fst bk, pe_overlay = snd bk\<rparr> \<in> set (b_seenPublic (fst s)) then s
      else snd (detach_backend dp lbIP bk s))"

definition prune_lb :: "'d Dataplane \<Rightarrow> string \<times> edgeLb \<Rightarrow> 'd agent \<Rightarrow> 'd agent" where
  "prune_lb dp entry s = (case entry of (lbIP, lb) \<Rightarrow>
     drop_empty_lb dp lbIP (fold (prune_backend dp lbIP) (mkeys (el_backends lb)) s))"

definition pruneLbBackends :: "'d Dataplane \<Rightarrow> 'd agent \<Rightarrow> 'd agent" where
  "pruneLbBackends dp s = fold (prune_lb dp) (b_edgeLbs (fst s)) s"

definition pruneGlobal :: "'d Dataplane \<Rightarrow> u32 \<Rightarrow> 'd agent \<Rightarrow> 'd agent" where
  "pruneGlobal dp want s = (case s of (b0, d) \<Rightarrow>
     let b = b0\<lparr>b_replayingGlobal := False\<rparr>
     in if b_globalRecords b \<noteq> want then add_nats dp (b_seenNat b) (b, d)
        else pruneLbBackends dp (syncNeighborNats dp (b, d)))"

end
