(* ===== verification/Agent_Session.thy ===== *)
theory Agent_Session
  imports Agent_Edge
begin

text \<open>
  One route-bus session of the agent (\<^verbatim>\<open>mesh/agent/bus.go\<close>): what it sends, how it handles what it
  receives, and the reconcile step. The stream is the list of messages sent so far together with the
  number of sends that will still succeed; a send past it is the stream error that ends the session.
\<close>

section \<open>Sending\<close>

record stream =
  st_sent :: "ClientMsg list"
  st_left :: "nat option"

text \<open>A stream that accepts everything.\<close>

definition open_stream :: stream where
  "open_stream = \<lparr>st_sent = [], st_left = None\<rparr>"

definition stream_Send :: "ClientMsg \<Rightarrow> stream \<Rightarrow> bool \<times> stream" where
  "stream_Send m st = (case st_left st of
     None \<Rightarrow> (True, st\<lparr>st_sent := st_sent st @ [m]\<rparr>)
   | Some 0 \<Rightarrow> (False, st)
   | Some (Suc n) \<Rightarrow> (True, st\<lparr>st_sent := st_sent st @ [m], st_left := Some n\<rparr>))"

fun send_all :: "ClientMsg list \<Rightarrow> stream \<Rightarrow> bool \<times> stream" where
  "send_all [] st = (True, st)"
| "send_all (m # ms) st = (case stream_Send m st of (False, st1) \<Rightarrow> (False, st1) | (True, st1) \<Rightarrow> send_all ms st1)"

definition hello :: "Bus \<Rightarrow> ClientMsg" where
  "hello b = Hello (b_nodeID b) (b_underlay b) (if b_isEdge b then GLOBAL_FEED_ALL else GLOBAL_FEED_NONE)"

definition announce :: "Route \<Rightarrow> ClientMsg" where
  "announce r = Announce \<lparr>an_Vni = rt_Vni r, an_Prefix = rt_Prefix r, an_NexthopUnderlay = rt_Nexthop r,
     an_ExtraNexthops = [], an_External = rt_External r\<rparr>"

definition AnnounceNat_msg :: "NatBlock \<Rightarrow> ClientMsg" where
  "AnnounceNat_msg blk = AnnounceNat \<lparr>nb_Vni = nb_Vni blk, nb_SourceIP = nb_SourceIP blk, nb_NatIP = nb_NatIP blk,
     nb_PortMin = nb_PortMin blk, nb_PortMax = nb_PortMax blk, nb_OwnerUnderlay = nb_OwnerUnderlay blk\<rparr>"

definition portsPB :: "LbPort list \<Rightarrow> LbPort list" where
  "portsPB ports = (if length ports = 0 then [] else map (\<lambda>p. \<lparr>lp_Port = lp_Port p, lp_Proto = lp_Proto p\<rparr>) ports)"

definition publicPrefixPB :: "PublicPrefix \<Rightarrow> PublicRecord" where
  "publicPrefixPB pp = \<lparr>pr_Kind = pr_Kind pp, pr_Prefix = pr_Prefix pp, pr_OwnerUnderlay = pr_OwnerUnderlay pp,
     pr_Vni = pr_Vni pp, pr_PortMin = pr_PortMin pp, pr_PortMax = pr_PortMax pp, pr_OverlayIP = pr_OverlayIP pp,
     pr_Ports = portsPB (pr_Ports pp)\<rparr>"

definition AnnouncePublic_msg :: "PublicPrefix \<Rightarrow> ClientMsg" where
  "AnnouncePublic_msg pp = AnnouncePublic (publicPrefixPB pp)"

text \<open>The subscribes open a replay epoch each, just before they are sent.\<close>

fun send_subscribes :: "u32 list \<Rightarrow> Bus \<times> stream \<Rightarrow> bool \<times> Bus \<times> stream" where
  "send_subscribes [] (b, st) = (True, b, st)"
| "send_subscribes (v # vs) (b, st) =
     (let b1 = resetRouteSnapshot v b
      in case stream_Send (Subscribe v) st of
           (False, st1) \<Rightarrow> (False, b1, st1)
         | (True, st1) \<Rightarrow> send_subscribes vs (b1, st1))"

text \<open>The messages after the subscribes, in the order they are sent.\<close>

definition delta_msgs :: "busDelta \<Rightarrow> ClientMsg list" where
  "delta_msgs d =
     map announce (bd_announceR d) @ map AnnounceNat_msg (bd_announceN d) @ map AnnouncePublic_msg (bd_announceP d)
     @ map (\<lambda>(vni, p). Withdraw vni p) (bd_withdrawR d)
     @ map (\<lambda>(ip, lo, hi). WithdrawNat ip lo hi) (bd_withdrawN d)
     @ map (\<lambda>p. WithdrawPublic (publicPrefixPB p)) (bd_withdrawP d)
     @ map Unsubscribe (bd_unsubscribe d)"

definition sendDelta :: "busDelta \<Rightarrow> Bus \<times> stream \<Rightarrow> bool \<times> Bus \<times> stream" where
  "sendDelta d s = (case send_subscribes (bd_subscribe d) s of
     (False, b, st) \<Rightarrow> (False, b, st)
   | (True, b, st) \<Rightarrow> (case send_all (delta_msgs d) st of (ok, st1) \<Rightarrow> (ok, b, st1)))"

section \<open>The session\<close>

record 'd session_state =
  se_bus :: Bus
  se_dp :: 'd
  se_stream :: stream
  se_applied :: DesiredState

text \<open>
  One reconcile: \<^const>\<open>None\<close> as the desired state is an error of the reconcile function. The result
  says whether the session goes on.
\<close>

definition reconcileStep :: "'d Dataplane \<Rightarrow> int \<Rightarrow> DesiredState option \<Rightarrow> 'd session_state \<Rightarrow> bool \<times> 'd session_state" where
  "reconcileStep dp now reconciled s =
     (case reconciled of
        None \<Rightarrow> let (b, d) = syncRoutes dp now (se_bus s, se_dp s) in (True, s\<lparr>se_bus := b, se_dp := d\<rparr>)
      | Some desired \<Rightarrow>
          let b1 = setPeerImportsLocked (ds_PeeringImports desired) ((se_bus s)\<lparr>b_egressVNIs := ds_EgressVNIs desired\<rparr>);
              b2 = forgetUnsubscribed (ds_Subs desired) (noteSubscribed (ds_Subs desired) b1);
              (b3, d3) = syncRoutes dp now (b2, se_dp s);
              s3 = s\<lparr>se_bus := b3, se_dp := d3\<rparr>;
              delta = diffDesired (se_applied s) desired
          in if delta_empty delta then (True, s3)
             else (case sendDelta delta (b3, se_stream s) of
                     (ok, b4, st) \<Rightarrow>
                       if \<not> ok then (False, s3\<lparr>se_bus := b4, se_stream := st\<rparr>)
                       else (True, s3\<lparr>se_bus := b4, se_stream := st, se_applied := desired\<rparr>)))"

definition handleServerMsg :: "'d Dataplane \<Rightarrow> ServerMsg \<Rightarrow> 'd agent \<Rightarrow> 'd agent" where
  "handleServerMsg dp msg s = (case s of (b, d) \<Rightarrow>
     (case msg of
        RouteUpdate k nexthops op external \<Rightarrow>
          let b1 = (if op = ROUTE_OP_ADD then b\<lparr>b_rxRoutes := mput (fst k) (mget0 0 (b_rxRoutes b) (fst k) + 1) (b_rxRoutes b)\<rparr> else b)
          in apply_update dp (fst k) (snd k) nexthops op external (b1, d)
      | NatUpdate nu op \<Rightarrow> applyNat dp nu op (b\<lparr>b_globalRecords := b_globalRecords b + 1\<rparr>, d)
      | PublicUpdate pp op \<Rightarrow> applyPublic dp pp op (b\<lparr>b_globalRecords := b_globalRecords b + 1\<rparr>, d)
      | EndOfRIB vni n \<Rightarrow> (case pruneVNI dp vni n (b, d) of (b1, d1) \<Rightarrow> (noteEndOfRIB vni b1, d1))
      | EndOfGlobal n \<Rightarrow> (case pruneGlobal dp n (b, d) of (b1, d1) \<Rightarrow> (noteEndOfGlobal b1, d1))
      | ServerKeepAlive \<Rightarrow> (b, d)))"

text \<open>
  The start of \<^verbatim>\<open>Run\<close>: hello, a new snapshot epoch and the first reconcile on an empty applied set.
\<close>

definition open_session :: "'d Dataplane \<Rightarrow> int \<Rightarrow> DesiredState option \<Rightarrow> stream \<Rightarrow> 'd agent \<Rightarrow> bool \<times> 'd session_state" where
  "open_session dp now reconciled st s = (case s of (b, d) \<Rightarrow>
     (case stream_Send (hello b) st of
        (False, st1) \<Rightarrow> (False, \<lparr>se_bus = b, se_dp = d, se_stream = st1, se_applied = no_desired\<rparr>)
      | (True, st1) \<Rightarrow>
          reconcileStep dp now reconciled
            \<lparr>se_bus = resetGlobalSnapshot (b\<lparr>b_seen := [], b_rxRoutes := []\<rparr>), se_dp = d, se_stream = st1,
             se_applied = no_desired\<rparr>))"

text \<open>
  What happens in the life of an agent: it opens a session, a message arrives, the ticker fires, or
  the session ends and another is opened. Between events the dataplane may change its interfaces or
  restart, which is the \<open>Env\<close> event with what it does to the dataplane's state.
\<close>

datatype 'd agent_event =
    Open int "DesiredState option" stream
  | Message ServerMsg
  | Tick int "DesiredState option"
  | Env "'d \<Rightarrow> 'd"

fun agent_step :: "'d Dataplane \<Rightarrow> 'd agent_event \<Rightarrow> 'd session_state \<Rightarrow> 'd session_state" where
  "agent_step dp (Open now reconciled st) s = snd (open_session dp now reconciled st (se_bus s, se_dp s))"
| "agent_step dp (Message msg) s =
     (case handleServerMsg dp msg (se_bus s, se_dp s) of (b, d) \<Rightarrow> s\<lparr>se_bus := b, se_dp := d\<rparr>)"
| "agent_step dp (Tick now reconciled) s = snd (reconcileStep dp now reconciled s)"
| "agent_step dp (Env f) s = s\<lparr>se_dp := f (se_dp s)\<rparr>"

definition agent_run :: "'d Dataplane \<Rightarrow> 'd agent_event list \<Rightarrow> 'd session_state \<Rightarrow> 'd session_state" where
  "agent_run dp evs s = fold (agent_step dp) evs s"

definition new_agent :: "string \<Rightarrow> string \<Rightarrow> bool \<Rightarrow> int \<Rightarrow> 'd \<Rightarrow> 'd session_state" where
  "new_agent nodeID underlay isEdge now d =
     \<lparr>se_bus = NewBus nodeID underlay isEdge now, se_dp = d, se_stream = open_stream, se_applied = no_desired\<rparr>"

end
