(* ===== verification/Agent_Routes.thy ===== *)
theory Agent_Routes
  imports Agent_Session
begin

text \<open>
  The learned routes on the dataplane. What the bus believes it programmed tracks what the dataplane
  holds under every interleaving of messages, ticks, reconnects and failing calls, and the ticks
  converge the dataplane on the wanted routes within a bound once its calls succeed.
\<close>

section \<open>What a key wants and has\<close>

definition want :: "Bus \<Rightarrow> routeRef \<Rightarrow> dpRoute option" where
  "want b k = desiredRoute b (fst k) (snd k)"

definition have_route :: "Bus \<Rightarrow> routeRef \<Rightarrow> dpRoute option" where
  "have_route b k = nget (b_programmed b) (fst k) (snd k)"

definition fib_of :: "dpRoute \<Rightarrow> fib_entry" where
  "fib_of r = (dr_nexthop r, dr_external r, dr_deliveryVNI r)"

text \<open>
  A key the bus has programmed is on the dataplane as programmed, unless its last call failed; a key
  it has not programmed is not there.
\<close>

definition tracked :: "dpRoute option \<Rightarrow> fib_entry option \<Rightarrow> bool" where
  "tracked prog e \<longleftrightarrow> (case prog of None \<Rightarrow> e = None | Some r \<Rightarrow> r = zero_route \<or> e = Some (fib_of r))"

definition tracks :: "'d fib \<Rightarrow> 'd agent \<Rightarrow> bool" where
  "tracks fib s \<longleftrightarrow> (\<forall>k. tracked (have_route (fst s) k) (fib (snd s) k))"

lemma tracked_simps [simp]:
  "tracked None e \<longleftrightarrow> e = None" "tracked (Some r) (Some (fib_of r))" "tracked (Some zero_route) e"
  by (simp_all add: tracked_def)

text \<open>A step that touches nothing but the record of what is programmed and the retries.\<close>

definition only_programs :: "Bus \<Rightarrow> Bus \<Rightarrow> bool" where
  "only_programs b b' \<longleftrightarrow> b' = b\<lparr>b_programmed := b_programmed b', b_retries := b_retries b'\<rparr>"

text \<open>The fields the wanted routes are computed from.\<close>

definition same_wants :: "Bus \<Rightarrow> Bus \<Rightarrow> bool" where
  "same_wants b b' \<longleftrightarrow> b_learnedOwn b' = b_learnedOwn b \<and> b_learnedPublic b' = b_learnedPublic b
     \<and> b_peerImports b' = b_peerImports b \<and> b_egressVNIs b' = b_egressVNIs b
     \<and> b_localHosts b' = b_localHosts b \<and> b_ownUnderlays b' = b_ownUnderlays b"

lemma only_programs_refl [simp]: "only_programs b b"
  by (simp add: only_programs_def)

lemma only_programs_trans: "only_programs a b \<Longrightarrow> only_programs b c \<Longrightarrow> only_programs a c"
  unfolding only_programs_def by (cases a, cases b, cases c) simp

lemma only_programs_wants: "only_programs b b' \<Longrightarrow> same_wants b b'"
  unfolding only_programs_def same_wants_def by (cases b, cases b') simp

lemma only_programs_ticks: "only_programs b b' \<Longrightarrow> b_ticks b' = b_ticks b"
  unfolding only_programs_def by (cases b, cases b') simp

lemma same_wants_refl [simp]: "same_wants b b"
  by (simp add: same_wants_def)

lemma same_wants_trans: "same_wants a b \<Longrightarrow> same_wants b c \<Longrightarrow> same_wants a c"
  by (simp add: same_wants_def)

lemma foreignNexthop_cong: "b_ownUnderlays b' = b_ownUnderlays b \<Longrightarrow> foreignNexthop b' nhs = foreignNexthop b nhs"
  by (induction nhs) auto

lemma nexthopFor_cong: "same_wants b b' \<Longrightarrow> nexthopFor b' = nexthopFor b"
  using foreignNexthop_cong [of b' b] by (simp add: fun_eq_iff nexthopFor_def is_local_def same_wants_def)

lemma import_route_cong:
  assumes "same_wants b b'"
  shows "import_route b' vni p ims = import_route b vni p ims"
proof (induction ims)
  case (Cons im ims)
  with nexthopFor_cong [OF assms] assms show ?case
    by (simp add: same_wants_def cong: option.case_cong if_cong)
qed simp

lemma want_cong: "same_wants b b' \<Longrightarrow> want b' = want b"
proof
  fix k
  assume "same_wants b b'"
  then show "want b' k = want b k"
    using nexthopFor_cong [OF \<open>same_wants b b'\<close>] import_route_cong [OF \<open>same_wants b b'\<close>]
    by (simp add: want_def desiredRoute_def same_wants_def cong: option.case_cong if_cong)
qed

text \<open>A wanted route names its origin, so it is never the zero value.\<close>

lemma import_route_origin: "import_route b vni p ims = Some r \<Longrightarrow> dr_origin r = originPeer"
  by (induction ims) (auto split: option.splits if_splits)

lemma want_nonzero: "want b k = Some r \<Longrightarrow> r \<noteq> zero_route"
  by (auto simp: want_def desiredRoute_def zero_route_def split: option.splits if_splits dest: import_route_origin)

section \<open>Programming one key\<close>

lemma retries_frame [simp]:
  "b_programmed (noteSuccess k b) = b_programmed b" "b_programmed (noteFailure k e w ok b) = b_programmed b"
  by (auto simp: noteSuccess_def noteFailure_def Let_def split: option.splits)

lemma have_set [simp]: "have_route (setProgrammed vni p r b) k = (if k = (vni, p) then Some r else have_route b k)"
  by (cases k) (simp add: have_route_def setProgrammed_def)

lemma have_forget [simp]: "have_route (forgetProgrammed vni p b) k = (if k = (vni, p) then None else have_route b k)"
  by (cases k) (simp add: have_route_def forgetProgrammed_def)

lemma have_retries [simp]:
  "have_route (noteSuccess k' b) = have_route b" "have_route (noteFailure k' e w ok b) = have_route b"
  by (simp_all add: have_route_def fun_eq_iff)

lemma note_only_programs:
  "only_programs b (setProgrammed vni p r (noteSuccess k b))" "only_programs b (forgetProgrammed vni p (noteSuccess k b))"
  "only_programs b (setProgrammed vni p r (noteFailure k e w ok b))"
  by (auto simp: only_programs_def setProgrammed_def forgetProgrammed_def noteSuccess_def noteFailure_def Let_def split: option.split)

lemma syncKey_only: "only_programs (fst s) (fst (snd (syncKey dp vni p force s)))"
  by (cases s) (simp add: syncKey_def note_only_programs split: option.split prod.split)

lemma sync_key_only: "only_programs (fst s) (fst (sync_key dp vni p force s))"
  by (simp add: sync_key_def syncKey_only)

lemma sync_all_only: "only_programs (fst s) (fst (sync_all dp force ks s))"
proof (induction ks arbitrary: s)
  case (Cons k ks)
  show ?case by (simp, rule only_programs_trans [OF sync_key_only Cons])
qed simp

text \<open>What one call changes: the key itself only.\<close>

lemma syncKey_other: "k \<noteq> (vni, p) \<Longrightarrow> have_route (fst (snd (syncKey dp vni p force s))) k = have_route (fst s) k"
  by (cases s) (simp add: syncKey_def split: option.split prod.split)

lemma tracks_set:
  assumes "tracks fib (b, d)" and "have_route b' = (have_route b)(k := v)"
    and "\<forall>k'. k' \<noteq> k \<longrightarrow> fib d' k' = fib d k'" and "tracked v (fib d' k)"
  shows "tracks fib (b', d')"
  using assms by (simp add: tracks_def)

lemma syncKey_tracks:
  assumes "routes_ok dp fib" and "tracks fib s"
  shows "tracks fib (snd (syncKey dp vni p force s))"
proof -
  obtain b d where s: "s = (b, d)" by fastforce
  have add: "tracks fib (setProgrammed vni p w (noteSuccess (vni, p) b), d1)"
    if "dp_AddRoute dp vni p (dr_nexthop w) (dr_external w) (dr_deliveryVNI w) d = (None, d1)" for w d1
    using routes_okD(1) [OF assms(1), of vni p "dr_nexthop w" "dr_external w" "dr_deliveryVNI w" d] that assms(2)
    by - (rule tracks_set [where b = b and d = d and k = "(vni, p)" and v = "Some w"],
      simp_all add: s lands_def fib_of_def fun_eq_iff tracked_def)
  have add_fail: "tracks fib (setProgrammed vni p zero_route (noteFailure (vni, p) e w True b), d1)"
    if "dp_AddRoute dp vni p (dr_nexthop w) (dr_external w) (dr_deliveryVNI w) d = (Some e, d1)" for w e d1
    using routes_okD(1) [OF assms(1), of vni p "dr_nexthop w" "dr_external w" "dr_deliveryVNI w" d] that assms(2)
    by - (rule tracks_set [where b = b and d = d and k = "(vni, p)" and v = "Some zero_route"],
      simp_all add: s fun_eq_iff lands_def)
  have wd: "tracks fib (forgetProgrammed vni p (noteSuccess (vni, p) b), d1)"
    if "dp_WithdrawRoute dp vni p d = (None, d1)" for d1
    using routes_okD(2) [OF assms(1), of vni p d] that assms(2)
    by - (rule tracks_set [where b = b and d = d and k = "(vni, p)" and v = None],
      simp_all add: s lands_def fun_eq_iff)
  have wd_fail: "tracks fib (setProgrammed vni p zero_route (noteFailure (vni, p) e zero_route False b), d1)"
    if "dp_WithdrawRoute dp vni p d = (Some e, d1)" for e d1
    using routes_okD(2) [OF assms(1), of vni p d] that assms(2)
    by - (rule tracks_set [where b = b and d = d and k = "(vni, p)" and v = "Some zero_route"],
      simp_all add: s fun_eq_iff lands_def)
  show ?thesis
    using add add_fail wd wd_fail assms(2) by (simp add: s syncKey_def split: option.split prod.split)
qed

lemma sync_all_tracks: "routes_ok dp fib \<Longrightarrow> tracks fib s \<Longrightarrow> tracks fib (sync_all dp force ks s)"
  by (induction ks arbitrary: s) (simp_all add: sync_key_def syncKey_tracks)

text \<open>A change of the bus that keeps what is programmed.\<close>

lemma tracks_cong: "b_programmed b' = b_programmed b \<Longrightarrow> fib d' = fib d \<Longrightarrow> tracks fib (b', d') = tracks fib (b, d)"
  by (simp add: tracks_def have_route_def)

section \<open>The invariant\<close>

text \<open>The fields the programming of routes works on.\<close>

definition mesh_part :: "Bus \<Rightarrow> (u32, (string, dpRoute) gomap) gomap \<times> (routeRef, routeRetry) gomap \<times> nat" where
  "mesh_part b = (b_programmed b, b_retries b, b_ticks b)"

lemma mesh_part_update [simp]:
  "mesh_part (b\<lparr>b_learnedEdge := x1\<rparr>) = mesh_part b" "mesh_part (b\<lparr>b_egressVNIs := x2\<rparr>) = mesh_part b"
  "mesh_part (b\<lparr>b_learnedPublic := x3\<rparr>) = mesh_part b" "mesh_part (b\<lparr>b_edgeLbs := x4\<rparr>) = mesh_part b"
  "mesh_part (b\<lparr>b_installedNat := x5\<rparr>) = mesh_part b" "mesh_part (b\<lparr>b_seenNat := x6\<rparr>) = mesh_part b"
  "mesh_part (b\<lparr>b_seenPublic := x7\<rparr>) = mesh_part b" "mesh_part (b\<lparr>b_replayingGlobal := x8\<rparr>) = mesh_part b"
  "mesh_part (b\<lparr>b_globalRecords := x9\<rparr>) = mesh_part b" "mesh_part (b\<lparr>b_subscribedVNIs := x10\<rparr>) = mesh_part b"
  "mesh_part (b\<lparr>b_eorSeen := x11\<rparr>) = mesh_part b" "mesh_part (b\<lparr>b_globalDone := x12\<rparr>) = mesh_part b"
  "mesh_part (b\<lparr>b_converged := x13\<rparr>) = mesh_part b" "mesh_part (b\<lparr>b_peerImports := x14\<rparr>) = mesh_part b"
  "mesh_part (b\<lparr>b_learnedOwn := x15\<rparr>) = mesh_part b" "mesh_part (b\<lparr>b_seen := x16\<rparr>) = mesh_part b"
  "mesh_part (b\<lparr>b_rxRoutes := x17\<rparr>) = mesh_part b" "mesh_part (b\<lparr>b_localHosts := x18\<rparr>) = mesh_part b"
  "mesh_part (b\<lparr>b_ownUnderlays := x19\<rparr>) = mesh_part b" "mesh_part (b\<lparr>b_dpInstance := x20\<rparr>) = mesh_part b"
  "mesh_part (b\<lparr>b_dpSeen := x21\<rparr>) = mesh_part b" "mesh_part (b\<lparr>b_dpUnreachable := x22\<rparr>) = mesh_part b"
  "mesh_part (b\<lparr>b_resendQueue := x23\<rparr>) = mesh_part b" "mesh_part (b\<lparr>b_lastFullResync := x24\<rparr>) = mesh_part b"
  "mesh_part (b\<lparr>b_absentTicks := x25\<rparr>) = mesh_part b"
  by (simp_all add: mesh_part_def)

text \<open>No retry is put off by more than \<^const>\<open>retryMaxTicks\<close>.\<close>

definition retry_inv :: "Bus \<Rightarrow> bool" where
  "retry_inv b \<longleftrightarrow> (\<forall>k r. mget (b_retries b) k = Some r \<longrightarrow> ry_nextTick r \<le> b_ticks b + retryMaxTicks)"

definition retries_shrink :: "Bus \<Rightarrow> Bus \<Rightarrow> bool" where
  "retries_shrink b b' \<longleftrightarrow> (\<forall>k r. mget (b_retries b') k = Some r \<longrightarrow> mget (b_retries b) k = Some r)"

lemma retry_inv_shrink: "retries_shrink b b' \<Longrightarrow> b_ticks b \<le> b_ticks b' \<Longrightarrow> retry_inv b \<Longrightarrow> retry_inv b'"
  unfolding retry_inv_def retries_shrink_def by (meson add_le_mono1 le_trans)

lemma retries_shrink_refl [simp]: "retries_shrink b b"
  by (simp add: retries_shrink_def)

lemma retries_shrink_trans: "retries_shrink a b \<Longrightarrow> retries_shrink b c \<Longrightarrow> retries_shrink a c"
  by (simp add: retries_shrink_def)

lemma backoff_le: "backoff n \<le> retryMaxTicks"
  by (simp add: backoff_def)

lemma retry_inv_notes [simp]:
  "retry_inv b \<Longrightarrow> retry_inv (noteSuccess k b)" "retry_inv b \<Longrightarrow> retry_inv (noteFailure k e w ok b)"
  "retry_inv (setProgrammed vni p r b) = retry_inv b" "retry_inv (forgetProgrammed vni p b) = retry_inv b"
  by (auto simp: retry_inv_def noteSuccess_def noteFailure_def setProgrammed_def forgetProgrammed_def Let_def backoff_le
      split: option.splits if_splits)

lemma syncKey_retry: "retry_inv (fst s) \<Longrightarrow> retry_inv (fst (snd (syncKey dp vni p force s)))"
  by (cases s) (simp add: syncKey_def split: option.split prod.split)

definition mesh_inv :: "'d fib \<Rightarrow> 'd agent \<Rightarrow> bool" where
  "mesh_inv fib s \<longleftrightarrow> tracks fib s \<and> retry_inv (fst s)"

lemma mesh_cong: "mesh_part b' = mesh_part b \<Longrightarrow> fib d' = fib d \<Longrightarrow> mesh_inv fib (b', d') = mesh_inv fib (b, d)"
  using tracks_cong [of b' b fib d' d] by (simp add: mesh_inv_def mesh_part_def retry_inv_def)

lemma mesh_shrink:
  assumes "mesh_inv fib (b, d)" and "b_programmed b' = b_programmed b" and "retries_shrink b b'" and "b_ticks b \<le> b_ticks b'"
  shows "mesh_inv fib (b', d)"
  using assms tracks_cong [of b' b fib d d] retry_inv_shrink by (simp add: mesh_inv_def)

lemma syncKey_mesh: "routes_ok dp fib \<Longrightarrow> mesh_inv fib s \<Longrightarrow> mesh_inv fib (snd (syncKey dp vni p force s))"
  by (simp add: mesh_inv_def syncKey_tracks syncKey_retry)

lemma sync_all_mesh: "routes_ok dp fib \<Longrightarrow> mesh_inv fib s \<Longrightarrow> mesh_inv fib (sync_all dp force ks s)"
  by (induction ks arbitrary: s) (simp_all add: sync_key_def syncKey_mesh)

section \<open>Steps that leave the routes alone\<close>

text \<open>All fields but those of the global channel.\<close>

definition route_part :: "Bus \<Rightarrow> Bus" where
  "route_part b = b\<lparr>b_learnedEdge := [], b_edgeLbs := [], b_installedNat := [], b_seenNat := [], b_seenPublic := [],
     b_replayingGlobal := False, b_globalRecords := 0\<rparr>"

lemma route_part_update [simp]:
  "route_part (b\<lparr>b_learnedEdge := x1\<rparr>) = route_part b" "route_part (b\<lparr>b_edgeLbs := x2\<rparr>) = route_part b"
  "route_part (b\<lparr>b_installedNat := x3\<rparr>) = route_part b" "route_part (b\<lparr>b_seenNat := x4\<rparr>) = route_part b"
  "route_part (b\<lparr>b_seenPublic := x5\<rparr>) = route_part b" "route_part (b\<lparr>b_replayingGlobal := x6\<rparr>) = route_part b"
  "route_part (b\<lparr>b_globalRecords := x7\<rparr>) = route_part b"
  by (simp_all add: route_part_def)

lemma route_part_eq:
  assumes "route_part b' = route_part b"
  shows "mesh_part b' = mesh_part b" and "same_wants b b'" and "b_seen b' = b_seen b" and "b_rxRoutes b' = b_rxRoutes b"
  using assms by (cases b, cases b', simp add: route_part_def mesh_part_def same_wants_def)+

definition keeps :: "'d fib \<Rightarrow> 'd agent \<Rightarrow> 'd agent \<Rightarrow> bool" where
  "keeps fib s s' \<longleftrightarrow> route_part (fst s') = route_part (fst s) \<and> fib (snd s') = fib (snd s)"

lemma keeps_refl [simp]: "keeps fib s s"
  by (simp add: keeps_def)

lemma keeps_trans: "keeps fib s t \<Longrightarrow> keeps fib t u \<Longrightarrow> keeps fib s u"
  by (simp add: keeps_def)

lemma keeps_fold: "(\<And>x s. keeps fib s (f x s)) \<Longrightarrow> keeps fib s (fold f xs s)"
proof (induction xs arbitrary: s)
  case (Cons x xs)
  then show ?case using keeps_trans [of fib s "f x s"] by simp
qed simp

lemma inv_keeps: "keeps fib s s' \<Longrightarrow> mesh_inv fib s \<Longrightarrow> mesh_inv fib s'"
  using mesh_cong [of "fst s'" "fst s" fib "snd s'" "snd s"] route_part_eq(1) [of "fst s'" "fst s"] by (simp add: keeps_def)

lemma keeps_addNeighborNat: "routes_ok dp fib \<Longrightarrow> keeps fib s (addNeighborNat dp e owner s)"
  by (simp add: keeps_def addNeighborNat_def split_def routes_okD split: option.split)

lemma keeps_add_nats: "routes_ok dp fib \<Longrightarrow> keeps fib s (add_nats dp es s)"
  unfolding add_nats_def by (rule keeps_fold) (simp add: split_def keeps_addNeighborNat)

lemma keeps_prune_nat: "routes_ok dp fib \<Longrightarrow> keeps fib s (prune_nat dp e s)"
  by (simp add: keeps_def prune_nat_def split_def routes_okD split: option.split)

lemma keeps_syncNeighborNats:
  assumes "routes_ok dp fib"
  shows "keeps fib s (syncNeighborNats dp s)"
proof -
  obtain b d where s: "s = (b, d)" by fastforce
  define r where "r = dp_ReplaceNeighborNats dp (nat_blocks (b_seenNat b)) d"
  have fib: "fib (snd r) = fib d" by (simp add: r_def routes_okD [OF assms])
  have adds: "keeps fib s (add_nats dp es (b, snd r))" for es
    using keeps_add_nats [OF assms, of "(b, snd r)" es] fib by (simp add: keeps_def s)
  have prunes: "keeps fib s (fold (prune_nat dp) ns t)" if "keeps fib s t" for ns t
    using keeps_trans [OF that keeps_fold [where f = "prune_nat dp"]] keeps_prune_nat [OF assms] by blast
  show ?thesis
    using adds prunes fib
    by (auto simp: s syncNeighborNats_def r_def [symmetric] split_def keeps_def Let_def split: option.split)
qed

lemma keeps_applyNat:
  assumes "routes_ok dp fib"
  shows "keeps fib s (applyNat dp nu op s)"
proof -
  obtain b d where s: "s = (b, d)" by fastforce
  have "keeps fib (b, d) (addNeighborNat dp e owner (b\<lparr>b_seenNat := x\<rparr>, d))" for e owner x
    using keeps_addNeighborNat [OF assms, of "(b\<lparr>b_seenNat := x\<rparr>, d)" e owner] by (simp add: keeps_def)
  then show ?thesis
    by (simp add: s applyNat_def Let_def split: RouteOp.split)
      (simp add: keeps_def split_def routes_okD [OF assms] split: option.split)
qed

lemma keeps_registerLoadBalancer:
  assumes "routes_ok dp fib"
  shows "keeps fib s (snd (registerLoadBalancer dp lbIP ports s))"
  by (simp add: keeps_def registerLoadBalancer_def Let_def split_def routes_okD [OF assms] split: option.split)

lemma programmed_record_backend [simp]: "route_part (record_backend lbIP bk vni b) = route_part b"
  by (simp add: record_backend_def split: option.split)

lemma keeps_attach_backend: "routes_ok dp fib \<Longrightarrow> keeps fib s (attach_backend dp lbIP bk vni s)"
  by (simp add: keeps_def attach_backend_def split_def routes_okD split: option.split)

lemma keeps_ensure_lb:
  assumes "routes_ok dp fib"
  shows "keeps fib s (snd (ensure_lb dp lbIP ports s))"
proof -
  obtain b d where s: "s = (b, d)" by fastforce
  define r where "r = dp_DelLoadBalancer dp lbIP d"
  have fib: "fib (snd r) = fib d" by (simp add: r_def routes_okD [OF assms])
  have reg: "keeps fib s (snd (registerLoadBalancer dp lbIP ports (b\<lparr>b_edgeLbs := x\<rparr>, snd r)))" for x
    using keeps_registerLoadBalancer [OF assms, of "(b\<lparr>b_edgeLbs := x\<rparr>, snd r)" lbIP ports] fib by (simp add: keeps_def s)
  have adds: "keeps fib s (fold (\<lambda>(pk, pvni). attach_backend dp lbIP pk pvni) ys t)" if "keeps fib s t" for ys t
    using keeps_trans [OF that keeps_fold [where f = "\<lambda>(pk, pvni). attach_backend dp lbIP pk pvni"]]
      keeps_attach_backend [OF assms] by (simp add: split_def)
  show ?thesis
    using reg adds fib keeps_registerLoadBalancer [OF assms]
    by (auto simp: s ensure_lb_def r_def [symmetric] split_def keeps_def split: option.split bool.split)
qed

lemma keeps_addLbBackend:
  assumes "routes_ok dp fib"
  shows "keeps fib s (addLbBackend dp pp s)"
  using keeps_trans [OF keeps_ensure_lb [OF assms] keeps_attach_backend [OF assms]] keeps_ensure_lb [OF assms]
  by (simp add: addLbBackend_def Let_def split_def)

lemma keeps_drop_empty_lb: "routes_ok dp fib \<Longrightarrow> keeps fib s (drop_empty_lb dp lbIP s)"
  by (simp add: keeps_def drop_empty_lb_def split_def routes_okD split: option.split)

lemma keeps_detach_backend: "routes_ok dp fib \<Longrightarrow> keeps fib s (snd (detach_backend dp lbIP bk s))"
  by (simp add: keeps_def detach_backend_def split_def routes_okD split: option.split)

lemma keeps_delLbBackend:
  assumes "routes_ok dp fib"
  shows "keeps fib s (delLbBackend dp pp s)"
  using keeps_trans [OF keeps_detach_backend [OF assms] keeps_drop_empty_lb [OF assms]]
    keeps_detach_backend [OF assms] keeps_drop_empty_lb [OF assms]
  by (simp add: delLbBackend_def Let_def split_def)

lemma keeps_applyPublic:
  assumes "routes_ok dp fib"
  shows "keeps fib s (applyPublic dp pp op s)"
proof -
  obtain b d where s: "s = (b, d)" by fastforce
  have "keeps fib (b, d) (addLbBackend dp pp (b\<lparr>b_seenPublic := x\<rparr>, d))"
    and "keeps fib (b, d) (delLbBackend dp pp (b\<lparr>b_seenPublic := x\<rparr>, d))" for x
    using keeps_addLbBackend [OF assms, of "(b\<lparr>b_seenPublic := x\<rparr>, d)" pp]
      keeps_delLbBackend [OF assms, of "(b\<lparr>b_seenPublic := x\<rparr>, d)" pp] by (simp_all add: keeps_def)
  then show ?thesis
    by (simp add: s applyPublic_def Let_def split: RouteOp.split PublicKind.split) (simp add: keeps_def)
qed

lemma keeps_pruneLbBackends:
  assumes "routes_ok dp fib"
  shows "keeps fib s (pruneLbBackends dp s)"
proof -
  have "keeps fib s (prune_backend dp lbIP bk s)" for lbIP bk s
    by (simp add: prune_backend_def keeps_detach_backend [OF assms])
  then have "keeps fib s (prune_lb dp entry s)" for entry s
    using keeps_trans [OF keeps_fold [where f = "prune_backend dp (fst entry)"] keeps_drop_empty_lb [OF assms]]
    by (simp add: prune_lb_def split_def)
  then show ?thesis unfolding pruneLbBackends_def by (rule keeps_fold)
qed

lemma keeps_pruneGlobal:
  assumes "routes_ok dp fib"
  shows "keeps fib s (pruneGlobal dp n s)"
proof -
  obtain b d where s: "s = (b, d)" by fastforce
  let ?s1 = "(b\<lparr>b_replayingGlobal := False\<rparr>, d)"
  have "keeps fib s ?s1" by (simp add: s keeps_def)
  then show ?thesis
    using keeps_add_nats [OF assms, of ?s1] keeps_syncNeighborNats [OF assms, of ?s1]
      keeps_pruneLbBackends [OF assms, of "syncNeighborNats dp ?s1"] keeps_trans
    unfolding pruneGlobal_def s by (simp add: Let_def) blast
qed

section \<open>Every step tracks the dataplane\<close>

lemma syncLearned_inv:
  assumes "routes_ok dp fib" and "mesh_inv fib s"
  shows "mesh_inv fib (syncLearned dp vni p force s)"
  using assms by (simp add: syncLearned_def Let_def sync_all_mesh syncKey_mesh sync_key_def)

lemma inv_fold: "mesh_inv fib s \<Longrightarrow> (\<And>x s. mesh_inv fib s \<Longrightarrow> mesh_inv fib (f x s)) \<Longrightarrow> mesh_inv fib (fold f xs s)"
  by (induction xs arbitrary: s) auto

lemma programmed_learned [simp]:
  "mesh_part (markSeen vni p b) = mesh_part b" "mesh_part (setLearnedOwn vni p r b) = mesh_part b"
  "mesh_part (delLearnedOwn vni p b) = mesh_part b" "mesh_part (fold (delLearnedOwn vni) ps b) = mesh_part b"
  "mesh_part (resetRouteSnapshot vni b) = mesh_part b"
proof -
  show "mesh_part (fold (delLearnedOwn vni) ps b) = mesh_part b"
    by (induction ps arbitrary: b) (simp_all add: delLearnedOwn_def)
qed (simp_all add: markSeen_def setLearnedOwn_def delLearnedOwn_def resetRouteSnapshot_def)

lemma apply_update_inv:
  assumes "routes_ok dp fib" and "mesh_inv fib s"
  shows "mesh_inv fib (apply_update dp vni p nhs op ext s)"
proof -
  obtain b d where s: "s = (b, d)" by fastforce
  have "mesh_inv fib (syncLearned dp v p True (b', d))" if "mesh_part b' = mesh_part b" for v b'
    using assms that mesh_cong [of b' b fib d d] by (simp add: s syncLearned_inv)
  then show ?thesis using assms(2) by (simp add: s apply_update_def Let_def split: RouteOp.split)
qed

lemma pruneVNI_inv:
  assumes "routes_ok dp fib" and "mesh_inv fib s"
  shows "mesh_inv fib (pruneVNI dp vni n s)"
proof -
  obtain b d where s: "s = (b, d)" by fastforce
  have "mesh_inv fib (fold (\<lambda>p. syncLearned dp vni p False) ps (b', d))" if "mesh_part b' = mesh_part b" for b' ps
    using assms that mesh_cong [of b' b fib d d] by (intro inv_fold syncLearned_inv) (simp_all add: s)
  then show ?thesis using assms(2) by (simp add: s pruneVNI_def Let_def)
qed

lemma waits_frame:
  "b_programmed (snd (waits k b)) = b_programmed b" "retries_shrink b (snd (waits k b))" "b_ticks (snd (waits k b)) = b_ticks b"
  by (auto simp: waits_def backingOff_def retries_shrink_def split: option.splits if_splits)

lemma waits_inv: "mesh_inv fib (b, d) \<Longrightarrow> mesh_inv fib (snd (waits k b), d)"
  by (erule mesh_shrink) (simp_all add: waits_frame)

lemma diff_pass_inv: "routes_ok dp fib \<Longrightarrow> mesh_inv fib s \<Longrightarrow> mesh_inv fib (snd (diff_pass dp ks budget s))"
proof (induction ks arbitrary: budget s)
  case (Cons k ks)
  let ?s1 = "(snd (waits k (fst s)), snd s)"
  have "mesh_inv fib ?s1"
    using Cons.prems(2) waits_inv [of fib "fst s" "snd s" k] by simp
  with Cons syncKey_mesh [OF Cons.prems(1), of ?s1] show ?case by (simp add: Let_def split_def)
qed simp

lemma resend_pass_inv: "routes_ok dp fib \<Longrightarrow> mesh_inv fib s \<Longrightarrow> mesh_inv fib (resend_pass dp ks budget s)"
proof (induction ks arbitrary: budget s)
  case (Cons k ks)
  have queue: "mesh_inv fib ((fst t)\<lparr>b_resendQueue := q\<rparr>, snd t)" if "mesh_inv fib t" for t q
    using that mesh_cong [of "(fst t)\<lparr>b_resendQueue := q\<rparr>" "fst t" fib "snd t" "snd t"] by simp
  with Cons syncKey_mesh [OF Cons.prems] show ?case by (simp add: Let_def split_def)
next
  case Nil
  then show ?case using mesh_cong [of "(fst s)\<lparr>b_resendQueue := []\<rparr>" "fst s" fib "snd s" "snd s"] by simp
qed

lemma mget_filter_key: "mget (filter (\<lambda>(k, _). P k) m) k = (if P k then mget m k else None)"
  by (induction m) (auto simp: mget_def)

lemma resyncRoutes_inv:
  assumes "routes_ok dp fib" and "mesh_inv fib s"
  shows "mesh_inv fib (resyncRoutes dp s)"
proof -
  obtain b d where s: "s = (b, d)" by fastforce
  have "mesh_inv fib (b\<lparr>b_retries := filter (\<lambda>(k, _). k \<in> set (routeKeys b)) (b_retries b)\<rparr>, d)"
    by (rule mesh_shrink [where b = b]) (use assms(2) in \<open>simp_all add: s retries_shrink_def mget_filter_key\<close>)
  then show ?thesis
    using diff_pass_inv [OF assms(1)] resend_pass_inv [OF assms(1)]
    by (simp add: s resyncRoutes_def Let_def split_def)
qed

lemma releaseLocalHost_inv:
  assumes "routes_ok dp fib" and "mesh_inv fib s"
  shows "mesh_inv fib (releaseLocalHost dp vni p s)"
proof -
  obtain b d where s: "s = (b, d)" by fastforce
  have "mesh_inv fib (sync_key dp vni p True (b', d))" if "mesh_part b' = mesh_part b" for b'
    using assms that mesh_cong [of b' b fib d d] by (simp add: s sync_key_def syncKey_mesh)
  then show ?thesis by (simp add: s releaseLocalHost_def split: option.split)
qed

lemma refreshLocalHosts_inv:
  assumes "routes_ok dp fib" and "mesh_inv fib s"
  shows "mesh_inv fib (snd (refreshLocalHosts dp s))"
proof -
  obtain b d where s: "s = (b, d)" by fastforce
  obtain r d1 where call: "dp_ListInterfaces dp d = (r, d1)" by fastforce
  then have fib: "fib d1 = fib d" using routes_okD(3) [OF assms(1), of d] by simp
  have "mesh_inv fib (b', d1)" if "mesh_part b' = mesh_part b" for b'
    using assms(2) that fib mesh_cong [of b' b fib d1 d] by (simp add: s)
  then show ?thesis
    using inv_fold [where f = "\<lambda>k. releaseLocalHost dp (fst k) (snd k)", OF _ releaseLocalHost_inv [OF assms(1)]]
    by (cases r) (simp_all add: s refreshLocalHosts_def call Let_def split_def)
qed

lemma syncRoutes_inv:
  assumes "routes_ok dp fib" and "mesh_inv fib s"
  shows "mesh_inv fib (syncRoutes dp now s)"
proof -
  obtain b d where s: "s = (b, d)" by fastforce
  let ?r = "snd (refreshLocalHosts dp (b\<lparr>b_ticks := b_ticks b + 1\<rparr>, d))"
  have "mesh_inv fib (b\<lparr>b_ticks := b_ticks b + 1\<rparr>, d)"
    by (rule mesh_shrink [where b = b]) (use assms(2) in \<open>simp_all add: s retries_shrink_def\<close>)
  then have r: "mesh_inv fib ?r" by (rule refreshLocalHosts_inv [OF assms(1)])
  have "mesh_inv fib (resyncRoutes dp (b', snd ?r))" if "mesh_part b' = mesh_part (fst ?r)" for b'
    using r that mesh_cong [of b' "fst ?r" fib "snd ?r" "snd ?r"] by (simp add: resyncRoutes_inv [OF assms(1)])
  then show ?thesis by (simp add: s syncRoutes_def Let_def split_def queueFullResend_def)
qed

lemma programmed_tick [simp]:
  "mesh_part (setPeerImportsLocked m b) = mesh_part b"
  "mesh_part (recomputeConvergedLocked b) = mesh_part b"
  "mesh_part (noteSubscribed vs b) = mesh_part b"
  "mesh_part (noteEndOfRIB vni b) = mesh_part b"
  "mesh_part (noteEndOfGlobal b) = mesh_part b"
  "mesh_part (resetGlobalSnapshot b) = mesh_part b"
  "mesh_part (forgetUnsubscribed vs b) = mesh_part b"
proof -
  have "mesh_part (fold forget_absent vs b) = mesh_part b" for vs b
    by (induction vs arbitrary: b) (simp_all add: forget_absent_def Let_def)
  then show "mesh_part (forgetUnsubscribed vs b) = mesh_part b"
    by (simp add: forgetUnsubscribed_def Let_def)
qed (simp_all add: setPeerImportsLocked_def recomputeConvergedLocked_def noteSubscribed_def noteEndOfRIB_def
    noteEndOfGlobal_def resetGlobalSnapshot_def)

lemma programmed_sendDelta [simp]: "mesh_part (fst (snd (sendDelta d (b, st)))) = mesh_part b"
proof -
  have "mesh_part (fst (snd (send_subscribes vs (b, st)))) = mesh_part b" for vs
    by (induction vs arbitrary: b st) (simp_all add: Let_def split: prod.split bool.split)
  then show ?thesis by (simp add: sendDelta_def split_def split: bool.split)
qed

abbreviation session_inv :: "'d fib \<Rightarrow> 'd session_state \<Rightarrow> bool" where
  "session_inv fib s \<equiv> mesh_inv fib (se_bus s, se_dp s)"

lemma reconcileStep_inv:
  assumes "routes_ok dp fib" and "session_inv fib s"
  shows "session_inv fib (snd (reconcileStep dp now reconciled s))"
proof (cases reconciled)
  case None
  then show ?thesis
    using syncRoutes_inv [OF assms] by (simp add: reconcileStep_def split_def Let_def)
next
  case (Some desired)
  let ?b2 = "forgetUnsubscribed (ds_Subs desired) (noteSubscribed (ds_Subs desired)
      (setPeerImportsLocked (ds_PeeringImports desired) ((se_bus s)\<lparr>b_egressVNIs := ds_EgressVNIs desired\<rparr>)))"
  let ?s3 = "syncRoutes dp now (?b2, se_dp s)"
  have "mesh_inv fib (?b2, se_dp s)"
    using assms(2) mesh_cong [of ?b2 "se_bus s" fib "se_dp s" "se_dp s"] by simp
  then have s3: "mesh_inv fib ?s3" by (rule syncRoutes_inv [OF assms(1)])
  have "mesh_inv fib (fst (snd (sendDelta x (fst ?s3, st))), snd ?s3)" for x st
    using s3 mesh_cong [of "fst (snd (sendDelta x (fst ?s3, st)))" "fst ?s3" fib "snd ?s3" "snd ?s3"] by simp
  then show ?thesis
    using s3 by (simp add: reconcileStep_def Some Let_def split_def)
qed

lemma handleServerMsg_inv:
  assumes "routes_ok dp fib" and "mesh_inv fib s"
  shows "mesh_inv fib (handleServerMsg dp msg s)"
proof -
  obtain b d where s: "s = (b, d)" by fastforce
  have other: "mesh_inv fib (b', d)" if "mesh_part b' = mesh_part b" for b'
    using assms(2) that mesh_cong [of b' b fib d d] by (simp add: s)
  have after: "mesh_inv fib (f (fst t), snd t)" if "mesh_inv fib t" "\<And>b. mesh_part (f b) = mesh_part b" for f t
    using that mesh_cong [of "f (fst t)" "fst t" fib "snd t" "snd t"] by simp
  show ?thesis
  proof (cases msg)
    case (RouteUpdate k nhs op ext)
    then show ?thesis by (simp add: s handleServerMsg_def Let_def apply_update_inv [OF assms(1)] other)
  next
    case (EndOfRIB vni n)
    then show ?thesis
      using after [OF pruneVNI_inv [OF assms]] by (simp add: s handleServerMsg_def split_def)
  next
    case (EndOfGlobal n)
    then show ?thesis
      using after [OF inv_keeps [OF keeps_pruneGlobal [OF assms(1)] assms(2)]]
      by (simp add: s handleServerMsg_def split_def)
  next
    case (NatUpdate nu op)
    then show ?thesis
      using inv_keeps [OF keeps_applyNat [OF assms(1)] other] by (simp add: s handleServerMsg_def)
  next
    case (PublicUpdate pp op)
    then show ?thesis
      using inv_keeps [OF keeps_applyPublic [OF assms(1)] other] by (simp add: s handleServerMsg_def)
  next
    case ServerKeepAlive
    then show ?thesis using assms(2) by (simp add: s handleServerMsg_def)
  qed
qed

lemma open_session_inv:
  assumes "routes_ok dp fib" and "mesh_inv fib s"
  shows "session_inv fib (snd (open_session dp now reconciled st s))"
proof -
  obtain b d where s: "s = (b, d)" by fastforce
  have "mesh_inv fib (resetGlobalSnapshot (b\<lparr>b_seen := [], b_rxRoutes := []\<rparr>), d)"
    using assms(2) mesh_cong [of "resetGlobalSnapshot (b\<lparr>b_seen := [], b_rxRoutes := []\<rparr>)" b fib d d] by (simp add: s)
  then show ?thesis
    using assms(2) reconcileStep_inv [OF assms(1)]
    by (simp add: s open_session_def split_def split: bool.split)
qed

text \<open>Changes of the dataplane between the agent's calls that leave its routes alone.\<close>

definition env_keeps :: "'d fib \<Rightarrow> 'd agent_event list \<Rightarrow> bool" where
  "env_keeps fib evs \<longleftrightarrow> (\<forall>f d. Env f \<in> set evs \<longrightarrow> fib (f d) = fib d)"

lemma agent_step_inv:
  assumes "routes_ok dp fib" and "session_inv fib s" and "env_keeps fib [ev]"
  shows "session_inv fib (agent_step dp ev s)"
proof (cases ev)
  case (Message msg)
  then show ?thesis using handleServerMsg_inv [OF assms(1,2)] by (simp add: split_def)
next
  case (Env f)
  then show ?thesis using assms(2,3) by (simp add: env_keeps_def mesh_inv_def tracks_def)
qed (use assms open_session_inv reconcileStep_inv in \<open>simp_all add: split_def\<close>)

lemma agent_run_inv:
  assumes "routes_ok dp fib" and "session_inv fib s" and "env_keeps fib evs"
  shows "session_inv fib (agent_run dp evs s)"
  using assms(2,3) unfolding agent_run_def
proof (induction evs arbitrary: s)
  case (Cons ev evs)
  then have "env_keeps fib [ev]" "env_keeps fib evs" by (simp_all add: env_keeps_def)
  with Cons agent_step_inv [OF assms(1)] show ?case by simp
qed simp

end
