(* ===== verification/Agent_Converge.thy ===== *)
theory Agent_Converge
  imports Agent_Routes
begin

text \<open>
  The ticks of the agent converge the dataplane on the wanted routes. A tick whose calls succeed
  programs up to \<^const>\<open>routeCallsPerTick\<close> keys that differ; a key that backs off does so for at most
  \<^const>\<open>retryMaxTicks\<close> ticks.
\<close>

section \<open>Calls that succeed\<close>

definition in_sync :: "Bus \<Rightarrow> routeRef \<Rightarrow> bool" where
  "in_sync b k \<longleftrightarrow> have_route b k = want b k"

definition waiting :: "Bus \<Rightarrow> routeRef \<Rightarrow> bool" where
  "waiting b k \<longleftrightarrow> fst (waits k b)"

lemma mget_noteSuccess: "mget (b_retries (noteSuccess k b)) k' = (if k' = k then None else mget (b_retries b) k')"
  by (simp add: noteSuccess_def split: option.split)

lemma b_retries_set [simp]:
  "b_retries (setProgrammed vni p r b) = b_retries b" "b_retries (forgetProgrammed vni p b) = b_retries b"
  by (simp_all add: setProgrammed_def forgetProgrammed_def)

lemma syncKey_up:
  assumes "routes_up dp up" and "up (snd s)"
  shows "fst (syncKey dp (fst k) (snd k) force s) = (force \<or> \<not> in_sync (fst s) k, None)"
    and "have_route (fst (snd (syncKey dp (fst k) (snd k) force s))) = (have_route (fst s))(k := want (fst s) k)"
    and "k' \<noteq> k \<Longrightarrow> mget (b_retries (fst (snd (syncKey dp (fst k) (snd k) force s)))) k' = mget (b_retries (fst s)) k'"
    and "retries_shrink (fst s) (fst (snd (syncKey dp (fst k) (snd k) force s)))"
    and "up (snd (snd (syncKey dp (fst k) (snd k) force s)))"
proof -
  obtain b d where s: "s = (b, d)" by fastforce
  have up: "fst (dp_AddRoute dp vni p nh ext dvni d) = None" "fst (dp_WithdrawRoute dp vni p d) = None"
    "up (snd (dp_AddRoute dp vni p nh ext dvni d))" "up (snd (dp_WithdrawRoute dp vni p d))" for vni p nh ext dvni
    using assms by (simp_all add: routes_up_def s)
  have hr: "nget (b_programmed b) (fst k) (snd k) = have_route b k" by (simp add: have_route_def)
  show "fst (syncKey dp (fst k) (snd k) force s) = (force \<or> \<not> in_sync (fst s) k, None)"
    by (auto simp: s syncKey_def in_sync_def want_def hr split_def up split: option.split)
  show "have_route (fst (snd (syncKey dp (fst k) (snd k) force s))) = (have_route (fst s))(k := want (fst s) k)"
    by (auto simp: s syncKey_def want_def hr split_def up fun_eq_iff split: option.split)
  show "k' \<noteq> k \<Longrightarrow> mget (b_retries (fst (snd (syncKey dp (fst k) (snd k) force s)))) k' = mget (b_retries (fst s)) k'"
    by (simp add: s syncKey_def split_def up mget_noteSuccess split: option.split)
  show "retries_shrink (fst s) (fst (snd (syncKey dp (fst k) (snd k) force s)))"
    by (simp add: s retries_shrink_def syncKey_def split_def up mget_noteSuccess split: option.split)
  show "up (snd (snd (syncKey dp (fst k) (snd k) force s)))"
    using assms(2) by (simp add: s syncKey_def split_def up split: option.split)
qed

text \<open>Whether a key waits depends on what it wants, its retry and the tick.\<close>

lemma waiting_alt: "waiting b k \<longleftrightarrow> (case mget (b_retries b) k of
    None \<Rightarrow> False
  | Some r \<Rightarrow> want b k = Some (ry_want r) \<and> ry_wantOK r \<and> b_ticks b < ry_nextTick r)"
  by (auto simp: waiting_def waits_def backingOff_def want_def split: option.split)

lemma waiting_cong:
  assumes "want b' = want b" and "mget (b_retries b') k = mget (b_retries b) k" and "b_ticks b' = b_ticks b"
  shows "waiting b' k = waiting b k"
  using assms by (simp add: waiting_alt cong: option.case_cong)

lemma waiting_shrink:
  assumes "want b' = want b" and "retries_shrink b b'" and "b_ticks b \<le> b_ticks b'" and "waiting b' k"
  shows "waiting b k"
  using assms by (auto simp: waiting_alt retries_shrink_def split: option.splits)

lemma waits_waiting:
  assumes "waiting b k"
  shows "snd (waits k b) = b"
proof -
  from assms obtain r where "mget (b_retries b) k = Some r" "want b k = Some (ry_want r)" "ry_wantOK r"
    by (auto simp: waiting_alt split: option.splits)
  then show ?thesis by (simp add: waits_def backingOff_def want_def)
qed

lemma waits_only: "only_programs b (snd (waits k b))"
  by (simp add: waits_def backingOff_def only_programs_def split: option.split)

lemma waits_have [simp]: "have_route (snd (waits k b)) = have_route b"
  by (simp add: have_route_def fun_eq_iff waits_frame)

lemma waits_other: "k' \<noteq> k \<Longrightarrow> mget (b_retries (snd (waits k b))) k' = mget (b_retries b) k'"
  by (simp add: waits_def backingOff_def split: option.split)

lemma in_sync_cong: "want b' = want b \<Longrightarrow> have_route b' k = have_route b k \<Longrightarrow> in_sync b' k = in_sync b k"
  by (simp add: in_sync_def)

section \<open>The diff pass\<close>

definition unsettled :: "Bus \<Rightarrow> routeRef list \<Rightarrow> nat" where
  "unsettled b ks = length (filter (\<lambda>k. \<not> in_sync b k \<and> \<not> waiting b k) ks)"

lemma unsettled_cong:
  assumes "\<And>k. k \<in> set ks \<Longrightarrow> in_sync b' k = in_sync b k" and "\<And>k. k \<in> set ks \<Longrightarrow> waiting b' k = waiting b k"
  shows "unsettled b' ks = unsettled b ks"
  unfolding unsettled_def using assms by (intro arg_cong [where f = length] filter_cong) auto

text \<open>What a pass over some keys leaves of the bus.\<close>

definition pass_ok :: "routeRef set \<Rightarrow> Bus \<Rightarrow> Bus \<Rightarrow> bool" where
  "pass_ok K b b' \<longleftrightarrow> same_wants b b' \<and> b_ticks b' = b_ticks b \<and> b_underlay b' = b_underlay b \<and> retries_shrink b b'
     \<and> (\<forall>k. k \<notin> K \<longrightarrow> have_route b' k = have_route b k \<and> mget (b_retries b') k = mget (b_retries b) k)
     \<and> (\<forall>k. in_sync b k \<longrightarrow> in_sync b' k)"

lemma pass_ok_refl [simp]: "pass_ok K b b"
  by (simp add: pass_ok_def)

lemma pass_ok_trans: "pass_ok K b c \<Longrightarrow> pass_ok K c e \<Longrightarrow> pass_ok K b e"
  using same_wants_trans [of b c e] retries_shrink_trans [of b c e] by (simp add: pass_ok_def)

lemma pass_ok_mono: "pass_ok K b c \<Longrightarrow> K \<subseteq> L \<Longrightarrow> pass_ok L b c"
  unfolding pass_ok_def by blast

lemma pass_ok_other:
  assumes "pass_ok K b b'" and "k \<notin> K"
  shows "in_sync b' k = in_sync b k" and "waiting b' k = waiting b k"
proof -
  have w: "want b' = want b" using assms(1) by (intro want_cong) (simp add: pass_ok_def)
  show "in_sync b' k = in_sync b k" by (rule in_sync_cong [OF w]) (use assms in \<open>simp add: pass_ok_def\<close>)
  show "waiting b' k = waiting b k" by (rule waiting_cong [OF w]) (use assms in \<open>simp_all add: pass_ok_def\<close>)
qed

lemma unsettled_pass:
  assumes "k \<notin> set ks" and "pass_ok {k} b b'"
  shows "unsettled b' ks = unsettled b ks"
proof (rule unsettled_cong)
  fix x
  assume "x \<in> set ks"
  with assms(1) have "x \<notin> {k}" by auto
  then show "in_sync b' x = in_sync b x" "waiting b' x = waiting b x" by (rule pass_ok_other [OF assms(2)])+
qed

lemma only_programs_underlay: "only_programs b b' \<Longrightarrow> b_underlay b' = b_underlay b"
  unfolding only_programs_def by (cases b, cases b') simp

lemma waits_pass: "pass_ok {k} b (snd (waits k b))"
  using waits_only [of b k] want_cong [OF only_programs_wants, of b "snd (waits k b)"]
  by (auto simp: pass_ok_def only_programs_wants only_programs_ticks only_programs_underlay waits_frame waits_other in_sync_def)

lemma syncKey_pass:
  assumes "routes_up dp up" and "up (snd s)"
  shows "pass_ok {k} (fst s) (fst (snd (syncKey dp (fst k) (snd k) force s)))"
proof -
  let ?b' = "fst (snd (syncKey dp (fst k) (snd k) force s))"
  have only: "only_programs (fst s) ?b'" by (rule syncKey_only)
  then have "want ?b' = want (fst s)" by (intro want_cong only_programs_wants)
  then show ?thesis
    using only by (auto simp: pass_ok_def only_programs_wants only_programs_ticks only_programs_underlay syncKey_up [OF assms] in_sync_def)
qed

lemma syncKey_settles:
  assumes "routes_up dp up" and "up (snd s)"
  shows "in_sync (fst (snd (syncKey dp (fst k) (snd k) force s))) k"
  using want_cong [OF only_programs_wants [OF syncKey_only [of s dp "fst k" "snd k" force]]]
  by (simp add: in_sync_def syncKey_up [OF assms])

lemma diff_pass_up:
  assumes "routes_up dp up" and "distinct ks" and "up (snd s)"
  shows "pass_ok (set ks) (fst s) (fst (snd (diff_pass dp ks budget s)))
     \<and> unsettled (fst (snd (diff_pass dp ks budget s))) ks = unsettled (fst s) ks - budget
     \<and> up (snd (snd (diff_pass dp ks budget s)))"
  using assms(2,3)
proof (induction ks arbitrary: budget s)
  case Nil
  then show ?case by (simp add: unsettled_def)
next
  case (Cons k ks)
  obtain b d where s: "s = (b, d)" by fastforce
  have notin: "k \<notin> set ks" and dist: "distinct ks" and d: "up d" using Cons.prems s by auto
  have split: "unsettled c (k # ks) = (if \<not> in_sync c k \<and> \<not> waiting c k then 1 else 0) + unsettled c ks" for c
    by (simp add: unsettled_def)
  show ?case
  proof (cases "budget = 0")
    case True
    then show ?thesis using Cons.prems(2) by (simp add: s)
  next
    case False
    define b1 where "b1 = snd (waits k b)"
    have b1: "pass_ok {k} b b1" by (simp add: b1_def waits_pass)
    show ?thesis
    proof (cases "waiting b k")
      case True
      then have eq: "diff_pass dp (k # ks) budget s = diff_pass dp ks budget s"
        using False waits_waiting [OF True] by (simp add: s waiting_def split_def Let_def)
      note IH = Cons.IH [OF dist Cons.prems(2), of budget]
      have "waiting (fst (snd (diff_pass dp ks budget s))) k"
        using pass_ok_other(2) [OF conjunct1 [OF IH] notin] True by (simp add: s)
      with IH True show ?thesis
        unfolding eq split by (auto simp: s intro: pass_ok_mono)
    next
      case nowait: False
      let ?r = "syncKey dp (fst k) (snd k) False (b1, d)"
      let ?s2 = "snd ?r"
      let ?budget = "if \<not> in_sync b1 k then budget - 1 else budget"
      have eq: "diff_pass dp (k # ks) budget s = diff_pass dp ks ?budget ?s2"
        using False nowait d syncKey_up(1) [OF assms(1), of "(b1, d)" k False]
        by (simp add: s waiting_def b1_def split_def Let_def unreachable_def)
      have s2: "pass_ok {k} b (fst ?s2)"
        using pass_ok_trans [OF b1 syncKey_pass [OF assms(1), of "(b1, d)" k False, simplified]] d by simp
      have "up (snd ?s2)" using syncKey_up(5) [OF assms(1), of "(b1, d)"] d by simp
      note IH = Cons.IH [OF dist this, of ?budget]
      have sync2: "in_sync (fst ?s2) k" by (rule syncKey_settles [OF assms(1)]) (simp add: d)
      then have "in_sync (fst (snd (diff_pass dp ks ?budget ?s2))) k"
        using pass_ok_other(1) [OF conjunct1 [OF IH] notin] by simp
      moreover have "in_sync b1 k = in_sync b k"
        using b1 want_cong [of b b1] by (simp add: pass_ok_def in_sync_def b1_def)
      moreover have "pass_ok (set (k # ks)) b (fst (snd (diff_pass dp ks ?budget ?s2)))"
        by (rule pass_ok_trans [OF pass_ok_mono [OF s2] pass_ok_mono [OF conjunct1 [OF IH]]]) auto
      ultimately show ?thesis
        using IH unsettled_pass [OF notin s2] nowait False unfolding eq split by (simp add: s)
    qed
  qed
qed

section \<open>Every differing key is visited\<close>

lemma nget_nkeys:
  assumes "nget m a b \<noteq> None"
  shows "(a, b) \<in> set (nkeys m)"
proof -
  obtain inner where "mget m a = Some inner" "mget inner b \<noteq> None"
    using assms by (auto simp: nget_def mget0_def split: option.splits)
  then show ?thesis by (force simp: nkeys_def mkeys_iff dest: mget_in)
qed

lemma import_route_some:
  "import_route b vni p ims \<noteq> None \<Longrightarrow>
     \<exists>im \<in> set ims. nget (b_learnedOwn b) (pi_PeerVNI im) p \<noteq> None \<and> prefixInCIDRs p (pi_ImportPrefixes im)"
  by (induction ims) (auto split: option.splits if_splits)

lemma routeKeys_parts:
  "k \<in> set (nkeys (b_learnedOwn b)) \<Longrightarrow> k \<in> set (routeKeys b)"
  "(local, ims) \<in> set (b_peerImports b) \<Longrightarrow> im \<in> set ims \<Longrightarrow> prefixInCIDRs p (pi_ImportPrefixes im) \<Longrightarrow>
     p \<in> set (mkeys (mget0 [] (b_learnedOwn b) (pi_PeerVNI im))) \<Longrightarrow> (local, p) \<in> set (routeKeys b)"
  "vni \<in> set (b_egressVNIs b) \<Longrightarrow> p \<in> set (mkeys (b_learnedPublic b)) \<Longrightarrow> (vni, p) \<in> set (routeKeys b)"
  "k \<in> set (nkeys (b_programmed b)) \<Longrightarrow> k \<in> set (routeKeys b)"
  unfolding routeKeys_def by force+

lemma want_key:
  assumes "want b k \<noteq> None"
  shows "k \<in> set (routeKeys b)"
proof -
  obtain vni p where k: "k = (vni, p)" by fastforce
  consider (own) "nget (b_learnedOwn b) vni p \<noteq> None"
    | (peer) "import_route b vni p (mget0 [] (b_peerImports b) vni) \<noteq> None"
    | (public) "mget (b_learnedPublic b) p \<noteq> None" "vni \<in> set (b_egressVNIs b)"
    using assms by (auto simp: want_def k desiredRoute_def list_ex_iff split: option.splits if_splits)
  then show ?thesis
  proof cases
    case own
    then show ?thesis by (simp add: k nget_nkeys routeKeys_parts)
  next
    case peer
    from import_route_some [OF this] obtain im where im: "im \<in> set (mget0 [] (b_peerImports b) vni)"
      "nget (b_learnedOwn b) (pi_PeerVNI im) p \<noteq> None" "prefixInCIDRs p (pi_ImportPrefixes im)" by auto
    from im(1) obtain ims where "(vni, ims) \<in> set (b_peerImports b)" "im \<in> set ims"
      using mget_in [of "b_peerImports b" vni] by (cases "mget (b_peerImports b) vni") (auto simp: mget0_def)
    with im show ?thesis
      unfolding k using routeKeys_parts(2) [of vni ims b im p] by (simp add: mkeys_iff nget_def)
  next
    case public
    then show ?thesis by (simp add: k mkeys_iff routeKeys_parts)
  qed
qed

lemma not_in_sync_key: "\<not> in_sync b k \<Longrightarrow> k \<in> set (routeKeys b)"
  using want_key [of b k] nget_nkeys [of "b_programmed b" "fst k" "snd k"] routeKeys_parts(4) [of k b]
  by (cases "want b k") (auto simp: in_sync_def have_route_def)

section \<open>One tick\<close>

text \<open>The number of keys whose programmed route is not the wanted one.\<close>

definition drift :: "Bus \<Rightarrow> nat" where
  "drift b = length (filter (\<lambda>k. \<not> in_sync b k) (routeKeys b))"

lemma drift_card: "drift b = card {k. \<not> in_sync b k}"
proof -
  have "{k. \<not> in_sync b k} = set (filter (\<lambda>k. \<not> in_sync b k) (routeKeys b))"
    using not_in_sync_key by auto
  moreover have "distinct (filter (\<lambda>k. \<not> in_sync b k) (routeKeys b))"
    by (simp add: routeKeys_def)
  ultimately show ?thesis by (metis drift_def distinct_card)
qed

lemma drift_finite: "finite {k. \<not> in_sync b k}"
  by (rule finite_subset [of _ "set (routeKeys b)"]) (auto simp: not_in_sync_key)

lemma drift_mono: "(\<And>k. in_sync b k \<Longrightarrow> in_sync b' k) \<Longrightarrow> drift b' \<le> drift b"
  unfolding drift_card by (rule card_mono [OF drift_finite]) auto

lemma drift_zero: "drift b = 0 \<longleftrightarrow> (\<forall>k. in_sync b k)"
  unfolding drift_card by (simp add: card_eq_0_iff drift_finite)

text \<open>What a tick leaves of the bus.\<close>

definition tick_ok :: "Bus \<Rightarrow> Bus \<Rightarrow> bool" where
  "tick_ok b b' \<longleftrightarrow> same_wants b b' \<and> b_underlay b' = b_underlay b \<and> retries_shrink b b' \<and> (\<forall>k. in_sync b k \<longrightarrow> in_sync b' k)"

lemma tick_ok_trans: "tick_ok a b \<Longrightarrow> tick_ok b c \<Longrightarrow> tick_ok a c"
  using same_wants_trans [of a b c] retries_shrink_trans [of a b c] by (simp add: tick_ok_def)

lemma pass_tick: "pass_ok K b b' \<Longrightarrow> tick_ok b b'"
  by (simp add: pass_ok_def tick_ok_def)

lemma tick_ok_frame:
  assumes "same_wants b b'" and "b_programmed b' = b_programmed b" and "b_underlay b' = b_underlay b" and "retries_shrink b b'"
  shows "tick_ok b b'"
  using assms want_cong [OF assms(1)] by (simp add: tick_ok_def in_sync_def have_route_def)

lemma tick_drift: "tick_ok b b' \<Longrightarrow> drift b' \<le> drift b"
  by (rule drift_mono) (simp add: tick_ok_def)

lemma queue_tick: "tick_ok b (b\<lparr>b_resendQueue := q\<rparr>)"
  by (rule tick_ok_frame) (simp_all add: same_wants_def retries_shrink_def)

lemma resend_pass_up:
  assumes "routes_up dp up" and "up (snd s)"
  shows "tick_ok (fst s) (fst (resend_pass dp ks budget s)) \<and> b_ticks (fst (resend_pass dp ks budget s)) = b_ticks (fst s)
     \<and> up (snd (resend_pass dp ks budget s))"
  using assms(2)
proof (induction ks arbitrary: budget s)
  case Nil
  then show ?case by (simp add: queue_tick)
next
  case (Cons k ks)
  let ?s1 = "snd (syncKey dp (fst k) (snd k) True s)"
  have s1: "pass_ok {k} (fst s) (fst ?s1)" by (rule syncKey_pass [OF assms(1) Cons.prems])
  have up1: "up (snd ?s1)" by (rule syncKey_up(5) [OF assms(1) Cons.prems])
  have "tick_ok (fst s) (fst (resend_pass dp ks n ?s1))" for n
    by (rule tick_ok_trans [OF pass_tick [OF s1] conjunct1 [OF Cons.IH [OF up1]]])
  moreover have "b_ticks (fst ?s1) = b_ticks (fst s)" using s1 by (simp add: pass_ok_def)
  ultimately show ?case
    using Cons up1 queue_tick syncKey_up(1) [OF assms(1) Cons.prems, of k True] by (simp add: Let_def split_def unreachable_def)
qed

lemma unsettled_drift:
  assumes "\<And>k. \<not> waiting b k" and "set ks = set (routeKeys b)" and "distinct ks"
  shows "unsettled b ks = drift b"
proof -
  have "{k. \<not> in_sync b k} = set (filter (\<lambda>k. \<not> in_sync b k) ks)"
    using not_in_sync_key assms(2) by auto
  moreover have "distinct (filter (\<lambda>k. \<not> in_sync b k) ks)" using assms(3) by simp
  moreover have "unsettled b ks = length (filter (\<lambda>k. \<not> in_sync b k) ks)" using assms(1) by (simp add: unsettled_def)
  ultimately show ?thesis by (metis drift_card distinct_card)
qed

lemma resyncRoutes_up:
  assumes "routes_up dp up" and "up d"
  shows "tick_ok b (fst (resyncRoutes dp (b, d)))" and "b_ticks (fst (resyncRoutes dp (b, d))) = b_ticks b"
    and "up (snd (resyncRoutes dp (b, d)))"
    and "(\<And>k. \<not> waiting b k) \<Longrightarrow> drift (fst (resyncRoutes dp (b, d))) \<le> drift b - routeCallsPerTick"
proof -
  define b1 where "b1 = b\<lparr>b_retries := filter (\<lambda>(k, _). k \<in> set (routeKeys b)) (b_retries b)\<rparr>"
  define r where "r = diff_pass dp (routeKeys b) routeCallsPerTick (b1, d)"
  define s' where "s' = resyncRoutes dp (b, d)"
  have b1: "tick_ok b b1"
    by (rule tick_ok_frame) (simp_all add: b1_def same_wants_def retries_shrink_def mget_filter_key)
  have dist: "distinct (routeKeys b)" by (simp add: routeKeys_def)
  note pass = diff_pass_up [OF assms(1) dist, of "(b1, d)" routeCallsPerTick, folded r_def, simplified, OF assms(2)]
  have s': "s' = (if fst (fst r) then resend_pass dp (b_resendQueue (fst (snd r))) (snd (fst r)) (snd r) else snd r)"
    by (simp add: s'_def resyncRoutes_def r_def b1_def Let_def split_def)
  have r': "tick_ok (fst (snd r)) (fst s')" and tick': "b_ticks (fst s') = b_ticks (fst (snd r))" and up': "up (snd s')"
    unfolding s' using resend_pass_up [OF assms(1), of "snd r"] pass by (simp_all add: tick_ok_def)
  have br: "tick_ok b (fst (snd r))" using tick_ok_trans [OF b1 pass_tick] pass by blast
  show "tick_ok b (fst (resyncRoutes dp (b, d)))" using tick_ok_trans [OF br r'] by (simp add: s'_def)
  show "b_ticks (fst (resyncRoutes dp (b, d))) = b_ticks b"
    using tick' pass by (simp add: s'_def pass_ok_def b1_def)
  show "up (snd (resyncRoutes dp (b, d)))" using up' by (simp add: s'_def)
  assume nowait: "\<And>k. \<not> waiting b k"
  have nowait1: "\<not> waiting b1 k" for k
    using nowait [of k] waiting_shrink [of b1 b k] b1 want_cong [of b b1] by (auto simp: tick_ok_def b1_def)
  have nowait2: "\<not> waiting (fst (snd r)) k" for k
    using nowait [of k] waiting_shrink [of "fst (snd r)" b k] br want_cong [of b "fst (snd r)"] pass
    by (auto simp: tick_ok_def pass_ok_def b1_def)
  have keys: "routeKeys b1 = routeKeys b" by (simp add: routeKeys_def b1_def)
  have cover: "{k. \<not> in_sync (fst (snd r)) k} \<subseteq> set (routeKeys b)"
    using br not_in_sync_key by (auto simp: tick_ok_def)
  have "drift (fst (snd r)) = length (filter (\<lambda>k. \<not> in_sync (fst (snd r)) k) (routeKeys b))"
  proof -
    have "{k. \<not> in_sync (fst (snd r)) k} = set (filter (\<lambda>k. \<not> in_sync (fst (snd r)) k) (routeKeys b))"
      using cover by auto
    then show ?thesis by (metis drift_card distinct_card distinct_filter dist)
  qed
  also have "\<dots> = unsettled (fst (snd r)) (routeKeys b)" using nowait2 by (simp add: unsettled_def)
  also have "\<dots> = unsettled b1 (routeKeys b) - routeCallsPerTick" using pass by simp
  also have "\<dots> = drift b1 - routeCallsPerTick"
    using unsettled_drift [OF nowait1, of "routeKeys b"] dist keys by simp
  also have "\<dots> \<le> drift b - routeCallsPerTick" using tick_drift [OF b1] by simp
  finally show "drift (fst (resyncRoutes dp (b, d))) \<le> drift b - routeCallsPerTick"
    using tick_drift [OF r'] by (simp add: s'_def)
qed

section \<open>Ticks\<close>

lemma mwf_fold: "mwf m \<Longrightarrow> (\<And>x m. mwf m \<Longrightarrow> mwf (f x m)) \<Longrightarrow> mwf (fold f xs m)"
  by (induction xs arbitrary: m) auto

lemma hosts_mwf: "mwf (hosts_of ifaces)"
proof -
  have "mwf (add_host vni ip m)" if "mwf m" for vni ip m
    using that by (simp add: add_host_def split: option.split)
  then show ?thesis unfolding hosts_of_def by (intro mwf_fold) (simp_all add: mwf_fold)
qed

lemma departed_self:
  assumes "mwf m"
  shows "departed m m = []"
proof -
  have "mget0 [] m vni = ps" if "(vni, ps) \<in> set m" for vni ps
    using that assms by (simp add: mget_iff mget0_def)
  then show ?thesis by (auto simp: departed_def filter_empty_conv)
qed

text \<open>The local interfaces the dataplane reports are those the bus already knows.\<close>

definition steady :: "'d Dataplane \<Rightarrow> ('d \<Rightarrow> bool) \<Rightarrow> Bus \<Rightarrow> bool" where
  "steady dp up b \<longleftrightarrow> (\<forall>d. up d \<longrightarrow> (case fst (dp_ListInterfaces dp d) of
     Inl _ \<Rightarrow> True
   | Inr (ifs, _) \<Rightarrow> hosts_of ifs = b_localHosts b \<and> own_of (b_underlay b) ifs = b_ownUnderlays b))"

lemma steady_tick: "steady dp up b \<Longrightarrow> tick_ok b b' \<Longrightarrow> steady dp up b'"
  by (simp add: steady_def tick_ok_def same_wants_def cong: sum.case_cong prod.case_cong)

lemma refresh_steady:
  assumes "steady dp up b" and "up d"
  shows "tick_ok b (fst (snd (refreshLocalHosts dp (b, d))))"
    and "b_retries (fst (snd (refreshLocalHosts dp (b, d)))) = b_retries b"
    and "b_ticks (fst (snd (refreshLocalHosts dp (b, d)))) = b_ticks b"
    and "snd (snd (refreshLocalHosts dp (b, d))) = snd (dp_ListInterfaces dp d)"
    and "b_programmed (fst (snd (refreshLocalHosts dp (b, d)))) = b_programmed b"
proof -
  obtain r d1 where call: "dp_ListInterfaces dp d = (r, d1)" by fastforce
  have "tick_ok b (fst (snd (refreshLocalHosts dp (b, d)))) \<and> b_retries (fst (snd (refreshLocalHosts dp (b, d)))) = b_retries b
    \<and> b_ticks (fst (snd (refreshLocalHosts dp (b, d)))) = b_ticks b \<and> snd (snd (refreshLocalHosts dp (b, d))) = d1
    \<and> b_programmed (fst (snd (refreshLocalHosts dp (b, d)))) = b_programmed b"
  proof (cases r)
    case (Inl e)
    have "tick_ok b (b\<lparr>b_dpUnreachable := True\<rparr>)"
      by (rule tick_ok_frame) (simp_all add: same_wants_def retries_shrink_def)
    then show ?thesis by (simp add: refreshLocalHosts_def call Inl)
  next
    case (Inr x)
    obtain ifs inst where x: "x = (ifs, inst)" by fastforce
    have hosts: "hosts_of ifs = b_localHosts b" "own_of (b_underlay b) ifs = b_ownUnderlays b"
      using assms(1) assms(2) call Inr x unfolding steady_def by (auto dest!: spec [of _ d])
    have "departed (b_localHosts b) (b_localHosts b) = []"
      using hosts_mwf [of ifs] hosts(1) by (simp add: departed_self)
    moreover have "tick_ok b (b\<lparr>b_dpInstance := inst, b_dpSeen := True, b_dpUnreachable := False,
        b_localHosts := b_localHosts b, b_ownUnderlays := b_ownUnderlays b\<rparr>)"
      by (rule tick_ok_frame) (simp_all add: same_wants_def retries_shrink_def)
    ultimately show ?thesis by (simp add: refreshLocalHosts_def call Inr x hosts Let_def)
  qed
  then show "tick_ok b (fst (snd (refreshLocalHosts dp (b, d))))"
    and "b_retries (fst (snd (refreshLocalHosts dp (b, d)))) = b_retries b"
    and "b_ticks (fst (snd (refreshLocalHosts dp (b, d)))) = b_ticks b"
    and "snd (snd (refreshLocalHosts dp (b, d))) = snd (dp_ListInterfaces dp d)"
    and "b_programmed (fst (snd (refreshLocalHosts dp (b, d)))) = b_programmed b"
    by (simp_all add: call)
qed

lemma queueFullResend_tick: "tick_ok b (queueFullResend now b)"
  by (rule tick_ok_frame) (simp_all add: queueFullResend_def same_wants_def retries_shrink_def)

lemma queueFullResend_sel [simp]:
  "b_retries (queueFullResend now b) = b_retries b" "b_ticks (queueFullResend now b) = b_ticks b"
  by (simp_all add: queueFullResend_def)

lemma tick_ok_refl [simp]: "tick_ok b b"
  by (simp add: tick_ok_def)

lemma syncRoutes_up:
  assumes "routes_up dp up" and "steady dp up b" and "up d"
  shows "tick_ok b (fst (syncRoutes dp now (b, d)))" and "b_ticks (fst (syncRoutes dp now (b, d))) = b_ticks b + 1"
    and "up (snd (syncRoutes dp now (b, d)))"
    and "(\<And>k r. mget (b_retries b) k = Some r \<Longrightarrow> ry_nextTick r \<le> b_ticks b + 1) \<Longrightarrow>
      drift (fst (syncRoutes dp now (b, d))) \<le> drift b - routeCallsPerTick"
proof -
  define b0 where "b0 = b\<lparr>b_ticks := b_ticks b + 1\<rparr>"
  define s1 where "s1 = snd (refreshLocalHosts dp (b0, d))"
  define b2 where "b2 = (if fst (refreshLocalHosts dp (b0, d)) then queueFullResend now (fst s1) else fst s1)"
  define b3 where "b3 = (if b_dpInstance b2 = [] \<and> length (b_resendQueue b2) = 0 \<and> now - b_lastFullResync b2 \<ge> fullResyncEvery
    then queueFullResend now b2 else b2)"
  have eq: "syncRoutes dp now (b, d) = resyncRoutes dp (b3, snd s1)"
    by (simp add: syncRoutes_def b0_def s1_def b2_def b3_def Let_def split_def)
  have t0: "tick_ok b b0"
    by (rule tick_ok_frame) (simp_all add: b0_def same_wants_def retries_shrink_def)
  note refresh = refresh_steady [OF steady_tick [OF assms(2) t0] assms(3), folded s1_def]
  have up1: "up (snd s1)" using refresh(4) assms(1,3) by (simp add: routes_up_def)
  have t12: "tick_ok (fst s1) b2" and t23: "tick_ok b2 b3" by (simp_all add: b2_def b3_def queueFullResend_tick)
  have t3: "tick_ok b b3" by (rule tick_ok_trans [OF t0 tick_ok_trans [OF refresh(1) tick_ok_trans [OF t12 t23]]])
  have sel: "b_retries b3 = b_retries b" "b_ticks b3 = b_ticks b + 1"
    using refresh(2,3) by (simp_all add: b3_def b2_def b0_def)
  note resync = resyncRoutes_up [OF assms(1) up1, of b3]
  show "tick_ok b (fst (syncRoutes dp now (b, d)))" unfolding eq by (rule tick_ok_trans [OF t3 resync(1)])
  show "b_ticks (fst (syncRoutes dp now (b, d))) = b_ticks b + 1" unfolding eq by (simp add: resync(2) sel)
  show "up (snd (syncRoutes dp now (b, d)))" unfolding eq by (rule resync(3))
  assume "\<And>k r. mget (b_retries b) k = Some r \<Longrightarrow> ry_nextTick r \<le> b_ticks b + 1"
  then have "\<not> waiting b3 k" for k by (auto simp: waiting_alt sel not_less split: option.split)
  then have "drift (fst (resyncRoutes dp (b3, snd s1))) \<le> drift b3 - routeCallsPerTick" by (rule resync(4))
  then show "drift (fst (syncRoutes dp now (b, d))) \<le> drift b - routeCallsPerTick"
    unfolding eq using tick_drift [OF t3] by linarith
qed

definition run_ticks :: "'d Dataplane \<Rightarrow> int list \<Rightarrow> 'd agent \<Rightarrow> 'd agent" where
  "run_ticks dp nows s = fold (syncRoutes dp) nows s"

lemma run_ticks_up:
  assumes "routes_up dp up" and "steady dp up b" and "up d"
  shows "tick_ok b (fst (run_ticks dp nows (b, d))) \<and> b_ticks (fst (run_ticks dp nows (b, d))) = b_ticks b + length nows
    \<and> up (snd (run_ticks dp nows (b, d)))
    \<and> ((\<forall>k r. mget (b_retries b) k = Some r \<longrightarrow> ry_nextTick r \<le> b_ticks b + 1) \<longrightarrow>
        drift (fst (run_ticks dp nows (b, d))) \<le> drift b - routeCallsPerTick * length nows)"
  using assms(2,3)
proof (induction nows arbitrary: b d)
  case Nil
  then show ?case by (simp add: run_ticks_def)
next
  case (Cons now nows)
  obtain b1 d1 where s1: "syncRoutes dp now (b, d) = (b1, d1)" by fastforce
  note tick = syncRoutes_up [OF assms(1) Cons.prems, of now, unfolded s1 fst_conv snd_conv]
  note IH = Cons.IH [OF steady_tick [OF Cons.prems(1) tick(1)] tick(3)]
  have eq: "run_ticks dp (now # nows) (b, d) = run_ticks dp nows (b1, d1)" by (simp add: run_ticks_def s1)
  have "drift (fst (run_ticks dp nows (b1, d1))) \<le> drift b - routeCallsPerTick * length (now # nows)"
    if r: "\<forall>k r. mget (b_retries b) k = Some r \<longrightarrow> ry_nextTick r \<le> b_ticks b + 1"
  proof -
    have "\<forall>k r. mget (b_retries b1) k = Some r \<longrightarrow> ry_nextTick r \<le> b_ticks b1 + 1"
      using r tick(1,2) unfolding tick_ok_def retries_shrink_def by (metis le_SucI Suc_eq_plus1)
    moreover have "drift b1 \<le> drift b - routeCallsPerTick" using tick(4) r by blast
    ultimately show ?thesis using IH by (auto simp: algebra_simps)
  qed
  then show ?case
    unfolding eq using tick_ok_trans [OF tick(1)] IH tick(2) by simp
qed

lemma run_ticks_append: "run_ticks dp (xs @ ys) s = run_ticks dp ys (run_ticks dp xs s)"
  by (simp add: run_ticks_def)

text \<open>The invariant is that of the session after any run of the agent.\<close>

lemma new_agent_inv: "fib d = (\<lambda>_. None) \<Longrightarrow> session_inv fib (new_agent nodeID underlay isEdge now d)"
  by (simp add: mesh_inv_def tracks_def retry_inv_def new_agent_def NewBus_def have_route_def)

lemma ticks_converge_inv:
  assumes "routes_ok dp fib" and "mesh_inv fib (b, d)" and "routes_up dp up" and "up d" and "steady dp up b"
    and "retryMaxTicks + n \<le> length nows" and "drift b \<le> routeCallsPerTick * n"
  shows "fib (snd (run_ticks dp nows (b, d))) k = map_option fib_of (want b k)"
proof -
  define xs ys where "xs = take retryMaxTicks nows" and "ys = drop retryMaxTicks nows"
  obtain b1 d1 where s1: "run_ticks dp xs (b, d) = (b1, d1)" by fastforce
  obtain b2 d2 where s2: "run_ticks dp ys (b1, d1) = (b2, d2)" by fastforce
  have run: "run_ticks dp nows (b, d) = (b2, d2)"
    using run_ticks_append [of dp xs ys "(b, d)"] by (simp add: xs_def ys_def s1 [unfolded xs_def] s2 [unfolded ys_def])
  note t1 = run_ticks_up [OF assms(3,5,4), of xs, unfolded s1 fst_conv snd_conv]
  note t2 = run_ticks_up [OF assms(3) steady_tick [OF assms(5), of b1], of d1 ys, unfolded s2 fst_conv snd_conv]
  have len: "length xs = retryMaxTicks" "n \<le> length ys" using assms(6) by (simp_all add: xs_def ys_def)
  have "\<forall>k r. mget (b_retries b1) k = Some r \<longrightarrow> ry_nextTick r \<le> b_ticks b1 + 1"
    using t1 assms(2) len(1) unfolding mesh_inv_def retry_inv_def tick_ok_def retries_shrink_def
    by (metis fst_conv trans_le_add1)
  then have "drift b2 \<le> drift b1 - routeCallsPerTick * length ys" using t1 t2 by blast
  also have "\<dots> \<le> drift b - routeCallsPerTick * n"
    using tick_drift t1 len(2) by (meson diff_le_mono diff_le_mono2 le_trans mult_le_mono2)
  finally have "drift b2 = 0" using assms(7) by simp
  then have sync: "have_route b2 k = want b2 k" by (simp add: drift_zero in_sync_def)
  have "tick_ok b b2" using tick_ok_trans t1 t2 by blast
  then have want: "want b2 = want b" by (intro want_cong) (simp add: tick_ok_def)
  have "mesh_inv fib (run_ticks dp nows (b, d))"
    unfolding run_ticks_def by (rule inv_fold [OF assms(2)]) (rule syncRoutes_inv [OF assms(1)])
  then have "tracked (have_route b2 k) (fib d2 k)" by (simp add: run mesh_inv_def tracks_def)
  then have "tracked (want b k) (fib d2 k)" using sync want by simp
  then show ?thesis using want_nonzero [of b k] by (auto simp: run tracked_def split: option.splits)
qed

section \<open>Properties\<close>



section \<open>A concrete run\<close>

text \<open>A route arrives while the dataplane does not answer; it answers again later.\<close>

definition demo_down :: "store \<Rightarrow> store" where
  "demo_down d = d\<lparr>so_down := True\<rparr>"

definition demo_up :: "store \<Rightarrow> store" where
  "demo_up d = d\<lparr>so_down := False\<rparr>"

definition demo_events :: "store agent_event list" where
  "demo_events = [Tick 0 None,
     Message (RouteUpdate (100, ''10.0.0.5/32'') [''fd00::1''] ROUTE_OP_ADD False),
     Env demo_down,
     Message (RouteUpdate (100, ''10.0.0.6/32'') [''fd00::2''] ROUTE_OP_ADD False),
     Env demo_up]"

definition demo_agent :: "store session_state" where
  "demo_agent = agent_run store_dp demo_events (new_agent ''node-a'' ''fd00::a'' False 0 empty_store)"

lemma demo_env: "env_keeps so_fib demo_events"
  by (auto simp: env_keeps_def demo_events_def demo_down_def demo_up_def)

lemma demo_fib: "so_fib empty_store = (\<lambda>_. None)"
  by (simp add: empty_store_def)

lemma demo_programmed:
  "nget (b_programmed (se_bus demo_agent)) 100 ''10.0.0.5/32'' =
     Some \<lparr>dr_nexthop = ''fd00::1'', dr_external = False, dr_deliveryVNI = 100, dr_origin = originOwn\<rparr>"
  by code_simp

lemma demo_state:
  "drift (se_bus demo_agent) = 1" "\<not> so_down (se_dp demo_agent)" "so_ifaces (se_dp demo_agent) = []"
  "b_localHosts (se_bus demo_agent) = hosts_of []" "b_ownUnderlays (se_bus demo_agent) = own_of (b_underlay (se_bus demo_agent)) []"
  "desiredRoute (se_bus demo_agent) 100 ''10.0.0.6/32'' =
     Some \<lparr>dr_nexthop = ''fd00::2'', dr_external = False, dr_deliveryVNI = 100, dr_origin = originOwn\<rparr>"
  by code_simp+


lemma demo_steady: "steady store_dp (\<lambda>d. \<not> so_down d \<and> so_ifaces d = []) (se_bus demo_agent)"
  by (simp add: steady_def store_dp_def demo_state)


end
