(* ===== verification/Agent_Restart.thy ===== *)
theory Agent_Restart
  imports Agent_Converge
begin

text \<open>
  A restarted dataplane. It may hold any routes at all, so the bus's record of what it programmed says
  nothing; the tick that reads a new instance id queues every route key and sends it again.
\<close>

section \<open>Forced calls\<close>

text \<open>The dataplane holds what the key wants, whatever the bus believes.\<close>

definition holds_want :: "'d fib \<Rightarrow> 'd agent \<Rightarrow> routeRef \<Rightarrow> bool" where
  "holds_want fib s k \<longleftrightarrow> fib (snd s) k = map_option fib_of (want (fst s) k)"

lemma syncKey_fib:
  assumes "routes_ok dp fib" and "routes_up dp up" and "up (snd s)"
  shows "holds_want fib s k' \<Longrightarrow> holds_want fib (snd (syncKey dp (fst k) (snd k) force s)) k'"
    and "holds_want fib (snd (syncKey dp (fst k) (snd k) True s)) k"
proof -
  obtain b d where s: "s = (b, d)" by fastforce
  have up: "fst (dp_AddRoute dp vni p nh ext dvni d) = None" "fst (dp_WithdrawRoute dp vni p d) = None" for vni p nh ext dvni
    using assms(2,3) by (simp_all add: routes_up_def s)
  have fib: "fib (snd (dp_AddRoute dp (fst k) (snd k) nh ext dvni d)) = (fib d)(k \<mapsto> (nh, ext, dvni))"
    "fib (snd (dp_WithdrawRoute dp (fst k) (snd k) d)) = (fib d)(k := None)" for nh ext dvni
    using routes_okD(1) [OF assms(1), of "fst k" "snd k" nh ext dvni d] routes_okD(2) [OF assms(1), of "fst k" "snd k" d]
      up [of "fst k" "snd k"] by (simp_all add: lands_def split_def)
  let ?r = "\<lambda>force. snd (syncKey dp (fst k) (snd k) force s)"
  have w: "want (fst (?r force)) = want b" for force
    using want_cong [OF only_programs_wants [OF syncKey_only]] by (metis fst_conv s)
  have set: "fib (snd (?r force)) = fib d \<or> fib (snd (?r force)) = (fib d)(k := map_option fib_of (want b k))" for force
    by (simp add: s syncKey_def want_def fib_of_def split_def up fib split: option.split)
  have forced: "fib (snd (?r True)) = (fib d)(k := map_option fib_of (want b k))"
    by (simp add: s syncKey_def want_def fib_of_def split_def up fib split: option.split)
  show "holds_want fib (?r force) k'" if "holds_want fib s k'"
  proof -
    have "fib d k' = map_option fib_of (want b k')" using that by (simp add: s holds_want_def)
    with set [of force] w [of force] show ?thesis by (auto simp: holds_want_def)
  qed
  show "holds_want fib (?r True) k" by (simp add: holds_want_def w forced)
qed

lemma diff_pass_fib:
  assumes "routes_ok dp fib" and "routes_up dp up" and "up (snd s)" and "holds_want fib s k'"
  shows "holds_want fib (snd (diff_pass dp ks budget s)) k'"
  using assms(3,4)
proof (induction ks arbitrary: budget s)
  case (Cons k ks)
  let ?s1 = "(snd (waits k (fst s)), snd s)"
  have w: "want (fst ?s1) = want (fst s)" using waits_pass [of k "fst s"] by (intro want_cong) (simp add: pass_ok_def)
  have up1: "up (snd ?s1)" using Cons.prems by simp
  have h1: "holds_want fib ?s1 k'" using Cons.prems(2) w by (simp add: holds_want_def)
  show ?case
    using Cons syncKey_up(1,5) [OF assms(2) up1, of k False] syncKey_fib(1) [OF assms(1,2) up1 h1, of k False] h1 up1
    by (simp add: Let_def split_def)
qed simp

lemma resend_pass_fib:
  assumes "routes_ok dp fib" and "routes_up dp up" and "up (snd s)" and "distinct ks" and "length ks \<le> budget"
    and "(k' \<in> set ks \<and> \<not> skip_resend (fst s) k') \<or> holds_want fib s k'"
  shows "holds_want fib (resend_pass dp ks budget s) k'"
  using assms(3-)
proof (induction ks arbitrary: budget s)
  case Nil
  have "want ((fst s)\<lparr>b_resendQueue := []\<rparr>) = want (fst s)" by (intro want_cong) (simp add: same_wants_def)
  with Nil show ?case by (simp add: holds_want_def)
next
  case (Cons k ks)
  have budget: "budget \<noteq> 0" using Cons.prems(3) by simp
  let ?s1 = "snd (syncKey dp (fst k) (snd k) True s)"
  show ?case
  proof (cases "skip_resend (fst s) k")
    case True
    with Cons.prems(4) have "(k' \<in> set ks \<and> \<not> skip_resend (fst s) k') \<or> holds_want fib s k'" by auto
    with True budget Cons.IH [of s budget] Cons.prems(1-3) show ?thesis by simp
  next
    case False
    have up1: "up (snd ?s1)" by (rule syncKey_up(5) [OF assms(2) Cons.prems(1)])
    have pass: "pass_ok {k} (fst s) (fst ?s1)" by (rule syncKey_pass [OF assms(2) Cons.prems(1)])
    have skip: "skip_resend (fst ?s1) k' = skip_resend (fst s) k'" if "k' \<noteq> k"
    proof -
      have "want (fst ?s1) = want (fst s)" using pass by (intro want_cong) (simp add: pass_ok_def)
      moreover have "have_route (fst ?s1) k' = have_route (fst s) k'" "b_localHosts (fst ?s1) = b_localHosts (fst s)"
        using pass that by (simp_all add: pass_ok_def same_wants_def)
      ultimately show ?thesis by (simp add: skip_resend_def want_def [symmetric] have_route_def [symmetric] is_local_def)
    qed
    have "(k' \<in> set ks \<and> \<not> skip_resend (fst ?s1) k') \<or> holds_want fib ?s1 k'"
    proof (cases "k' = k")
      case True
      then show ?thesis using syncKey_fib(2) [OF assms(1,2) Cons.prems(1)] by simp
    next
      case False
      then show ?thesis
        using Cons.prems(4) skip syncKey_fib(1) [OF assms(1,2) Cons.prems(1), of k' k True] by auto
    qed
    then have "holds_want fib (resend_pass dp ks (budget - 1) ?s1) k'"
      using Cons.IH [of ?s1 "budget - 1"] up1 Cons.prems(2,3) by simp
    then show ?thesis
      using False budget syncKey_up(1) [OF assms(2) Cons.prems(1), of k True] by (simp add: Let_def split_def unreachable_def)
  qed
qed

lemma diff_pass_budget:
  assumes "routes_up dp up" and "distinct ks" and "up (snd s)" and "unsettled (fst s) ks < budget"
  shows "fst (diff_pass dp ks budget s) = (True, budget - unsettled (fst s) ks)"
  using assms(2-)
proof (induction ks arbitrary: budget s)
  case Nil
  then show ?case by (simp add: unsettled_def)
next
  case (Cons k ks)
  have notin: "k \<notin> set ks" and dist: "distinct ks" using Cons.prems by auto
  have budget: "budget \<noteq> 0" using Cons.prems(3) by simp
  let ?b1 = "snd (waits k (fst s))"
  let ?s2 = "snd (syncKey dp (fst k) (snd k) False (?b1, snd s))"
  show ?case
  proof (cases "waiting (fst s) k")
    case True
    then have "unsettled (fst s) (k # ks) = unsettled (fst s) ks" by (simp add: unsettled_def)
    with True budget Cons.IH [OF dist, of s budget] Cons.prems(2,3) waits_waiting [OF True] show ?thesis
      by (simp add: waiting_def split_def Let_def)
  next
    case False
    have sync: "in_sync ?b1 k = in_sync (fst s) k"
      using waits_pass [of k "fst s"] want_cong [of "fst s" ?b1] by (simp add: pass_ok_def in_sync_def)
    have un: "unsettled (fst s) (k # ks) = (if in_sync (fst s) k then 0 else 1) + unsettled (fst s) ks"
      using False by (simp add: unsettled_def)
    have up1: "up (snd (?b1, snd s))" using Cons.prems(2) by simp
    have "pass_ok {k} (fst s) (fst ?s2)"
      using pass_ok_trans [OF waits_pass syncKey_pass [OF assms(1) up1, simplified]] by simp
    then have "unsettled (fst ?s2) ks = unsettled (fst s) ks" by (rule unsettled_pass [OF notin])
    with Cons.IH [OF dist syncKey_up(5) [OF assms(1) up1, of k False], of "if in_sync (fst s) k then budget else budget - 1"]
      False budget un sync Cons.prems(3) syncKey_up(1) [OF assms(1) up1, of k False]
    show ?thesis by (cases "in_sync (fst s) k") (auto simp: waiting_def split_def Let_def unreachable_def)
  qed
qed

lemma length_filter_weaken: "length (filter (\<lambda>x. P x \<and> Q x) xs) \<le> length (filter P xs)"
  by (induction xs) auto

lemma resend_queue_diff: "b_resendQueue (fst (snd (diff_pass dp ks budget s))) = b_resendQueue (fst s)"
proof (induction ks arbitrary: budget s)
  case (Cons k ks)
  have queue: "b_resendQueue b' = b_resendQueue b" if "only_programs b b'" for b b'
    using that unfolding only_programs_def by (cases b, cases b') simp
  show ?case
    using Cons by (simp add: Let_def split_def queue [OF waits_only] queue [OF syncKey_only])
qed simp

lemma resyncRoutes_fib:
  assumes "routes_ok dp fib" and "routes_up dp up" and "up d" and "distinct (b_resendQueue b)"
    and "drift b + length (b_resendQueue b) \<le> routeCallsPerTick"
    and "k \<in> set (b_resendQueue b)" and "want b k \<noteq> None"
  shows "holds_want fib (resyncRoutes dp (b, d)) k"
proof -
  define b1 where "b1 = b\<lparr>b_retries := filter (\<lambda>(k, _). k \<in> set (routeKeys b)) (b_retries b)\<rparr>"
  define r where "r = diff_pass dp (routeKeys b) routeCallsPerTick (b1, d)"
  have dist: "distinct (routeKeys b)" by (simp add: routeKeys_def)
  have w1: "want b1 = want b" by (intro want_cong) (simp add: b1_def same_wants_def)
  have sync1: "in_sync b1 = in_sync b" using w1 by (simp add: fun_eq_iff in_sync_def have_route_def b1_def)
  have "unsettled b1 (routeKeys b) \<le> drift b"
    unfolding unsettled_def drift_def sync1 by (rule length_filter_weaken)
  moreover have "length (b_resendQueue b) > 0" using assms(6) by auto
  ultimately have un: "unsettled b1 (routeKeys b) < routeCallsPerTick"
    "length (b_resendQueue b) \<le> routeCallsPerTick - unsettled b1 (routeKeys b)" using assms(5) by linarith+
  have res: "fst r = (True, routeCallsPerTick - unsettled b1 (routeKeys b))"
    using diff_pass_budget [OF assms(2) dist, of "(b1, d)" routeCallsPerTick] un(1) assms(3) by (simp add: r_def)
  have queue: "b_resendQueue (fst (snd r)) = b_resendQueue b" by (simp add: r_def resend_queue_diff b1_def)
  have pass: "pass_ok (set (routeKeys b)) b1 (fst (snd r))" and up: "up (snd (snd r))"
    using diff_pass_up [OF assms(2) dist, of "(b1, d)"] assms(3) by (simp_all add: r_def)
  have "want (fst (snd r)) = want b" using pass w1 want_cong [of b1 "fst (snd r)"] by (simp add: pass_ok_def)
  then have "\<not> skip_resend (fst (snd r)) k" using assms(7) by (simp add: skip_resend_def want_def [symmetric])
  then have "holds_want fib (resend_pass dp (b_resendQueue b) (routeCallsPerTick - unsettled b1 (routeKeys b)) (snd r)) k"
    using resend_pass_fib [OF assms(1,2) up assms(4) un(2)] assms(6) by blast
  moreover have "resyncRoutes dp (b, d) =
      (if fst (fst r) then resend_pass dp (b_resendQueue (fst (snd r))) (snd (fst r)) (snd r) else snd r)"
    by (simp add: resyncRoutes_def r_def b1_def Let_def split_def)
  ultimately show ?thesis by (simp add: res queue)
qed


text \<open>The dataplane of the concrete run comes back with another instance id and no routes.\<close>

definition demo_restarted :: store where
  "demo_restarted = (se_dp demo_agent)\<lparr>so_fib := (\<lambda>_. None), so_instance := ''b''\<rparr>"

lemma demo_restart_state:
  "length (routeKeys (se_bus demo_agent)) = 2" "b_dpSeen (se_bus demo_agent)" "b_dpInstance (se_bus demo_agent) = ''a''"
  by code_simp+


end
