(* ===== verification/Agent_Learn.thy ===== *)
theory Agent_Learn
  imports Agent_Routes Reflector
begin

text \<open>
  What the agent learns from the route bus, against what the reflector's table shows. The agent's
  handling of a message is the abstract learning step of \<open>Rib_View\<close> for the routes of a VNI's own
  table; the end of a snapshot forgets exactly what the snapshot did not carry.
\<close>

section \<open>The learned view\<close>

definition own_view :: "Bus \<Rightarrow> routeKey \<Rightarrow> string list option" where
  "own_view b k = map_option ow_nexthops (nget (b_learnedOwn b) (fst k) (snd k))"

text \<open>Every route learned for the VNI was received in the current replay epoch.\<close>

definition covered :: "u32 \<Rightarrow> Bus \<Rightarrow> bool" where
  "covered vni b \<longleftrightarrow> (\<forall>p. nget (b_learnedOwn b) vni p \<noteq> None \<longrightarrow> p \<in> set (mget0 [] (b_seen b) vni))"

text \<open>What learning works on: the learned routes, the epochs and the counts.\<close>

definition learn_part :: "Bus \<Rightarrow> (u32, (string, ownRoute) gomap) gomap \<times> (u32, string goset) gomap \<times> (u32, u32) gomap" where
  "learn_part b = (b_learnedOwn b, b_seen b, b_rxRoutes b)"

lemma only_programs_learn: "only_programs b b' \<Longrightarrow> learn_part b' = learn_part b"
  unfolding only_programs_def learn_part_def by (cases b, cases b') simp

lemma sync_all_learn: "learn_part (fst (sync_all dp force ks s)) = learn_part (fst s)"
  by (rule only_programs_learn [OF sync_all_only])

lemma syncLearned_learn [simp]: "learn_part (fst (syncLearned dp vni p force s)) = learn_part (fst s)"
  by (simp add: syncLearned_def Let_def sync_all_learn only_programs_learn [OF sync_key_only])

lemma syncLearned_fold [simp]: "learn_part (fst (fold (\<lambda>p. syncLearned dp vni p force) ps s)) = learn_part (fst s)"
  by (induction ps arbitrary: s) simp_all

lemma route_part_learn: "route_part b' = route_part b \<Longrightarrow> learn_part b' = learn_part b"
  using route_part_eq [of b' b] by (simp add: learn_part_def same_wants_def)

lemma converged_learn [simp]:
  "learn_part (noteEndOfRIB vni b) = learn_part b" "learn_part (noteEndOfGlobal b) = learn_part b"
  by (simp_all add: noteEndOfRIB_def noteEndOfGlobal_def recomputeConvergedLocked_def learn_part_def)

text \<open>The global channel learns no route.\<close>

lemma applyNat_learn [simp]: "learn_part (fst (applyNat dp nu op s)) = learn_part (fst s)"
proof -
  have [simp]: "learn_part (fst (addNeighborNat dp e owner t)) = learn_part (fst t)" for e owner t
    by (simp add: addNeighborNat_def learn_part_def split_def split: option.split)
  show ?thesis
    by (cases s) (simp add: applyNat_def Let_def split_def split: RouteOp.split option.split, simp add: learn_part_def)
qed

lemma own_view_learn: "learn_part b' = learn_part b \<Longrightarrow> own_view b' = own_view b"
  by (auto simp: learn_part_def own_view_def)

lemma covered_learn: "learn_part b' = learn_part b \<Longrightarrow> covered vni b' = covered vni b"
  by (simp add: learn_part_def covered_def)

lemma keeps_learn: "keeps fib s s' \<Longrightarrow> learn_part (fst s') = learn_part (fst s)"
  by (rule route_part_learn) (simp add: keeps_def)

section \<open>One message\<close>

text \<open>An update, before the keys it touches are programmed, which does not change what is learned.\<close>

definition note_update :: "routeKey \<Rightarrow> string list \<Rightarrow> RouteOp \<Rightarrow> bool \<Rightarrow> Bus \<Rightarrow> Bus" where
  "note_update k nhs op ext b = (case op of
     ROUTE_OP_ADD \<Rightarrow> setLearnedOwn (fst k) (snd k) \<lparr>ow_nexthops = nhs, ow_external = ext\<rparr>
        (markSeen (fst k) (snd k) (b\<lparr>b_rxRoutes := mput (fst k) (mget0 0 (b_rxRoutes b) (fst k) + 1) (b_rxRoutes b)\<rparr>))
   | ROUTE_OP_WITHDRAW \<Rightarrow> delLearnedOwn (fst k) (snd k) b
   | ROUTE_OP_UNSPECIFIED \<Rightarrow> b)"

lemma update_learn:
  assumes "fst k \<noteq> PublicVNI"
  shows "learn_part (fst (handleServerMsg dp (RouteUpdate k nhs op ext) (b, d))) = learn_part (note_update k nhs op ext b)"
  using assms by (simp add: handleServerMsg_def apply_update_def note_update_def Let_def split: RouteOp.split)

lemma own_view_update:
  "own_view (note_update k nhs op ext b) = learn (RouteUpdate k nhs op ext) (own_view b)"
  by (cases op; cases k; intro HOL.ext)
    (auto simp: note_update_def own_view_def setLearnedOwn_def markSeen_def delLearnedOwn_def)
lemma covered_update: "covered vni b \<Longrightarrow> covered vni (note_update k nhs op ext b)"
  by (cases op) (auto simp: note_update_def covered_def setLearnedOwn_def markSeen_def delLearnedOwn_def split: if_splits)

text \<open>The end of a snapshot, before programming: what was not seen is forgotten.\<close>

definition note_end :: "u32 \<Rightarrow> u32 \<Rightarrow> Bus \<Rightarrow> Bus" where
  "note_end vni n b = (if mget0 0 (b_rxRoutes b) vni \<noteq> n then b else fold (delLearnedOwn vni) (stale_prefixes vni b) b)"

lemma end_learn:
  assumes "vni \<noteq> PublicVNI"
  shows "learn_part (fst (handleServerMsg dp (EndOfRIB vni n) (b, d))) = learn_part (note_end vni n b)"
  using assms by (simp add: handleServerMsg_def pruneVNI_def note_end_def Let_def split_def)

lemma fold_delLearnedOwn:
  "nget (b_learnedOwn (fold (delLearnedOwn vni) ps b)) v p
     = (if v = vni \<and> p \<in> set ps then None else nget (b_learnedOwn b) v p)"
  "b_seen (fold (delLearnedOwn vni) ps b) = b_seen b"
  by (induction ps arbitrary: b) (auto simp: delLearnedOwn_def)

lemma set_stale:
  "vni \<noteq> PublicVNI \<Longrightarrow> set (stale_prefixes vni b) =
     {p. nget (b_learnedOwn b) vni p \<noteq> None \<and> p \<notin> set (mget0 [] (b_seen b) vni)}"
  by (auto simp: stale_prefixes_def mkeys_iff nget_def mget0_def Let_def)

lemma own_view_end:
  assumes "vni \<noteq> PublicVNI"
  shows "own_view (note_end vni n b) k
     = (if fst k = vni \<and> mget0 0 (b_rxRoutes b) vni = n \<and> snd k \<notin> set (mget0 [] (b_seen b) vni) then None else own_view b k)"
  using assms by (auto simp: note_end_def own_view_def fold_delLearnedOwn set_stale)

lemma covered_end: "covered vni b \<Longrightarrow> covered vni (note_end v n b)"
  by (auto simp: note_end_def covered_def fold_delLearnedOwn)

lemma covered_own: "covered vni b \<Longrightarrow> snd k \<notin> set (mget0 [] (b_seen b) vni) \<Longrightarrow> fst k = vni \<Longrightarrow> own_view b k = None"
  by (auto simp: covered_def own_view_def)

text \<open>The public VNI is learned in a table of its own.\<close>

lemma public_update_learn:
  "own_view (fst (handleServerMsg dp (RouteUpdate (PublicVNI, p) nhs op ext) (b, d))) = own_view b"
  "vni \<noteq> PublicVNI \<Longrightarrow> covered vni (fst (handleServerMsg dp (RouteUpdate (PublicVNI, p) nhs op ext) (b, d))) = covered vni b"
proof -
  have *: "own_view (fst (syncLearned dp v p f s)) = own_view (fst s)" "covered vni (fst (syncLearned dp v p f s)) = covered vni (fst s)"
    for v p f s
    by (rule own_view_learn covered_learn, simp)+
  show "own_view (fst (handleServerMsg dp (RouteUpdate (PublicVNI, p) nhs op ext) (b, d))) = own_view b"
    by (simp add: handleServerMsg_def apply_update_def Let_def * split: RouteOp.split) (simp add: own_view_def [abs_def] markSeen_def)
  assume "vni \<noteq> PublicVNI"
  then show "covered vni (fst (handleServerMsg dp (RouteUpdate (PublicVNI, p) nhs op ext) (b, d))) = covered vni b"
    by (simp add: handleServerMsg_def apply_update_def Let_def * split: RouteOp.split) (simp add: covered_def markSeen_def)
qed

lemma public_end_learn: "learn_part (fst (handleServerMsg dp (EndOfRIB PublicVNI n) (b, d))) = learn_part b"
  by (simp add: handleServerMsg_def pruneVNI_def Let_def split_def) (simp add: learn_part_def)

lemma global_learn:
  assumes "routes_ok dp fib" and "\<not> route_msg m" and "\<And>v n. m \<noteq> EndOfRIB v n"
  shows "learn_part (fst (handleServerMsg dp m (b, d))) = learn_part b"
proof -
  let ?s = "(b\<lparr>b_globalRecords := b_globalRecords b + 1\<rparr>, d)"
  have "learn_part (fst (applyPublic dp pp op ?s)) = learn_part (fst ?s)"
    and "learn_part (fst (pruneGlobal dp n (b, d))) = learn_part (fst (b, d))" for pp op n
    by (rule keeps_learn, rule keeps_applyPublic [OF assms(1)] keeps_pruneGlobal [OF assms(1)])+
  moreover have "learn_part (fst ?s) = learn_part b" by (simp add: learn_part_def)
  ultimately show ?thesis
    using assms(2,3) by (cases m) (simp_all add: handleServerMsg_def split_def)
qed

text \<open>Once the VNI's epoch covers what is learned, the view moves by the abstract learning step.\<close>

lemma covered_step:
  assumes "routes_ok dp fib" and "covered (fst k) (fst s)" and "fst k \<noteq> PublicVNI"
  shows "covered (fst k) (fst (handleServerMsg dp m s)) \<and> own_view (fst (handleServerMsg dp m s)) k = learn m (own_view (fst s)) k"
proof -
  obtain b d where s: "s = (b, d)" by fastforce
  have other: "covered (fst k) (fst (handleServerMsg dp m s)) \<and> own_view (fst (handleServerMsg dp m s)) = own_view b"
    if "\<not> route_msg m" "\<And>v n. m \<noteq> EndOfRIB v n"
    using own_view_learn [OF global_learn [OF assms(1) that]] covered_learn [OF global_learn [OF assms(1) that]] assms(2)
    by (simp add: s)
  show ?thesis
  proof (cases m)
    case (RouteUpdate k' nhs op ext)
    show ?thesis
    proof (cases "fst k' = PublicVNI")
      case True
      then have "k' = (PublicVNI, snd k')" by (cases k') simp
      moreover have "learn (RouteUpdate k' nhs op ext) v k = v k" for v
        using True assms(3) by (cases op) auto
      ultimately show ?thesis
        using assms public_update_learn(1) [of dp "snd k'" nhs op ext b d] public_update_learn(2) [of "fst k" dp "snd k'" nhs op ext b d]
        by (simp add: s RouteUpdate)
    next
      case False
      note eqs = own_view_learn [OF update_learn [OF this, of dp nhs op ext b d]] covered_learn [OF update_learn [OF this, of dp nhs op ext b d]]
      show ?thesis
        using assms by (simp add: s RouteUpdate eqs own_view_update covered_update)
    qed
  next
    case (EndOfRIB vni n)
    show ?thesis
    proof (cases "vni = PublicVNI")
      case True
      note eqs = own_view_learn [OF public_end_learn [of dp n b d]] covered_learn [OF public_end_learn [of dp n b d]]
      show ?thesis using assms True by (simp add: s EndOfRIB eqs)
    next
      case False
      note eqs = own_view_learn [OF end_learn [OF this, of dp n b d]] covered_learn [OF end_learn [OF this, of dp n b d]]
      show ?thesis
        using assms False by (auto simp add: s EndOfRIB eqs own_view_end covered_end covered_own)
    qed
  qed (use other in \<open>simp_all add: s\<close>)
qed

section \<open>A snapshot and what follows\<close>

abbreviation handle_all :: "'d Dataplane \<Rightarrow> ServerMsg list \<Rightarrow> 'd agent \<Rightarrow> 'd agent" where
  "handle_all dp ms s \<equiv> fold (handleServerMsg dp) ms s"

lemma learn_at: "v k = w k \<Longrightarrow> learn m v k = learn m w k"
  by (cases "(m, v)" rule: learn.cases) auto

lemma covered_run:
  assumes "routes_ok dp fib" and "covered (fst k) (fst s)" and "fst k \<noteq> PublicVNI" and "v k = own_view (fst s) k"
  shows "own_view (fst (handle_all dp ms s)) k = fold learn ms v k"
  using assms(2,4)
proof (induction ms arbitrary: s v)
  case (Cons m ms)
  have step: "covered (fst k) (fst (handleServerMsg dp m s))"
    "own_view (fst (handleServerMsg dp m s)) k = learn m (own_view (fst s)) k"
    using covered_step [OF assms(1) Cons.prems(1) assms(3), of m] by blast+
  then show ?case
    using Cons.IH [OF step(1), of "learn m v"] learn_at [of v k "own_view (fst s)" m] Cons.prems(2) by simp
qed simp

lemma adds_run:
  fixes f :: "routeKey \<Rightarrow> string list" and e :: "routeKey \<Rightarrow> bool"
  assumes "vni \<noteq> PublicVNI" and "\<And>k. k \<in> set ks \<Longrightarrow> fst k = vni"
  defines "ms \<equiv> map (\<lambda>k. RouteUpdate k (f k) ROUTE_OP_ADD (e k)) ks"
  shows "mget0 0 (b_rxRoutes (fst (handle_all dp ms s))) vni = mget0 0 (b_rxRoutes (fst s)) vni + of_nat (length ks)
    \<and> set (mget0 [] (b_seen (fst (handle_all dp ms s))) vni) = set (mget0 [] (b_seen (fst s)) vni) \<union> snd ` set ks
    \<and> own_view (fst (handle_all dp ms s)) = fold learn ms (own_view (fst s))"
  using assms(2) unfolding ms_def
proof (induction ks arbitrary: s)
  case (Cons k ks)
  let ?m = "RouteUpdate k (f k) ROUTE_OP_ADD (e k)"
  obtain b d where s: "s = (b, d)" by fastforce
  have k: "fst k = vni" using Cons.prems by simp
  note eq = update_learn [of k dp "f k" ROUTE_OP_ADD "e k" b d]
  have "mget0 0 (b_rxRoutes (fst (handleServerMsg dp ?m s))) vni = mget0 0 (b_rxRoutes b) vni + 1"
    "set (mget0 [] (b_seen (fst (handleServerMsg dp ?m s))) vni) = insert (snd k) (set (mget0 [] (b_seen b) vni))"
    using eq k assms(1) by (simp_all add: s learn_part_def note_update_def setLearnedOwn_def markSeen_def)
  moreover have "own_view (fst (handleServerMsg dp ?m s)) = learn ?m (own_view b)"
    using own_view_learn [OF eq] own_view_update [of k "f k" ROUTE_OP_ADD "e k" b] k assms(1) by (simp add: s)
  moreover note Cons.IH [of "handleServerMsg dp ?m s"]
  ultimately show ?case using Cons.prems by (simp add: s del: learn.simps)
qed (simp add: ms_def)

lemma snapshot_run:
  fixes r :: RIB and b :: Bus and d :: 'd
  assumes "routes_ok dp fib" and "fst k \<noteq> PublicVNI"
  defines "snap \<equiv> snapshot_routes (fst k) r"
  defines "s' \<equiv> handle_all dp (snap @ [EndOfRIB (fst k) (of_nat (length snap))]) (resetRouteSnapshot (fst k) b, d)"
  shows "covered (fst k) (fst s') \<and> own_view (fst s') k = shown r k"
proof -
  let ?vni = "fst k" and ?adv = "\<lambda>k. advertised r (mget0 no_entry (rb_routes r) k)"
  define ks where "ks = filter (\<lambda>k. length (?adv k) \<noteq> 0) (vni_keys ?vni r)"
  have snap: "snap = map (\<lambda>k. RouteUpdate k (?adv k) ROUTE_OP_ADD (re_external (mget0 no_entry (rb_routes r) k))) ks"
    by (simp add: snap_def snapshot_routes_def routeUpdate_def Let_def ks_def)
  have ks: "k' \<in> set ks \<Longrightarrow> fst k' = ?vni" for k' by (simp add: ks_def set_vni_keys)
  obtain b1 d1 where s1: "handle_all dp snap (resetRouteSnapshot ?vni b, d) = (b1, d1)" by fastforce
  note run = adds_run [where ks = ks and f = "?adv" and e = "\<lambda>k. re_external (mget0 no_entry (rb_routes r) k)"
      and dp = dp and s = "(resetRouteSnapshot ?vni b, d)", OF assms(2) ks, folded snap, unfolded s1 fst_conv]
  have rx: "mget0 0 (b_rxRoutes b1) ?vni = of_nat (length snap)" and seen: "set (mget0 [] (b_seen b1) ?vni) = snd ` set ks"
    using run by (simp_all add: resetRouteSnapshot_def snap)
  have view: "own_view b1 k' = (if fst k' = ?vni \<and> shown r k' \<noteq> None then shown r k' else own_view (resetRouteSnapshot ?vni b) k')" for k'
    using run by (simp add: snapshot_learned snap_def)
  have mem: "snd k' \<in> snd ` set ks \<longleftrightarrow> shown r k' \<noteq> None" if k': "fst k' = ?vni" for k'
  proof -
    have "snd k' \<in> snd ` set ks \<longleftrightarrow> k' \<in> set ks"
      using ks k' by (metis (no_types, opaque_lifting) imageE imageI prod.expand)
    also have "\<dots> \<longleftrightarrow> mget (rb_routes r) k' \<noteq> None \<and> ?adv k' \<noteq> []"
      using k' by (auto simp: ks_def set_vni_keys)
    also have "\<dots> \<longleftrightarrow> shown r k' \<noteq> None" by (cases "mget (rb_routes r) k'") (simp_all add: shown_alt mget0_def Let_def)
    finally show ?thesis .
  qed
  note final = end_learn [OF assms(2), of dp "of_nat (length snap)" b1 d1]
  have s': "fst s' = fst (handleServerMsg dp (EndOfRIB ?vni (of_nat (length snap))) (b1, d1))"
    by (simp add: s'_def s1)
  have "own_view (fst s') k' = shown r k'" if "fst k' = ?vni" for k'
    using own_view_learn [OF final] own_view_end [OF assms(2), of "of_nat (length snap)" b1 k'] that
    by (simp add: s' rx seen mem view)
  moreover have "covered ?vni (fst s')"
  proof -
    have "covered ?vni (note_end ?vni (of_nat (length snap)) b1)"
      using assms(2) by (auto simp: note_end_def rx covered_def fold_delLearnedOwn set_stale)
    then show ?thesis using covered_learn [OF final] by (simp add: s')
  qed
  ultimately show ?thesis by simp
qed

text \<open>
  An agent that subscribes to a VNI, whatever it had learned before, and handles the snapshot and then
  every message the reflector sends it, knows what the reflector's table shows.
\<close>

lemma agent_learns:
  assumes "routes_ok dp fib" and "fst k \<noteq> PublicVNI" and "rib_inv r" and "\<not> subscribed (fst k) s r"
    and "holds r (ID s) k = None" and "list_all (undisturbed s k) ops"
    and "r1 = fst (RIB_Subscribe (fst k) s r)"
    and "ms = msgs_for s (snd (RIB_Subscribe (fst k) s r) @ snd (rib_run ops r1))"
  shows "own_view (fst (handle_all dp ms (resetRouteSnapshot (fst k) b, d))) k = shown (fst (rib_run ops r1)) k"
proof -
  have r1: "shown r1 k = shown r k"
    unfolding assms(7) by (rule shown_cong) (simp_all add: RIB_Subscribe_def Let_def)
  have snap_r1: "snapshot_routes (fst k) (r\<lparr>rb_subscribers := x\<rparr>) = snapshot_routes (fst k) r" for x
    by (simp add: snapshot_routes_def advertised_eq vni_keys_def)
  let ?snap = "snapshot_routes (fst k) r @ [EndOfRIB (fst k) (of_nat (length (snapshot_routes (fst k) r)))]"
  have ms: "ms = ?snap @ msgs_for s (snd (rib_run ops r1))"
    using assms(4) unfolding assms(8) by (simp add: RIB_Subscribe_def Let_def subscribed_def snap_r1)
  define s1 where "s1 = handle_all dp ?snap (resetRouteSnapshot (fst k) b, d)"
  have s1: "covered (fst k) (fst s1)" "own_view (fst s1) k = shown r1 k"
    using snapshot_run [OF assms(1,2), of r b d] by (simp_all add: s1_def r1)
  have "own_view (fst (handle_all dp (msgs_for s (snd (rib_run ops r1))) s1)) k = learned s (snd (rib_run ops r1)) (own_view (fst s1)) k"
    unfolding learned_def by (rule covered_run [OF assms(1) s1(1) assms(2)]) simp
  also have "\<dots> = shown (fst (rib_run ops r1)) k"
    by (rule view_run [where v = "own_view (fst s1)", OF _ assms(6) s1(2)]) (use subscribe_listening [OF assms(3,5)] assms(7) in simp)
  finally show ?thesis by (simp add: ms s1_def)
qed

end
