(* ===== verification/Mesh.thy ===== *)
theory Mesh
  imports Agent_Converge Agent_Learn
begin

text \<open>
  The reflector's route table, the agent's learned routes and the dataplane composed: what the table
  shows is what the agent learns and, once the dataplane answers, what it forwards by.
\<close>

section \<open>From the table to the dataplane\<close>

lemma handle_all_inv: "routes_ok dp fib \<Longrightarrow> mesh_inv fib s \<Longrightarrow> mesh_inv fib (handle_all dp ms s)"
  by (rule inv_fold) (simp_all add: handleServerMsg_inv)

text \<open>A VNI that imports nothing and sends nothing to the public VNI has only routes of its own table.\<close>

definition plain_vni :: "u32 \<Rightarrow> Bus \<Rightarrow> bool" where
  "plain_vni vni b \<longleftrightarrow> mget0 [] (b_peerImports b) vni = [] \<and> vni \<notin> set (b_egressVNIs b)"

lemma want_own:
  assumes "own_view b k = Some nhs" and "nhs \<noteq> []" and "\<not> is_local b (fst k) (snd k)"
  shows "\<exists>ext. map_option fib_of (want b k) = Some (hd nhs, ext, fst k)"
  using assms by (auto simp: want_def desiredRoute_def own_view_def nexthopFor_def fib_of_def)

lemma want_none:
  assumes "own_view b k = None" and "plain_vni (fst k) b"
  shows "want b k = None"
  using assms by (simp add: want_def desiredRoute_def own_view_def plain_vni_def list_ex_iff split: option.split)

lemma shown_nonempty: "shown r k = Some nhs \<Longrightarrow> nhs \<noteq> []"
  by (auto simp: shown_def Let_def split: if_splits)

section \<open>Properties\<close>


section \<open>A concrete mesh\<close>

text \<open>
  The agent of the earlier run, which had learned two routes of VNI 100, subscribes to that VNI on a
  reflector that knows only one of them, with another nexthop. A second node then announces the same
  prefix and the first nexthop is fenced.
\<close>

definition mesh_sink :: Sink where
  "mesh_sink = Sink 1 ''node-a''"

definition mesh_before :: RIB where
  "mesh_before = fst (RIB_Announce ''node-b'' 100 ''10.0.0.6/32'' [''fd00::b''] False NewRIB)"

definition mesh_ops :: "rib_op list" where
  "mesh_ops = [OpAnnounce ''node-c'' 100 ''10.0.0.6/32'' [''fd00::c''] False, OpSetFence ''fd00::b/128'']"

definition mesh_subscribed :: RIB where
  "mesh_subscribed = fst (RIB_Subscribe 100 mesh_sink mesh_before)"

definition mesh_msgs :: "ServerMsg list" where
  "mesh_msgs = msgs_for mesh_sink (snd (RIB_Subscribe 100 mesh_sink mesh_before) @ snd (rib_run mesh_ops mesh_subscribed))"

definition mesh_agent :: "store agent" where
  "mesh_agent = fold (handleServerMsg store_dp) mesh_msgs (resetRouteSnapshot 100 (se_bus demo_agent), se_dp demo_agent)"

lemma mesh_before_ok:
  "rib_inv mesh_before" "\<not> subscribed 100 mesh_sink mesh_before" "holds mesh_before (ID mesh_sink) (100, p) = None"
proof -
  show "rib_inv mesh_before"
    using rib_inv_step [OF rib_inv_new, of "OpAnnounce ''node-b'' 100 ''10.0.0.6/32'' [''fd00::b''] False"]
    by (simp add: mesh_before_def)
  show "\<not> subscribed 100 mesh_sink mesh_before"
    by (simp add: subscribed_def mesh_before_def RIB_Announce_def Let_def NewRIB_def mget0_def)
  show "holds mesh_before (ID mesh_sink) (100, p) = None"
    by (simp add: mesh_before_def holds_Announce mesh_sink_def) (simp add: holds_def NewRIB_def mget0_def no_entry_def)
qed

lemma mesh_undisturbed: "list_all (undisturbed mesh_sink (100, ''10.0.0.6/32'')) mesh_ops"
  by (simp add: mesh_ops_def mesh_sink_def)

lemma mesh_agent_state:
  "case mesh_agent of (b, d) \<Rightarrow>
     b_peerImports b = [] \<and> b_egressVNIs b = [] \<and> b_localHosts b = hosts_of []
     \<and> b_ownUnderlays b = own_of (b_underlay b) [] \<and> drift b \<le> 2 \<and> \<not> so_down d \<and> so_ifaces d = []"
  by code_simp

lemma mesh_shown: "shown (fst (rib_run mesh_ops mesh_subscribed)) (100, ''10.0.0.6/32'') = Some [''fd00::c'']"
  by code_simp


end
