(* ===== verification/Mesh_Announce.thy ===== *)
theory Mesh_Announce
  imports Agent_Session Reflector
begin

text \<open>
  The other direction of the mesh: what an agent's reconcile sends and what it makes of the
  reflector's table. The messages of a delta go through the session's checks one by one; the table's
  abstract operations then give its content per channel.
\<close>

section \<open>A delta at the reflector\<close>

text \<open>The table operations of a list of received messages, in order, after the session's checks.\<close>

definition session_ops :: "underlayGuard \<Rightarrow> Sink \<Rightarrow> ClientMsg list \<Rightarrow> rib_op list" where
  "session_ops g s ms = List.map_filter (session_op g s) ms"

definition delta_stream :: "busDelta \<Rightarrow> ClientMsg list" where
  "delta_stream d = map Subscribe (bd_subscribe d) @ delta_msgs d"

lemma sendDelta_stream:
  assumes "st_left st = None"
  shows "fst (sendDelta d (b, st))" "st_sent (snd (snd (sendDelta d (b, st)))) = st_sent st @ delta_stream d"
proof -
  have subs: "fst (send_subscribes vs (b, st))
      \<and> st_sent (snd (snd (send_subscribes vs (b, st)))) = st_sent st @ map Subscribe vs
      \<and> st_left (snd (snd (send_subscribes vs (b, st)))) = None" if "st_left st = None" for vs b st
    using that by (induction vs arbitrary: b st) (auto simp: stream_Send_def Let_def)
  have sends: "fst (send_all ms st) \<and> st_sent (snd (send_all ms st)) = st_sent st @ ms" if "st_left st = None" for ms st
    using that by (induction ms arbitrary: st) (auto simp: stream_Send_def)
  obtain ok b1 st1 where s1: "send_subscribes (bd_subscribe d) (b, st) = (ok, b1, st1)" by (metis prod_cases3)
  with subs [OF assms, of "bd_subscribe d" b] have "ok" "st_sent st1 = st_sent st @ map Subscribe (bd_subscribe d)" "st_left st1 = None"
    by simp_all
  with sends [of st1 "delta_msgs d"] s1
  show "fst (sendDelta d (b, st))" "st_sent (snd (snd (sendDelta d (b, st)))) = st_sent st @ delta_stream d"
    by (simp_all add: sendDelta_def delta_stream_def split_def)
qed

text \<open>One message on the abstract table.\<close>

definition received :: "underlayGuard \<Rightarrow> Sink \<Rightarrow> ClientMsg \<Rightarrow> rib_spec \<Rightarrow> rib_spec" where
  "received g s m t = (case session_op g s m of None \<Rightarrow> t | Some op \<Rightarrow> spec_step op t)"

lemma abs_session: "rib_inv r \<Longrightarrow> rib_abs (fst (rib_run (session_ops g s ms) r)) = fold (received g s) ms (rib_abs r)"
proof -
  have "fold spec_step (List.map_filter (session_op g s) ms) t = fold (received g s) ms t" for t
    by (induction ms arbitrary: t) (simp_all add: received_def map_filter_simps split: option.split)
  then show "rib_inv r \<Longrightarrow> rib_abs (fst (rib_run (session_ops g s ms) r)) = fold (received g s) ms (rib_abs r)"
    by (simp add: abs_run session_ops_def)
qed

lemma fold_keeps: "(\<And>x t. x \<in> set xs \<Longrightarrow> f (g x t) = f t) \<Longrightarrow> f (fold g xs t) = f t"
  by (induction xs arbitrary: t) simp_all

lemma fold_five: "fold f (as @ bs @ cs @ ds @ es) t = fold f es (fold f ds (fold f cs (fold f bs (fold f as t))))"
  by simp

section \<open>Routes\<close>

fun on_routes :: "ClientMsg \<Rightarrow> bool" where
  "on_routes (Announce _) = True"
| "on_routes (Withdraw _ _) = True"
| "on_routes _ = False"

lemma received_holds: "\<not> on_routes m \<Longrightarrow> sp_holds (received g s m t) = sp_holds t"
  by (cases m) (auto simp: received_def split: option.split)

lemma kept_holds: "list_all (\<lambda>m. \<not> on_routes m) ms \<Longrightarrow> sp_holds (fold (received g s) ms t) = sp_holds t"
  by (rule fold_keeps) (simp add: received_holds list_all_iff)

text \<open>What an agent announces for a route, as the table holds it.\<close>

definition held_as :: "Route option \<Rightarrow> string list option" where
  "held_as r = map_option (\<lambda>r. [rt_Nexthop r]) r"

lemma announced_holds:
  assumes "\<And>r. r \<in> set rs \<Longrightarrow> permits g (rt_Nexthop r)" and "\<And>k. sp_holds t (ID s) k = held_as (v k)"
  shows "sp_holds (fold (received g s) (map announce rs) t) (ID s) k = held_as (upserts routeKey rs v k)"
  using assms
proof (induction rs arbitrary: t v)
  case (Cons r rs)
  have "sp_holds (received g s (announce r) t) (ID s) k = held_as ((v(routeKey r \<mapsto> r)) k)" for k
    using Cons.prems by (simp add: received_def announce_def held_as_def routeKey_def)
  then show ?case
    using Cons.IH [of "received g s (announce r) t" "v(routeKey r \<mapsto> r)"] Cons.prems(1) by (simp del: fun_upd_apply)
qed simp

lemma withdrawn_holds:
  "sp_holds (fold (received g s) (map (\<lambda>(vni, p). Withdraw vni p) ks) t) (ID s) k =
     (if k \<in> set ks then None else sp_holds t (ID s) k)"
  by (induction ks arbitrary: t) (auto simp: received_def unhold_def)

lemma delta_holds:
  assumes "\<And>r. r \<in> set (bd_announceR d) \<Longrightarrow> permits g (rt_Nexthop r)" and "\<And>k. sp_holds t (ID s) k = held_as (v k)"
  shows "sp_holds (fold (received g s) (delta_stream d) t) (ID s) k
    = held_as (deletes (bd_withdrawR d) (upserts routeKey (bd_announceR d) v) k)"
proof -
  let ?subs = "map Subscribe (bd_subscribe d)" and ?ann = "map announce (bd_announceR d)"
    and ?others = "map AnnounceNat_msg (bd_announceN d) @ map AnnouncePublic_msg (bd_announceP d)"
    and ?wd = "map (\<lambda>(vni, p). Withdraw vni p) (bd_withdrawR d)"
    and ?rest = "map (\<lambda>(ip, lo, hi). WithdrawNat ip lo hi) (bd_withdrawN d)
      @ map (\<lambda>p. WithdrawPublic (publicPrefixPB p)) (bd_withdrawP d) @ map Unsubscribe (bd_unsubscribe d)"
  have kept: "list_all (\<lambda>m. \<not> on_routes m) ?subs" "list_all (\<lambda>m. \<not> on_routes m) ?others" "list_all (\<lambda>m. \<not> on_routes m) ?rest"
    by (auto simp: list_all_iff AnnounceNat_msg_def AnnouncePublic_msg_def)
  have split: "delta_stream d = ?subs @ ?ann @ ?others @ ?wd @ ?rest"
    by (simp add: delta_stream_def delta_msgs_def)
  define t1 where "t1 = fold (received g s) ?subs t"
  have "sp_holds t1 (ID s) k = held_as (v k)" for k
    using assms(2) kept_holds [OF kept(1)] by (simp add: t1_def)
  then have ann: "sp_holds (fold (received g s) ?ann t1) (ID s) k = held_as (upserts routeKey (bd_announceR d) v k)"
    using announced_holds [where v = v and rs = "bd_announceR d" and t = t1] assms(1) by blast
  show ?thesis
    unfolding split fold_five t1_def [symmetric] kept_holds [OF kept(3)] withdrawn_holds kept_holds [OF kept(2)] ann
    by (simp add: deletes_def held_as_def)
qed

section \<open>NAT blocks\<close>

fun on_nats :: "ClientMsg \<Rightarrow> bool" where
  "on_nats (AnnounceNat _) = True"
| "on_nats (WithdrawNat _ _ _) = True"
| "on_nats _ = False"

lemma received_nat: "\<not> on_nats m \<Longrightarrow> sp_nat (received g s m t) = sp_nat t"
  by (cases m) (auto simp: received_def unhold_def split: option.split)

lemma kept_nat: "list_all (\<lambda>m. \<not> on_nats m) ms \<Longrightarrow> sp_nat (fold (received g s) ms t) = sp_nat t"
  by (rule fold_keeps) (simp add: received_nat list_all_iff)

text \<open>A block the session holds itself, under an owner it may speak for.\<close>

definition own_block :: "underlayGuard \<Rightarrow> Sink \<Rightarrow> (string \<times> NatBlock) option \<Rightarrow> bool" where
  "own_block g s e = (case e of None \<Rightarrow> False | Some (i, n) \<Rightarrow> i = ID s \<and> permits g (nb_OwnerUnderlay n))"

lemma announced_nat:
  assumes "list_all (\<lambda>n. permits g (nb_OwnerUnderlay n)) ns"
  shows "k \<in> nat_key ` set ns \<or> own_block g s (sp_nat t k) \<Longrightarrow> own_block g s (sp_nat (fold (received g s) (map AnnounceNat_msg ns) t) k)"
  using assms
proof (induction ns arbitrary: t)
  case (Cons n ns)
  have "own_block g s (sp_nat (received g s (AnnounceNat_msg n) t) k)" if "k = nat_key n \<or> own_block g s (sp_nat t k)"
    using that Cons.prems(2) by (auto simp: received_def AnnounceNat_msg_def own_block_def nat_key_def)
  with Cons show ?case by auto
qed simp

lemma withdrawn_nat:
  assumes "own_block g s (sp_nat t (ip, lo)) \<or> sp_nat t (ip, lo) = None"
  shows "sp_nat (fold (received g s) (map (\<lambda>(ip, lo, hi). WithdrawNat ip lo hi) ks) t) (ip, lo) =
     (if (ip, lo) \<in> (\<lambda>(ip, lo, hi). (ip, lo)) ` set ks then None else sp_nat t (ip, lo))"
  using assms
proof (induction ks arbitrary: t)
  case (Cons k ks)
  obtain ip' lo' hi' where k: "k = (ip', lo', hi')" by (rule prod_cases3)
  let ?t1 = "received g s (WithdrawNat ip' lo' hi') t"
  have t1: "sp_nat ?t1 (ip, lo) = (if (ip', lo') = (ip, lo) then None else sp_nat t (ip, lo))"
    using Cons.prems by (auto simp: received_def own_block_def allows_def split: option.splits)
  then have "own_block g s (sp_nat ?t1 (ip, lo)) \<or> sp_nat ?t1 (ip, lo) = None" using Cons.prems by simp
  from Cons.IH [OF this] t1 show ?case by (auto simp: k)
qed simp

lemma delta_nat:
  assumes "list_all (\<lambda>n. permits g (nb_OwnerUnderlay n)) (bd_announceN d)"
    and "n \<in> set (bd_announceN d)" and "(nb_NatIP n, nb_PortMin n, hi) \<in> set (bd_withdrawN d)"
  shows "sp_nat (fold (received g s) (delta_stream d) t) (nat_key n) = None"
proof -
  let ?before = "map Subscribe (bd_subscribe d) @ map announce (bd_announceR d)" and ?ann = "map AnnounceNat_msg (bd_announceN d)"
    and ?mid = "map AnnouncePublic_msg (bd_announceP d) @ map (\<lambda>(vni, p). Withdraw vni p) (bd_withdrawR d)"
    and ?wd = "map (\<lambda>(ip, lo, hi). WithdrawNat ip lo hi) (bd_withdrawN d)"
    and ?rest = "map (\<lambda>p. WithdrawPublic (publicPrefixPB p)) (bd_withdrawP d) @ map Unsubscribe (bd_unsubscribe d)"
  have kept: "list_all (\<lambda>m. \<not> on_nats m) ?mid" "list_all (\<lambda>m. \<not> on_nats m) ?rest"
    by (auto simp: list_all_iff AnnouncePublic_msg_def)
  have split: "delta_stream d = ?before @ ?ann @ ?mid @ ?wd @ ?rest" by (simp add: delta_stream_def delta_msgs_def)
  define t1 where "t1 = fold (received g s) ?mid (fold (received g s) ?ann (fold (received g s) ?before t))"
  have "own_block g s (sp_nat t1 (nat_key n))"
    unfolding t1_def kept_nat [OF kept(1)] using assms(1,2) by (intro announced_nat) auto
  moreover have "nat_key n \<in> (\<lambda>(ip, lo, hi). (ip, lo)) ` set (bd_withdrawN d)"
    using assms(3) by (force simp: nat_key_def)
  ultimately show ?thesis
    unfolding split fold_five t1_def [symmetric] kept_nat [OF kept(2)]
    using withdrawn_nat [of g s t1 "nb_NatIP n" "nb_PortMin n" "bd_withdrawN d"] by (simp add: nat_key_def)
qed

section \<open>Properties\<close>

text \<open>
  C4: An agent whose applied routes are what the reflector holds for it sends the difference to its
  wanted routes, and the reflector, after handling those messages in order through the session's
  certificate check, holds for the agent's node exactly the wanted routes with their nexthops.
\<close>

theorem announced_routes_held:
  assumes "rib_inv r" and "desired_ok next" and "st_left st = None"
    and "\<forall>rt\<in>set (ds_Routes next). permits g (rt_Nexthop rt)"
    and "\<forall>k. holds r (ID s) k = map_option (\<lambda>rt. [rt_Nexthop rt]) (mget (index_by routeKey (ds_Routes applied)) k)"
    and "st_sent (snd (snd (sendDelta (diffDesired applied next) (b, st)))) = st_sent st @ ms"
  shows "holds (fst (rib_run (session_ops g s ms) r)) (ID s) k =
     map_option (\<lambda>rt. [rt_Nexthop rt]) (mget (index_by routeKey (ds_Routes next)) k)"
proof -
  let ?d = "diffDesired applied next"
  have ms: "ms = delta_stream ?d" using sendDelta_stream(2) [OF assms(3), of ?d b] assms(6) by simp
  have permit: "permits g (rt_Nexthop rt)" if "rt \<in> set (bd_announceR ?d)" for rt
    using that assms(4) by (auto simp: diffDesired_def Let_def to_announce_def)
  have start: "sp_holds (rib_abs r) (ID s) k = held_as (mget (index_by routeKey (ds_Routes applied)) k)" for k
    using assms(5) by (simp add: rib_abs_def held_as_def)
  have "deletes (bd_withdrawR ?d) (upserts routeKey (bd_announceR ?d) (mget (index_by routeKey (ds_Routes applied))))
      = mget (index_by routeKey (ds_Routes next))"
    using assms(2) route.diff_reaches by (simp add: desired_ok_def diffDesired_def Let_def)
  then have "sp_holds (rib_abs (fst (rib_run (session_ops g s ms) r))) (ID s) k = held_as (mget (index_by routeKey (ds_Routes next)) k)"
    unfolding abs_session [OF assms(1)] ms
    using delta_holds [where v = "mget (index_by routeKey (ds_Routes applied))", OF permit start] by simp
  then show ?thesis by (simp add: rib_abs_def held_as_def)
qed

text \<open>
  C31: A NAT block that is resized in place is lost. The agent keys its blocks by address, first and last
  port, the reflector by address and first port. When the wanted state has a block with the address and
  first port of an applied block but another last port, the agent announces the new block, then
  withdraws the old one, and the withdrawal removes the new block from the table. The next difference
  is empty, so nothing announces it again while the session lives.
\<close>

theorem resized_nat_block_lost:
  assumes "rib_inv r" and "desired_ok next" and "st_left st = None"
    and "\<forall>n\<in>set (ds_Nats next). permits g (nb_OwnerUnderlay n)"
    and "old \<in> set (ds_Nats applied)" and "new \<in> set (ds_Nats next)"
    and "nb_NatIP new = nb_NatIP old" and "nb_PortMin new = nb_PortMin old"
    and "natKey old \<notin> natKey ` set (ds_Nats next)" and "natKey new \<notin> natKey ` set (ds_Nats applied)"
    and "st_sent (snd (snd (sendDelta (diffDesired applied next) (b, st)))) = st_sent st @ ms"
  shows "mget (rb_nat (fst (rib_run (session_ops g s ms) r))) (nb_NatIP new, nb_PortMin new) = None
     \<and> delta_empty (diffDesired next next)"
proof -
  let ?d = "diffDesired applied next" and ?r = "fst (rib_run (session_ops g s ms) r)"
  have ms: "ms = delta_stream ?d" using sendDelta_stream(2) [OF assms(3), of ?d b] assms(11) by simp
  have permit: "list_all (\<lambda>n. permits g (nb_OwnerUnderlay n)) (bd_announceN ?d)"
    using assms(4) by (auto simp: diffDesired_def Let_def to_announce_def list_all_iff)
  have ann: "new \<in> set (bd_announceN ?d)"
    using assms(6,10) natb.index_None [of "ds_Nats applied" "natKey new"] by (simp add: diffDesired_def Let_def natb.announce_iff)
  have wd: "(nb_NatIP new, nb_PortMin new, nb_PortMax old) \<in> set (bd_withdrawN ?d)"
    using assms(5,7,8,9) natb.withdraw_keys [of "natKey old" "ds_Nats applied" "ds_Nats next"]
    by (simp add: diffDesired_def Let_def natKey_def)
  have "sp_nat (rib_abs ?r) (nat_key new) = None"
    unfolding abs_session [OF assms(1)] ms by (rule delta_nat [OF permit ann wd])
  then have "mget (rb_nat ?r) (nat_key new) = None"
    using rib_inv_run [OF assms(1), of "session_ops g s ms"] by (auto simp: rib_abs_def owned_by_def rib_inv_def nat_inv_def split: option.splits)
  moreover have "delta_empty (diffDesired next next)"
    using assms(2) route.diff_nothing [of "ds_Routes next" "ds_Routes next"] natb.diff_nothing [of "ds_Nats next" "ds_Nats next"]
      pubp.diff_nothing [of "ds_Pubs next" "ds_Pubs next"]
    by (simp add: delta_empty_def diffDesired_def Let_def desired_ok_def filter_empty_conv)
  ultimately show ?thesis by (simp add: nat_key_def)
qed

section \<open>Concrete sessions\<close>

definition node_guard :: underlayGuard where
  "node_guard = \<lparr>ug_allowed = List.map_filter ParseIP [''fd00::1'', ''fd00::2''], ug_enforce = True\<rparr>"

definition ann_sink :: Sink where
  "ann_sink = Sink 1 ''node-a''"

definition ann_msgs :: "DesiredState \<Rightarrow> DesiredState \<Rightarrow> ClientMsg list" where
  "ann_msgs applied next = st_sent (snd (snd (sendDelta (diffDesired applied next) (NewBus ''node-a'' ''fd00::1'' False 0, open_stream))))"

theorem announced_routes_held_witness:
  "holds (fst (rib_run (session_ops node_guard ann_sink (ann_msgs no_desired demo_next)) NewRIB)) ''node-a'' (100, ''10.0.0.5/32'')
     = Some [''fd00::2'']"
proof -
  have "desired_ok demo_next" "\<forall>rt\<in>set (ds_Routes demo_next). permits node_guard (rt_Nexthop rt)"
    "mget (index_by routeKey (ds_Routes demo_next)) (100, ''10.0.0.5/32'') = Some (demo_route 100 ''10.0.0.5/32'' ''fd00::2'')"
    by code_simp+
  moreover have "\<forall>k. holds NewRIB (ID ann_sink) k = map_option (\<lambda>rt. [rt_Nexthop rt]) (mget (index_by routeKey (ds_Routes no_desired)) k)"
    by (simp add: holds_def NewRIB_def mget0_def no_entry_def no_desired_def index_by_def)
  ultimately show ?thesis
    using announced_routes_held [OF rib_inv_new, of demo_next open_stream node_guard ann_sink no_desired
        "NewBus ''node-a'' ''fd00::1'' False 0" "ann_msgs no_desired demo_next" "(100, ''10.0.0.5/32'')"]
    by (simp add: open_stream_def ann_msgs_def ann_sink_def demo_route_def)
qed

definition demo_block :: "u32 \<Rightarrow> NatBlock" where
  "demo_block hi = \<lparr>nb_Vni = 100, nb_SourceIP = ''10.0.0.5'', nb_NatIP = ''203.0.113.1'', nb_PortMin = 1024, nb_PortMax = hi,
     nb_OwnerUnderlay = ''fd00::1''\<rparr>"

theorem resized_nat_block_lost_witness:
  "mget (rb_nat (fst (rib_run (session_ops node_guard ann_sink
      (ann_msgs (no_desired\<lparr>ds_Nats := [demo_block 2047]\<rparr>) (no_desired\<lparr>ds_Nats := [demo_block 1535]\<rparr>)))
    (fst (RIB_AnnounceNat ''node-a'' (demo_block 2047) NewRIB))))) (''203.0.113.1'', 1024) = None"
proof -
  let ?old = "no_desired\<lparr>ds_Nats := [demo_block 2047]\<rparr>" and ?new = "no_desired\<lparr>ds_Nats := [demo_block 1535]\<rparr>"
  have "rib_inv (fst (RIB_AnnounceNat ''node-a'' (demo_block 2047) NewRIB))"
    using rib_inv_step [OF rib_inv_new, of "OpAnnounceNat ''node-a'' (demo_block 2047)"] by simp
  moreover have "desired_ok ?new" "\<forall>n\<in>set (ds_Nats ?new). permits node_guard (nb_OwnerUnderlay n)"
    "demo_block 2047 \<in> set (ds_Nats ?old)" "demo_block 1535 \<in> set (ds_Nats ?new)"
    "nb_NatIP (demo_block 1535) = nb_NatIP (demo_block 2047)" "nb_PortMin (demo_block 1535) = nb_PortMin (demo_block 2047)"
    "natKey (demo_block 2047) \<notin> natKey ` set (ds_Nats ?new)" "natKey (demo_block 1535) \<notin> natKey ` set (ds_Nats ?old)"
    by code_simp+
  ultimately show ?thesis
    using resized_nat_block_lost [of "fst (RIB_AnnounceNat ''node-a'' (demo_block 2047) NewRIB)" ?new open_stream node_guard
        "demo_block 2047" ?old "demo_block 1535" "NewBus ''node-a'' ''fd00::1'' False 0" "ann_msgs ?old ?new" ann_sink]
    by (simp add: open_stream_def ann_msgs_def demo_block_def)
qed

end
