(* ===== verification/Edge_Frame.thy ===== *)
theory Edge_Frame
  imports Agent_Session
begin

text \<open>
  What the route half of the agent leaves alone: its calls and its bookkeeping touch neither the load
  balancers and NAT blocks of the dataplane nor the agent's record of them.
\<close>

section \<open>Calls that leave a view alone\<close>

definition route_frame :: "'d Dataplane \<Rightarrow> ('d \<Rightarrow> 'v) \<Rightarrow> bool" where
  "route_frame dp view \<longleftrightarrow>
     (\<forall>vni p nh ext dvni d. view (snd (dp_AddRoute dp vni p nh ext dvni d)) = view d)
   \<and> (\<forall>vni p d. view (snd (dp_WithdrawRoute dp vni p d)) = view d)
   \<and> (\<forall>d. view (snd (dp_ListInterfaces dp d)) = view d)"

definition nat_frame :: "'d Dataplane \<Rightarrow> ('d \<Rightarrow> 'v) \<Rightarrow> bool" where
  "nat_frame dp view \<longleftrightarrow>
     (\<forall>ip lo hi owner vni d. view (snd (dp_AddNeighborNat dp ip lo hi owner vni d)) = view d)
   \<and> (\<forall>ip lo hi vni d. view (snd (dp_WithdrawNeighborNat dp ip lo hi vni d)) = view d)
   \<and> (\<forall>bs d. view (snd (dp_ReplaceNeighborNats dp bs d)) = view d)"

definition lb_frame :: "'d Dataplane \<Rightarrow> ('d \<Rightarrow> 'v) \<Rightarrow> bool" where
  "lb_frame dp view \<longleftrightarrow>
     (\<forall>i vni ip ul ports d. view (snd (dp_AddLoadBalancer dp i vni ip ul ports d)) = view d)
   \<and> (\<forall>i d. view (snd (dp_DelLoadBalancer dp i d)) = view d)
   \<and> (\<forall>i ul ov vni d. view (snd (dp_AddLbBackend dp i ul ov vni d)) = view d)
   \<and> (\<forall>i ul ov d. view (snd (dp_DelLbBackend dp i ul ov d)) = view d)"

lemma route_frameD:
  assumes "route_frame dp view"
  shows "view (snd (dp_AddRoute dp vni p nh ext dvni d)) = view d"
    and "view (snd (dp_WithdrawRoute dp vni p d)) = view d" and "view (snd (dp_ListInterfaces dp d)) = view d"
  using assms by (simp_all add: route_frame_def)

lemma nat_frameD:
  assumes "nat_frame dp view"
  shows "view (snd (dp_AddNeighborNat dp ip lo hi owner vni d)) = view d"
    and "view (snd (dp_WithdrawNeighborNat dp ip lo hi vni d)) = view d"
    and "view (snd (dp_ReplaceNeighborNats dp bs d)) = view d"
  using assms by (simp_all add: nat_frame_def)

lemma lb_frameD:
  assumes "lb_frame dp view"
  shows "view (snd (dp_AddLoadBalancer dp i vni ip ul ports d)) = view d"
    and "view (snd (dp_DelLoadBalancer dp i d)) = view d"
    and "view (snd (dp_AddLbBackend dp i ul ov bvni d)) = view d"
    and "view (snd (dp_DelLbBackend dp i ul ov d)) = view d"
  using assms by (simp_all add: lb_frame_def)

lemma store_frames:
  "route_frame store_dp so_lbs" "nat_frame store_dp so_lbs" "route_frame store_dp so_nats" "lb_frame store_dp so_nats"
  "route_frame store_dp so_down" "nat_frame store_dp so_down" "lb_frame store_dp so_down"
  by (auto simp: route_frame_def nat_frame_def lb_frame_def store_dp_def store_call_def split: option.splits prod.splits)

section \<open>The edge half of the bus\<close>

text \<open>The fields the global channel works on; \<open>aside\<close> is the relation of states that agree on them and on a view.\<close>

definition edge_part :: "Bus \<Rightarrow> bool \<times> string \<times> (string, edgeLb) gomap \<times> natEntry goset
    \<times> (natEntry, string) gomap \<times> publicEntry goset \<times> bool \<times> u32" where
  "edge_part b = (b_isEdge b, b_underlay b, b_edgeLbs b, b_installedNat b, b_seenNat b, b_seenPublic b,
     b_replayingGlobal b, b_globalRecords b)"

definition aside :: "('d \<Rightarrow> 'v) \<Rightarrow> 'd agent \<Rightarrow> 'd agent \<Rightarrow> bool" where
  "aside view s s' \<longleftrightarrow> edge_part (fst s') = edge_part (fst s) \<and> view (snd s') = view (snd s)"

lemma edge_part_update [simp]:
  "edge_part (b\<lparr>b_programmed := x1\<rparr>) = edge_part b" "edge_part (b\<lparr>b_retries := x2\<rparr>) = edge_part b"
  "edge_part (b\<lparr>b_learnedOwn := x3\<rparr>) = edge_part b" "edge_part (b\<lparr>b_learnedPublic := x4\<rparr>) = edge_part b"
  "edge_part (b\<lparr>b_seen := x5\<rparr>) = edge_part b" "edge_part (b\<lparr>b_rxRoutes := x6\<rparr>) = edge_part b"
  "edge_part (b\<lparr>b_localHosts := x7\<rparr>) = edge_part b" "edge_part (b\<lparr>b_ownUnderlays := x8\<rparr>) = edge_part b"
  "edge_part (b\<lparr>b_dpInstance := x9\<rparr>) = edge_part b" "edge_part (b\<lparr>b_dpSeen := x10\<rparr>) = edge_part b"
  "edge_part (b\<lparr>b_dpUnreachable := x11\<rparr>) = edge_part b" "edge_part (b\<lparr>b_resendQueue := x12\<rparr>) = edge_part b"
  "edge_part (b\<lparr>b_lastFullResync := x13\<rparr>) = edge_part b" "edge_part (b\<lparr>b_ticks := x14\<rparr>) = edge_part b"
  "edge_part (b\<lparr>b_absentTicks := x15\<rparr>) = edge_part b" "edge_part (b\<lparr>b_peerImports := x16\<rparr>) = edge_part b"
  "edge_part (b\<lparr>b_egressVNIs := x17\<rparr>) = edge_part b" "edge_part (b\<lparr>b_subscribedVNIs := x18\<rparr>) = edge_part b"
  "edge_part (b\<lparr>b_eorSeen := x19\<rparr>) = edge_part b" "edge_part (b\<lparr>b_globalDone := x20\<rparr>) = edge_part b"
  "edge_part (b\<lparr>b_converged := x21\<rparr>) = edge_part b" "edge_part (b\<lparr>b_learnedEdge := x22\<rparr>) = edge_part b"
  by (simp_all add: edge_part_def)

lemma aside_refl [simp]: "aside view s s"
  by (simp add: aside_def)

lemma aside_trans: "aside view s t \<Longrightarrow> aside view t u \<Longrightarrow> aside view s u"
  by (simp add: aside_def)

lemma aside_bus: "edge_part b' = edge_part b \<Longrightarrow> aside view (b, d) t = aside view (b', d) t"
  by (simp add: aside_def)

lemma aside_fold: "(\<And>x s. aside view s (f x s)) \<Longrightarrow> aside view s (fold f xs s)"
proof (induction xs arbitrary: s)
  case (Cons x xs)
  then show ?case using aside_trans [of view s "f x s"] by simp
qed simp

lemma edge_part_helpers [simp]:
  "edge_part (setProgrammed vni p r b) = edge_part b" "edge_part (forgetProgrammed vni p b) = edge_part b"
  "edge_part (noteSuccess k b) = edge_part b" "edge_part (noteFailure k err w ok b) = edge_part b"
  "edge_part (setLearnedOwn vni p ow b) = edge_part b" "edge_part (delLearnedOwn vni p b) = edge_part b"
  "edge_part (markSeen vni p b) = edge_part b" "edge_part (resetRouteSnapshot vni b) = edge_part b"
  "edge_part (queueFullResend now b) = edge_part b" "edge_part (snd (waits k b)) = edge_part b"
  "edge_part (setPeerImportsLocked m b) = edge_part b" "edge_part (forget_absent vni b) = edge_part b"
  "edge_part (recomputeConvergedLocked b) = edge_part b" "edge_part (noteSubscribed vs b) = edge_part b"
  "edge_part (noteEndOfRIB vni b) = edge_part b" "edge_part (noteEndOfGlobal b) = edge_part b"
  by (simp_all add: setProgrammed_def forgetProgrammed_def noteSuccess_def noteFailure_def setLearnedOwn_def delLearnedOwn_def
      markSeen_def resetRouteSnapshot_def queueFullResend_def waits_def backingOff_def setPeerImportsLocked_def forget_absent_def
      recomputeConvergedLocked_def noteSubscribed_def noteEndOfRIB_def noteEndOfGlobal_def Let_def split: option.split)

lemma edge_part_folds [simp]:
  "edge_part (fold (delLearnedOwn vni) ps b) = edge_part b" "edge_part (fold forget_absent vs b) = edge_part b"
  "edge_part (forgetUnsubscribed subs b) = edge_part b"
proof -
  show "edge_part (fold (delLearnedOwn vni) ps b) = edge_part b" by (induction ps arbitrary: b) simp_all
  have *: "edge_part (fold forget_absent vs b) = edge_part b" for vs b by (induction vs arbitrary: b) simp_all
  then show "edge_part (fold forget_absent vs b) = edge_part b" .
  show "edge_part (forgetUnsubscribed subs b) = edge_part b" by (simp add: forgetUnsubscribed_def Let_def *)
qed

section \<open>The route half\<close>

lemma aside_syncKey: "route_frame dp view \<Longrightarrow> aside view s (snd (syncKey dp vni p force s))"
  by (simp add: aside_def syncKey_def split_def route_frameD split: option.split)

lemma aside_sync_key: "route_frame dp view \<Longrightarrow> aside view s (sync_key dp vni p force s)"
  by (simp add: sync_key_def aside_syncKey)

lemma aside_sync_all: "route_frame dp view \<Longrightarrow> aside view s (sync_all dp force ks s)"
proof (induction ks arbitrary: s)
  case (Cons k ks)
  then show ?case using aside_trans [OF aside_sync_key [of dp view s "fst k" "snd k" force]] by simp
qed simp

lemma aside_syncLearned: "route_frame dp view \<Longrightarrow> aside view s (syncLearned dp vni p force s)"
  by (auto simp: syncLearned_def Let_def aside_sync_all intro: aside_trans [OF aside_sync_key aside_sync_all])

lemma aside_apply_update: "route_frame dp view \<Longrightarrow> aside view s (apply_update dp vni p nhs op ext s)"
  using aside_syncLearned [of dp view _ _ p True]
  by (cases s) (simp add: apply_update_def Let_def aside_def split: RouteOp.split)

lemma aside_pruneVNI:
  assumes "route_frame dp view"
  shows "aside view s (pruneVNI dp vni n s)"
proof -
  have "aside view t (fold (\<lambda>p. syncLearned dp vni p False) ps t)" for t ps
    by (rule aside_fold) (rule aside_syncLearned [OF assms])
  then show ?thesis by (cases s) (simp add: pruneVNI_def Let_def aside_def)
qed

lemma aside_diff_pass: "route_frame dp view \<Longrightarrow> aside view s (snd (diff_pass dp ks budget s))"
proof (induction ks arbitrary: budget s)
  case (Cons k ks)
  let ?s1 = "(snd (waits k (fst s)), snd s)"
  have "aside view s ?s1" by (simp add: aside_def)
  moreover have "aside view s (snd (syncKey dp (fst k) (snd k) False ?s1))"
    using aside_trans [OF \<open>aside view s ?s1\<close> aside_syncKey [OF Cons.prems]] .
  ultimately show ?case
    using Cons.IH [OF Cons.prems] aside_trans by (simp add: Let_def split_def) blast
qed simp

lemma aside_resend_pass: "route_frame dp view \<Longrightarrow> aside view s (resend_pass dp ks budget s)"
proof (induction ks arbitrary: budget s)
  case (Cons k ks)
  have "aside view s (snd (syncKey dp (fst k) (snd k) True s))" by (rule aside_syncKey [OF Cons.prems])
  moreover have "aside view s ((fst t)\<lparr>b_resendQueue := q\<rparr>, snd t)" if "aside view s t" for t q
    using that by (simp add: aside_def)
  ultimately show ?case
    using Cons.IH [OF Cons.prems] aside_trans by (simp add: Let_def split_def) blast
qed (simp add: aside_def)

lemma aside_resyncRoutes:
  assumes "route_frame dp view"
  shows "aside view s (resyncRoutes dp s)"
proof -
  obtain b d where s: "s = (b, d)" by fastforce
  let ?b1 = "b\<lparr>b_retries := filter (\<lambda>(k, _). k \<in> set (routeKeys b)) (b_retries b)\<rparr>"
  have "aside view s (snd (diff_pass dp (routeKeys b) routeCallsPerTick (?b1, d)))"
    using aside_diff_pass [OF assms, of "(?b1, d)"] by (simp add: s aside_def)
  with aside_trans [OF this aside_resend_pass [OF assms]] show ?thesis
    by (simp add: s resyncRoutes_def Let_def split_def)
qed

lemma aside_refreshLocalHosts:
  assumes "route_frame dp view"
  shows "aside view s (snd (refreshLocalHosts dp s))"
proof -
  obtain b d where s: "s = (b, d)" by fastforce
  have rel: "aside view t (releaseLocalHost dp vni p t)" for vni p t
    using aside_sync_key [OF assms, of _ vni p True] by (cases t) (simp add: releaseLocalHost_def Let_def aside_def split: option.split)
  have folds: "aside view t (fold (\<lambda>k. releaseLocalHost dp (fst k) (snd k)) ks t)" for t ks
    by (rule aside_fold) (rule rel)
  obtain res d1 where l: "dp_ListInterfaces dp d = (res, d1)" by fastforce
  have view: "view d1 = view d" using route_frameD(3) [OF assms, of d] by (simp add: l)
  show ?thesis
    using folds view by (simp add: s refreshLocalHosts_def l split_def Let_def aside_def split: sum.split)
qed

lemma aside_syncRoutes:
  assumes "route_frame dp view"
  shows "aside view s (syncRoutes dp now s)"
proof -
  obtain b d where s: "s = (b, d)" by fastforce
  define r where "r = refreshLocalHosts dp (b\<lparr>b_ticks := b_ticks b + 1\<rparr>, d)"
  have "aside view s (snd r)"
    using aside_refreshLocalHosts [OF assms, of "(b\<lparr>b_ticks := b_ticks b + 1\<rparr>, d)"] by (simp add: s r_def aside_def)
  then have "aside view s (resyncRoutes dp (b', snd (snd r)))" if "edge_part b' = edge_part (fst (snd r))" for b'
    using that aside_resyncRoutes [OF assms, of "(b', snd (snd r))"] by (simp add: aside_def)
  then show ?thesis
    unfolding s syncRoutes_def prod.case r_def [symmetric] by (simp add: Let_def split_def)
qed

lemma edge_part_sendDelta: "edge_part (fst (snd (sendDelta d s))) = edge_part (fst s)"
proof -
  have *: "edge_part (fst (snd (send_subscribes vs s))) = edge_part (fst s)" for vs s
    by (induction vs s rule: send_subscribes.induct) (auto simp: Let_def split: prod.split bool.split)
  show ?thesis using * [of "bd_subscribe d" s] by (auto simp: sendDelta_def split: prod.split bool.split)
qed

lemma aside_reconcileStep:
  assumes "route_frame dp view"
  shows "aside view (se_bus s, se_dp s) (se_bus (snd (reconcileStep dp now rec s)), se_dp (snd (reconcileStep dp now rec s)))"
proof (cases rec)
  case None
  then show ?thesis using aside_syncRoutes [OF assms, of "(se_bus s, se_dp s)" now]
    by (simp add: reconcileStep_def split_def Let_def)
next
  case (Some desired)
  define b2 where "b2 = forgetUnsubscribed (ds_Subs desired) (noteSubscribed (ds_Subs desired)
      (setPeerImportsLocked (ds_PeeringImports desired) ((se_bus s)\<lparr>b_egressVNIs := ds_EgressVNIs desired\<rparr>)))"
  obtain b3 d3 where s3: "syncRoutes dp now (b2, se_dp s) = (b3, d3)" by fastforce
  have "edge_part b2 = edge_part (se_bus s)" by (simp add: b2_def)
  then have a: "aside view (se_bus s, se_dp s) (b3, d3)"
    using aside_syncRoutes [OF assms, of "(b2, se_dp s)" now] by (simp add: s3 aside_def)
  obtain ok b4 st where s4: "sendDelta (diffDesired (se_applied s) desired) (b3, se_stream s) = (ok, b4, st)" by (metis prod_cases3)
  have "edge_part b4 = edge_part b3"
    using edge_part_sendDelta [of "diffDesired (se_applied s) desired" "(b3, se_stream s)"] by (simp add: s4)
  with a show ?thesis
    by (simp add: Some reconcileStep_def Let_def b2_def [symmetric] s3 s4 aside_def)
qed

end
