(* ===== verification/Edge_Lbs.thy ===== *)
theory Edge_Lbs
  imports Edge_Frame
begin

text \<open>
  The load balancers of a WAN edge: the agent's record of them against what the dataplane holds, over
  every run of the agent, and what the end of the global snapshot leaves.
\<close>

section \<open>The record is right\<close>

definition lb_entry :: "edgeLb \<Rightarrow> lb_view" where
  "lb_entry lb = (el_ports lb, mget (el_backends lb))"

definition lb_inv :: "'d lbs \<Rightarrow> 'd agent \<Rightarrow> bool" where
  "lb_inv lbs s \<longleftrightarrow> mwf (b_edgeLbs (fst s)) \<and> (\<forall>i lb. mget (b_edgeLbs (fst s)) i = Some lb \<longrightarrow> lbs (snd s) i = Some (lb_entry lb))"

lemma lb_inv_cong:
  "b_edgeLbs (fst s') = b_edgeLbs (fst s) \<Longrightarrow> lbs (snd s') = lbs (snd s) \<Longrightarrow> lb_inv lbs s' = lb_inv lbs s"
  by (simp add: lb_inv_def)

lemma aside_lb: "aside lbs s s' \<Longrightarrow> lb_inv lbs s \<Longrightarrow> lb_inv lbs s'"
  using lb_inv_cong [of s' s lbs] by (simp add: aside_def edge_part_def)

text \<open>The outcome of an all-or-nothing call.\<close>

lemma all_or_nothing_cases:
  assumes "all_or_nothing view v d (res, d')"
  shows "res = None \<Longrightarrow> view d' = v" and "res \<noteq> None \<Longrightarrow> view d' = view d"
  using assms by (auto simp: all_or_nothing_def split: option.splits)

lemma registerLoadBalancer_inv:
  assumes "lbs_ok dp lbs" and "lb_inv lbs s" and "mget (b_edgeLbs (fst s)) i = None"
  shows "lb_inv lbs (snd (registerLoadBalancer dp i ports s))
    \<and> (fst (registerLoadBalancer dp i ports s) \<longrightarrow>
        b_edgeLbs (fst (snd (registerLoadBalancer dp i ports s))) = mput i \<lparr>el_ports = ports, el_backends = []\<rparr> (b_edgeLbs (fst s)))"
proof -
  obtain b d where s: "s = (b, d)" by fastforce
  let ?add = "dp_AddLoadBalancer dp i PublicVNI i (b_underlay b) ports"
  obtain e1 d1 where a1: "?add d = (e1, d1)" by fastforce
  obtain e2 d2 where a2: "dp_DelLoadBalancer dp i d1 = (e2, d2)" by fastforce
  obtain e3 d3 where a3: "?add d2 = (e3, d3)" by fastforce
  note c1 = all_or_nothing_cases [OF lbs_okD(1) [OF assms(1), of d i ports PublicVNI i "b_underlay b", unfolded a1]]
  note c2 = all_or_nothing_cases [OF lbs_okD(3) [OF assms(1), of d1 i, unfolded a2]]
  note c3 = all_or_nothing_cases [OF lbs_okD(1) [OF assms(1), of d2 i ports PublicVNI i "b_underlay b", unfolded a3]]
  have same: "lb_inv lbs (b, d')" if "\<And>j. j \<noteq> i \<Longrightarrow> lbs d' j = lbs d j" for d'
    using assms(2,3) that unfolding lb_inv_def s fst_conv snd_conv by (metis option.distinct(1))
  have made: "lb_inv lbs (b\<lparr>b_edgeLbs := mput i \<lparr>el_ports = ports, el_backends = []\<rparr> (b_edgeLbs b)\<rparr>, d')"
    if "\<And>j. j \<noteq> i \<Longrightarrow> lbs d' j = lbs d j" and "lbs d' i = Some (ports, \<lambda>_. None)" for d'
    using assms(2) that by (auto simp: lb_inv_def s lb_entry_def fun_eq_iff)
  show ?thesis
    using c1 c2 c3 same made
    by (auto simp: s registerLoadBalancer_def Let_def a1 a2 a3 split: option.splits)
qed

lemma attach_backend_inv:
  assumes "lbs_ok dp lbs" and "lb_inv lbs s"
  shows "lb_inv lbs (attach_backend dp i bk vni s)"
proof -
  obtain b d where s: "s = (b, d)" by fastforce
  obtain e1 d1 where a1: "dp_AddLbBackend dp i (fst bk) (snd bk) vni d = (e1, d1)" by fastforce
  note c1 = all_or_nothing_cases [OF lbs_okD(4) [OF assms(1), where d = d and i = i and ul = "fst bk" and ov = "snd bk" and bvni = vni, unfolded a1]]
  have "lb_inv lbs (record_backend i bk vni b, d1)" if "e1 = None"
    using assms(2) c1(1) [OF that]
    by (auto simp: lb_inv_def s record_backend_def lb_entry_def set_backend_def fun_eq_iff split: option.splits if_splits)
  moreover have "lb_inv lbs (b, d1)" if "e1 \<noteq> None"
    using assms(2) c1(2) [OF that] by (simp add: lb_inv_def s)
  ultimately show ?thesis by (simp add: s attach_backend_def a1 split: option.split)
qed

lemma lb_inv_fold: "lb_inv lbs s \<Longrightarrow> (\<And>x s. lb_inv lbs s \<Longrightarrow> lb_inv lbs (f x s)) \<Longrightarrow> lb_inv lbs (fold f xs s)"
  by (induction xs arbitrary: s) auto

lemma ensure_lb_inv:
  assumes "lbs_ok dp lbs" and "lb_inv lbs s"
  shows "lb_inv lbs (snd (ensure_lb dp i ports s))"
proof -
  obtain b d where s: "s = (b, d)" by fastforce
  obtain e1 d1 where a1: "dp_DelLoadBalancer dp i d = (e1, d1)" by fastforce
  note c1 = all_or_nothing_cases [OF lbs_okD(3) [OF assms(1), of d i, unfolded a1]]
  let ?s1 = "(b\<lparr>b_edgeLbs := mdel i (b_edgeLbs b)\<rparr>, d1)"
  have fail: "lb_inv lbs (b, d1)" if "e1 \<noteq> None" using assms(2) c1(2) [OF that] by (simp add: lb_inv_def s)
  have "lb_inv lbs ?s1" if "e1 = None" using assms(2) c1(1) [OF that] by (simp add: lb_inv_def s)
  then have reg: "lb_inv lbs (snd (registerLoadBalancer dp i ports ?s1))" if "e1 = None"
    using registerLoadBalancer_inv [OF assms(1), of ?s1 i ports] that by simp
  have "lb_inv lbs (fold (\<lambda>(pk, pvni). attach_backend dp i pk pvni) xs t)" if "lb_inv lbs t" for xs t
    by (rule lb_inv_fold [OF that]) (simp add: split_def attach_backend_inv [OF assms(1)])
  with reg fail show ?thesis
    using registerLoadBalancer_inv [OF assms, of i ports] assms(2)
    by (auto simp: s ensure_lb_def a1 split_def split: option.split bool.split)
qed

lemma addLbBackend_inv:
  assumes "lbs_ok dp lbs" and "lb_inv lbs s"
  shows "lb_inv lbs (addLbBackend dp pp s)"
  using ensure_lb_inv [OF assms] attach_backend_inv [OF assms(1)] by (simp add: addLbBackend_def Let_def split_def)

lemma detach_backend_inv:
  assumes "lbs_ok dp lbs" and "lb_inv lbs s"
  shows "lb_inv lbs (snd (detach_backend dp i bk s))"
proof -
  obtain b d where s: "s = (b, d)" by fastforce
  obtain e1 d1 where a1: "dp_DelLbBackend dp i (fst bk) (snd bk) d = (e1, d1)" by fastforce
  note c1 = all_or_nothing_cases [OF lbs_okD(6) [OF assms(1), where d = d and i = i and ul = "fst bk" and ov = "snd bk", unfolded a1]]
  show ?thesis
    using assms(2) c1
    by (auto simp: s detach_backend_def a1 lb_inv_def lb_entry_def set_backend_def fun_eq_iff split: option.splits if_splits)
qed

lemma drop_empty_lb_inv:
  assumes "lbs_ok dp lbs" and "lb_inv lbs s"
  shows "lb_inv lbs (drop_empty_lb dp i s)"
proof -
  obtain b d where s: "s = (b, d)" by fastforce
  obtain e1 d1 where a1: "dp_DelLoadBalancer dp i d = (e1, d1)" by fastforce
  note c1 = all_or_nothing_cases [OF lbs_okD(3) [OF assms(1), of d i, unfolded a1]]
  show ?thesis
    using assms(2) c1 by (auto simp: s drop_empty_lb_def a1 lb_inv_def split: option.splits)
qed

lemma delLbBackend_inv:
  assumes "lbs_ok dp lbs" and "lb_inv lbs s"
  shows "lb_inv lbs (delLbBackend dp pp s)"
  using detach_backend_inv [OF assms] drop_empty_lb_inv [OF assms(1)] assms(2)
  by (simp add: delLbBackend_def Let_def split_def)

lemma applyPublic_inv:
  assumes "lbs_ok dp lbs" and "lb_inv lbs s"
  shows "lb_inv lbs (applyPublic dp pp op s)"
proof -
  obtain b d where s: "s = (b, d)" by fastforce
  have "lb_inv lbs (b', d)" if "b_edgeLbs b' = b_edgeLbs b" for b'
    using that assms(2) by (simp add: lb_inv_def s)
  then show ?thesis
    by (simp add: s applyPublic_def Let_def addLbBackend_inv [OF assms(1)] delLbBackend_inv [OF assms(1)]
        split: PublicKind.split RouteOp.split)
qed

lemma pruneLbBackends_inv:
  assumes "lbs_ok dp lbs" and "lb_inv lbs s"
  shows "lb_inv lbs (pruneLbBackends dp s)"
proof -
  have "lb_inv lbs (prune_lb dp e t)" if "lb_inv lbs t" for e t
    unfolding prune_lb_def split_def
    by (rule drop_empty_lb_inv [OF assms(1)], rule lb_inv_fold [OF that])
      (simp add: prune_backend_def detach_backend_inv [OF assms(1)])
  then show ?thesis unfolding pruneLbBackends_def by (rule lb_inv_fold [OF assms(2)])
qed

text \<open>The NAT half leaves the load balancers alone.\<close>

definition nat_aside :: "'d lbs \<Rightarrow> 'd agent \<Rightarrow> 'd agent \<Rightarrow> bool" where
  "nat_aside lbs s s' \<longleftrightarrow> b_edgeLbs (fst s') = b_edgeLbs (fst s) \<and> b_seenPublic (fst s') = b_seenPublic (fst s)
     \<and> lbs (snd s') = lbs (snd s)"

lemma nat_aside_trans: "nat_aside lbs s t \<Longrightarrow> nat_aside lbs t u \<Longrightarrow> nat_aside lbs s u"
  by (simp add: nat_aside_def)

lemma nat_aside_inv: "nat_aside lbs s s' \<Longrightarrow> lb_inv lbs s \<Longrightarrow> lb_inv lbs s'"
  by (simp add: nat_aside_def lb_inv_def)

lemma nat_aside_fold: "(\<And>x s. nat_aside lbs s (f x s)) \<Longrightarrow> nat_aside lbs s (fold f xs s)"
proof (induction xs arbitrary: s)
  case (Cons x xs)
  then show ?case using nat_aside_trans [of lbs s "f x s"] by simp
qed (simp add: nat_aside_def)

lemma nat_aside_add: "nat_frame dp lbs \<Longrightarrow> nat_aside lbs s (addNeighborNat dp e owner s)"
  by (simp add: nat_aside_def addNeighborNat_def split_def nat_frameD split: option.split)

lemma nat_aside_adds: "nat_frame dp lbs \<Longrightarrow> nat_aside lbs s (add_nats dp es s)"
  unfolding add_nats_def by (rule nat_aside_fold) (simp add: split_def nat_aside_add)

lemma nat_aside_prune: "nat_frame dp lbs \<Longrightarrow> nat_aside lbs s (prune_nat dp e s)"
  by (simp add: nat_aside_def prune_nat_def split_def nat_frameD split: option.split)

lemma nat_aside_applyNat: "nat_frame dp lbs \<Longrightarrow> nat_aside lbs s (applyNat dp nu op s)"
  using nat_aside_add [of dp lbs]
  by (cases s) (auto simp: nat_aside_def applyNat_def split_def nat_frameD Let_def split: option.split RouteOp.split)

lemma nat_aside_sync:
  assumes "nat_frame dp lbs"
  shows "nat_aside lbs s (syncNeighborNats dp s)"
proof -
  obtain b d where s: "s = (b, d)" by fastforce
  obtain e d1 where r: "dp_ReplaceNeighborNats dp (nat_blocks (b_seenNat b)) d = (e, d1)" by fastforce
  have eq: "lbs d1 = lbs d" using nat_frameD(3) [OF assms, of "nat_blocks (b_seenNat b)" d] by (simp add: r)
  have "nat_aside lbs t (fold (prune_nat dp) xs t)" for xs t
    by (rule nat_aside_fold) (rule nat_aside_prune [OF assms])
  then show ?thesis
    using eq nat_aside_adds [OF assms] by (auto simp: nat_aside_def s syncNeighborNats_def r Let_def split: option.split)
qed

lemma nat_frame_sync:
  assumes "nat_frame dp view"
  shows "view (snd (syncNeighborNats dp s)) = view (snd s)"
proof -
  have fold: "view (snd (fold f xs s)) = view (snd s)"
    if "\<And>x s. view (snd (f x s)) = view (snd s)" for f :: "'x \<Rightarrow> 'a agent \<Rightarrow> 'a agent" and xs s
    using that by (induction xs arbitrary: s) simp_all
  have add: "view (snd (addNeighborNat dp e owner s)) = view (snd s)" and prune: "view (snd (prune_nat dp e s)) = view (snd s)" for e owner s
    by (simp_all add: addNeighborNat_def prune_nat_def split_def nat_frameD [OF assms] split: option.split)
  have adds: "view (snd (add_nats dp es s)) = view (snd s)" for es s
    unfolding add_nats_def by (rule fold) (simp add: split_def add)
  obtain b d where s: "s = (b, d)" by fastforce
  obtain e d1 where r: "dp_ReplaceNeighborNats dp (nat_blocks (b_seenNat b)) d = (e, d1)" by fastforce
  have "view d1 = view d" using nat_frameD(3) [OF assms, of "nat_blocks (b_seenNat b)" d] by (simp add: r)
  then show ?thesis
    by (simp add: s syncNeighborNats_def r Let_def adds fold [OF prune] split: option.split)
qed

lemma pruneGlobal_inv:
  assumes "lbs_ok dp lbs" and "nat_frame dp lbs" and "lb_inv lbs s"
  shows "lb_inv lbs (pruneGlobal dp n s)"
proof -
  obtain b d where s: "s = (b, d)" by fastforce
  let ?s1 = "(b\<lparr>b_replayingGlobal := False\<rparr>, d)"
  have "lb_inv lbs ?s1" using assms(3) lb_inv_cong [of ?s1 s lbs] by (simp add: s)
  then show ?thesis
    using nat_aside_inv [OF nat_aside_adds [OF assms(2)]] nat_aside_inv [OF nat_aside_sync [OF assms(2)]]
    by (simp add: s pruneGlobal_def Let_def pruneLbBackends_inv [OF assms(1)])
qed

lemma handleServerMsg_lb:
  assumes "lbs_ok dp lbs" and "route_frame dp lbs" and "nat_frame dp lbs" and "lb_inv lbs s"
  shows "lb_inv lbs (handleServerMsg dp m s)"
proof -
  obtain b d where s: "s = (b, d)" by fastforce
  have cong: "lb_inv lbs (b', d)" if "b_edgeLbs b' = b_edgeLbs b" for b'
    using that assms(4) lb_inv_cong [of "(b', d)" s lbs] by (simp add: s)
  show ?thesis
  proof (cases m)
    case (RouteUpdate k nhs op ext)
    then show ?thesis
      using aside_lb [OF aside_apply_update [OF assms(2)]] cong by (simp add: s handleServerMsg_def Let_def)
  next
    case (NatUpdate nu op)
    then show ?thesis
      using nat_aside_inv [OF nat_aside_applyNat [OF assms(3)]] cong by (simp add: s handleServerMsg_def)
  next
    case (EndOfRIB vni n)
    have "aside lbs s (handleServerMsg dp m s)"
      using aside_pruneVNI [OF assms(2), of s vni n] by (simp add: s EndOfRIB handleServerMsg_def aside_def split_def)
    then show ?thesis using assms(4) by (rule aside_lb)
  next
    case (EndOfGlobal n)
    have "lb_inv lbs (noteEndOfGlobal (fst t), snd t) = lb_inv lbs t" for t
      by (intro lb_inv_cong) (simp_all add: noteEndOfGlobal_def recomputeConvergedLocked_def)
    then show ?thesis
      using pruneGlobal_inv [OF assms(1,3,4), of n] by (simp add: s EndOfGlobal handleServerMsg_def split_def)
  qed (use cong assms(4) in \<open>simp_all add: s handleServerMsg_def applyPublic_inv [OF assms(1)]\<close>)
qed

abbreviation lb_session :: "'d lbs \<Rightarrow> 'd session_state \<Rightarrow> bool" where
  "lb_session lbs s \<equiv> lb_inv lbs (se_bus s, se_dp s)"

lemma reconcileStep_lb:
  assumes "route_frame dp lbs" and "lb_session lbs s"
  shows "lb_session lbs (snd (reconcileStep dp now rec s))"
  using aside_lb [OF aside_reconcileStep [OF assms(1)] assms(2)] .

lemma open_session_lb:
  assumes "route_frame dp lbs" and "lb_inv lbs s"
  shows "lb_session lbs (snd (open_session dp now rec st s))"
proof -
  obtain b d where s: "s = (b, d)" by fastforce
  have "lb_inv lbs (resetGlobalSnapshot (b\<lparr>b_seen := [], b_rxRoutes := []\<rparr>), d)"
    using assms(2) by (simp add: s lb_inv_def resetGlobalSnapshot_def)
  then show ?thesis
    using assms(2) reconcileStep_lb [OF assms(1)] by (simp add: s open_session_def split: prod.split bool.split)
qed

text \<open>Outside events that leave what the dataplane holds alone; a restarted dataplane adopts its load balancers.\<close>

fun adopts :: "('d \<Rightarrow> 'v) \<Rightarrow> 'd agent_event \<Rightarrow> bool" where
  "adopts view (Env f) \<longleftrightarrow> (\<forall>d. view (f d) = view d)"
| "adopts view _ \<longleftrightarrow> True"

lemma agent_step_lb:
  assumes "lbs_ok dp lbs" and "route_frame dp lbs" and "nat_frame dp lbs" and "adopts lbs ev" and "lb_session lbs s"
  shows "lb_session lbs (agent_step dp ev s)"
  using assms(4,5) handleServerMsg_lb [OF assms(1-3,5)] reconcileStep_lb [OF assms(2,5)] open_session_lb [OF assms(2,5)]
  by (cases ev) (simp_all add: lb_inv_def split_def)

lemma agent_run_lb:
  assumes "lbs_ok dp lbs" and "route_frame dp lbs" and "nat_frame dp lbs"
  shows "list_all (adopts lbs) evs \<Longrightarrow> lb_session lbs s \<Longrightarrow> lb_session lbs (agent_run dp evs s)"
  unfolding agent_run_def
proof (induction evs arbitrary: s)
  case (Cons ev evs)
  then show ?case using agent_step_lb [OF assms, of ev s] by simp
qed simp

section \<open>The end of the snapshot\<close>

text \<open>In the states \<open>up\<close> the calls that remove load balancers and backends succeed.\<close>

definition lb_deletes_up :: "'d Dataplane \<Rightarrow> ('d \<Rightarrow> bool) \<Rightarrow> bool" where
  "lb_deletes_up dp up \<longleftrightarrow> (\<forall>d. up d \<longrightarrow>
     (\<forall>i. fst (dp_DelLoadBalancer dp i d) = None \<and> up (snd (dp_DelLoadBalancer dp i d)))
   \<and> (\<forall>i ul ov. fst (dp_DelLbBackend dp i ul ov d) = None \<and> up (snd (dp_DelLbBackend dp i ul ov d))))"

definition replayed :: "Bus \<Rightarrow> string \<Rightarrow> backend_id \<Rightarrow> bool" where
  "replayed b i bk \<longleftrightarrow> \<lparr>pe_lbIP = i, pe_owner = fst bk, pe_overlay = snd bk\<rparr> \<in> set (b_seenPublic b)"

text \<open>The load balancer and every backend of it are of the snapshot.\<close>

definition of_snapshot :: "Bus \<Rightarrow> string \<Rightarrow> bool" where
  "of_snapshot b i \<longleftrightarrow> (case mget (b_edgeLbs b) i of
     None \<Rightarrow> True
   | Some lb \<Rightarrow> el_backends lb \<noteq> [] \<and> (\<forall>bk. mget (el_backends lb) bk \<noteq> None \<longrightarrow> replayed b i bk))"

lemma detach_up:
  assumes "lb_deletes_up dp up" and "up d" and "mget (b_edgeLbs b) i = Some lb"
  shows "\<exists>d'. up d' \<and> detach_backend dp i bk (b, d)
    = (True, (b\<lparr>b_edgeLbs := mput i (lb\<lparr>el_backends := mdel bk (el_backends lb)\<rparr>) (b_edgeLbs b)\<rparr>, d'))"
proof -
  obtain e d' where c: "dp_DelLbBackend dp i (fst bk) (snd bk) d = (e, d')" by fastforce
  have "e = None" "up d'" using assms(1,2) unfolding lb_deletes_up_def by (metis c fst_conv, metis c snd_conv)
  then show ?thesis by (simp add: detach_backend_def c assms(3))
qed

lemma prune_backends_up:
  assumes "lb_deletes_up dp up"
  shows "up d \<Longrightarrow> mget (b_edgeLbs b) i = Some lb \<Longrightarrow>
    \<exists>b' d' lb'. fold (prune_backend dp i) bks (b, d) = (b', d') \<and> up d' \<and> b_seenPublic b' = b_seenPublic b
      \<and> mget (b_edgeLbs b') i = Some lb' \<and> (\<forall>j. j \<noteq> i \<longrightarrow> mget (b_edgeLbs b') j = mget (b_edgeLbs b) j)
      \<and> (\<forall>bk. mget (el_backends lb') bk = (if bk \<in> set bks \<and> \<not> replayed b i bk then None else mget (el_backends lb) bk))"
proof (induction bks arbitrary: b d lb)
  case (Cons bk bks)
  show ?case
  proof (cases "replayed b i bk")
    case True
    then have "prune_backend dp i bk (b, d) = (b, d)" by (simp add: prune_backend_def replayed_def)
    with Cons.IH [OF Cons.prems] True show ?thesis by auto
  next
    case False
    let ?lb = "lb\<lparr>el_backends := mdel bk (el_backends lb)\<rparr>"
    let ?b = "b\<lparr>b_edgeLbs := mput i ?lb (b_edgeLbs b)\<rparr>"
    obtain d' where d': "up d'" "detach_backend dp i bk (b, d) = (True, (?b, d'))"
      using detach_up [OF assms Cons.prems] by blast
    have step: "prune_backend dp i bk (b, d) = (?b, d')"
      using False by (simp add: prune_backend_def replayed_def d')
    have "replayed ?b = replayed b" by (simp add: replayed_def fun_eq_iff)
    with Cons.IH [OF d'(1), of ?b ?lb] False show ?thesis by (force simp: step)
  qed
qed auto

lemma prune_lb_up:
  assumes "lb_deletes_up dp up" and "up d" and "mget (b_edgeLbs b) i = Some lb"
  shows "\<exists>b' d'. prune_lb dp (i, lb) (b, d) = (b', d') \<and> up d' \<and> b_seenPublic b' = b_seenPublic b
    \<and> (\<forall>j. j \<noteq> i \<longrightarrow> mget (b_edgeLbs b') j = mget (b_edgeLbs b) j) \<and> of_snapshot b' i"
proof -
  obtain b1 d1 lb1 where run: "fold (prune_backend dp i) (mkeys (el_backends lb)) (b, d) = (b1, d1)"
    and b1: "up d1" "b_seenPublic b1 = b_seenPublic b" "mget (b_edgeLbs b1) i = Some lb1"
      "\<forall>j. j \<noteq> i \<longrightarrow> mget (b_edgeLbs b1) j = mget (b_edgeLbs b) j"
      "\<forall>bk. mget (el_backends lb1) bk = (if bk \<in> set (mkeys (el_backends lb)) \<and> \<not> replayed b i bk then None else mget (el_backends lb) bk)"
    using prune_backends_up [OF assms, of "mkeys (el_backends lb)"] by blast
  obtain e d2 where c: "dp_DelLoadBalancer dp i d1 = (e, d2)" by fastforce
  have up: "e = None" "up d2" using assms(1) b1(1) unfolding lb_deletes_up_def by (metis c fst_conv, metis c snd_conv)
  have kept: "replayed b1 i bk" if "mget (el_backends lb1) bk \<noteq> None" for bk
    using b1(2,5) that by (auto simp: replayed_def mkeys_iff split: if_splits)
  show ?thesis
  proof (cases "el_backends lb1 = []")
    case True
    then show ?thesis using b1 up by (simp add: prune_lb_def run drop_empty_lb_def c of_snapshot_def)
  next
    case False
    then show ?thesis using b1 kept by (simp add: prune_lb_def run drop_empty_lb_def of_snapshot_def)
  qed
qed

lemma prune_lbs_up:
  assumes "lb_deletes_up dp up"
  shows "up d \<Longrightarrow> distinct (map fst es) \<Longrightarrow> (\<And>i lb. (i, lb) \<in> set es \<Longrightarrow> mget (b_edgeLbs b) i = Some lb) \<Longrightarrow>
    (\<And>i. i \<notin> fst ` set es \<Longrightarrow> of_snapshot b i) \<Longrightarrow> of_snapshot (fst (fold (prune_lb dp) es (b, d))) i"
proof (induction es arbitrary: b d)
  case (Cons e es)
  obtain j lb where e: "e = (j, lb)" by fastforce
  have "mget (b_edgeLbs b) j = Some lb" using Cons.prems(3) [of j lb] by (simp add: e)
  from prune_lb_up [OF assms Cons.prems(1) this] obtain b' d' where
    step: "prune_lb dp (j, lb) (b, d) = (b', d')" and b': "up d'" "b_seenPublic b' = b_seenPublic b"
      "\<And>k. k \<noteq> j \<Longrightarrow> mget (b_edgeLbs b') k = mget (b_edgeLbs b) k" "of_snapshot b' j" by blast
  have fresh: "k \<noteq> j" if "k \<in> fst ` set es" for k using Cons.prems(2) that by (force simp: e)
  have same: "of_snapshot b' k = of_snapshot b k" if "k \<noteq> j" for k
    using b'(2,3) that by (simp add: of_snapshot_def replayed_def [abs_def] cong: option.case_cong)
  have "of_snapshot (fst (fold (prune_lb dp) es (b', d'))) i"
  proof (rule Cons.IH [OF b'(1)])
    show "distinct (map fst es)" using Cons.prems(2) by simp
    show "mget (b_edgeLbs b') k = Some l" if "(k, l) \<in> set es" for k l
      using that b'(3) [of k] fresh [of k] Cons.prems(3) [of k l] by force
    show "of_snapshot b' k" if "k \<notin> fst ` set es" for k
      using that b'(4) same [of k] Cons.prems(4) [of k] by (cases "k = j") (simp_all add: e)
  qed
  then show ?case by (simp add: e step)
qed simp

lemma pruneLbBackends_snapshot:
  assumes "lb_deletes_up dp up" and "up d" and "mwf (b_edgeLbs b)"
  shows "of_snapshot (fst (pruneLbBackends dp (b, d))) i"
  unfolding pruneLbBackends_def fst_conv
proof (rule prune_lbs_up [OF assms(1,2)])
  show "distinct (map fst (b_edgeLbs b))" using assms(3) by (simp add: mwf_def)
  show "mget (b_edgeLbs b) j = Some lb" if "(j, lb) \<in> set (b_edgeLbs b)" for j lb
    using that assms(3) by (simp add: mget_iff)
  show "of_snapshot b j" if "j \<notin> fst ` set (b_edgeLbs b)" for j
    using that mkeys_iff [of j "b_edgeLbs b"] by (simp add: of_snapshot_def mkeys_def)
qed

lemma pruneLbBackends_seen: "b_seenPublic (fst (pruneLbBackends dp s)) = b_seenPublic (fst s)"
proof -
  have fold: "b_seenPublic (fst (fold f xs s)) = b_seenPublic (fst s)"
    if "\<And>x s. b_seenPublic (fst (f x s)) = b_seenPublic (fst s)" for f :: "'x \<Rightarrow> 'a agent \<Rightarrow> 'a agent" and xs s
    using that by (induction xs arbitrary: s) simp_all
  have detach: "b_seenPublic (fst (prune_backend dp i bk s)) = b_seenPublic (fst s)" for i bk s
    by (simp add: prune_backend_def detach_backend_def split_def split: option.split)
  have drop: "b_seenPublic (fst (drop_empty_lb dp i s)) = b_seenPublic (fst s)" for i s
    by (simp add: drop_empty_lb_def split_def split: option.split)
  show ?thesis
    unfolding pruneLbBackends_def by (rule fold) (simp add: prune_lb_def split_def drop fold [OF detach])
qed

section \<open>Properties\<close>



section \<open>A concrete edge\<close>

text \<open>
  An edge learns two backends of one load balancer, loses its session, and in the next one is told of
  only one of them before the snapshot ends.
\<close>

definition demo_backend :: "string \<Rightarrow> string \<Rightarrow> PublicRecord" where
  "demo_backend owner overlay = \<lparr>pr_Kind = PUBLIC_KIND_LB_IP, pr_Prefix = ''203.0.113.9/32'', pr_OwnerUnderlay = owner, pr_Vni = 100,
     pr_PortMin = 0, pr_PortMax = 0, pr_OverlayIP = overlay, pr_Ports = [\<lparr>lp_Port = 443, lp_Proto = 6\<rparr>]\<rparr>"

definition edge_events :: "store agent_event list" where
  "edge_events = [Open 0 None open_stream,
     Message (PublicUpdate (demo_backend ''fd00::1'' ''10.0.0.5'') ROUTE_OP_ADD),
     Message (PublicUpdate (demo_backend ''fd00::2'' ''10.0.0.6'') ROUTE_OP_ADD),
     Open 1 None open_stream,
     Message (PublicUpdate (demo_backend ''fd00::2'' ''10.0.0.6'') ROUTE_OP_ADD)]"

definition edge_agent :: "store session_state" where
  "edge_agent = agent_run store_dp edge_events (new_agent ''edge-a'' ''fd00::e'' True 0 empty_store)"

lemma edge_env: "list_all (adopts so_lbs) edge_events"
  by (simp add: edge_events_def)

lemma edge_recorded:
  "mget (b_edgeLbs (se_bus edge_agent)) ''203.0.113.9'' = Some \<lparr>el_ports = [\<lparr>lp_Port = 443, lp_Proto = 6\<rparr>],
     el_backends = [((''fd00::1'', ''10.0.0.5''), 100), ((''fd00::2'', ''10.0.0.6''), 100)]\<rparr>"
  by code_simp


lemma edge_pruned:
  "\<not> so_down (se_dp edge_agent) \<and> b_globalRecords (se_bus edge_agent) = 1 \<and>
   mget (b_edgeLbs (fst (handleServerMsg store_dp (EndOfGlobal 1) (se_bus edge_agent, se_dp edge_agent)))) ''203.0.113.9'' =
     Some \<lparr>el_ports = [\<lparr>lp_Port = 443, lp_Proto = 6\<rparr>], el_backends = [((''fd00::2'', ''10.0.0.6''), 100)]\<rparr>"
  by code_simp


end
