(* ===== verification/Packet.thy ===== *)
theory Packet
  imports Prelude
begin

text \<open>
  Packets and the header reads of \<^verbatim>\<open>flowplane-core/src/parse.rs\<close>. A packet is its bytes; a read outside
  it is \<^const>\<open>None\<close>, as in the \<^verbatim>\<open>Pkt\<close> trait (\<^verbatim>\<open>flowplane-core/src/pkt.rs\<close>). Offsets are small, so
  sums of them do not wrap.
\<close>

unbundle bit_operations_syntax

type_synonym byte = "8 word"
type_synonym u16 = "16 word"
type_synonym Pkt = "byte list"

section \<open>Reads\<close>

definition read_array :: "nat \<Rightarrow> Pkt \<Rightarrow> nat \<Rightarrow> byte list option" where
  "read_array n pkt off = (if off + n > length pkt then None else Some (take n (drop off pkt)))"

definition from_be_bytes :: "byte \<Rightarrow> byte \<Rightarrow> u16" where
  "from_be_bytes a b = push_bit 8 (ucast a) OR ucast b"

definition to_be_bytes :: "u16 \<Rightarrow> byte list" where
  "to_be_bytes v = [ucast (drop_bit 8 v), ucast v]"

definition read_u16_be :: "Pkt \<Rightarrow> nat \<Rightarrow> u16 option" where
  "read_u16_be pkt off = map_option (\<lambda>b. from_be_bytes (b ! 0) (b ! 1)) (read_array 2 pkt off)"

definition read_u8 :: "Pkt \<Rightarrow> nat \<Rightarrow> byte option" where
  "read_u8 pkt off = map_option (\<lambda>b. b ! 0) (read_array 1 pkt off)"

definition IPPROTO_ICMP :: byte where "IPPROTO_ICMP = 1"
definition IPPROTO_TCP :: byte where "IPPROTO_TCP = 6"
definition IPPROTO_UDP :: byte where "IPPROTO_UDP = 17"
definition IPPROTO_ICMPV6 :: byte where "IPPROTO_ICMPV6 = 58"

section \<open>Transport headers\<close>

text \<open>Protocol and ports of an IPv4 packet; \<^const>\<open>None\<close> past the end, for another protocol and for a later fragment.\<close>

definition l4_ports :: "Pkt \<Rightarrow> nat \<Rightarrow> (byte \<times> u16 \<times> u16) option" where
  "l4_ports pkt ip_off = (case read_array 20 pkt ip_off of
     None \<Rightarrow> None
   | Some hdr \<Rightarrow>
       if from_be_bytes (hdr ! 6 AND 0x1f) (hdr ! 7) \<noteq> 0 then None
       else let ihl = unat (hdr ! 0 AND 0x0f) * 4;
                proto = hdr ! 9;
                l4 = ip_off + ihl
            in if proto = IPPROTO_TCP \<or> proto = IPPROTO_UDP then
                 (case read_u16_be pkt l4 of
                    None \<Rightarrow> None
                  | Some sp \<Rightarrow> (case read_u16_be pkt (l4 + 2) of None \<Rightarrow> None | Some dp \<Rightarrow> Some (proto, sp, dp)))
               else if proto = IPPROTO_ICMP then
                 (case read_u16_be pkt (l4 + 4) of None \<Rightarrow> None | Some i \<Rightarrow> Some (proto, i, i))
               else None)"

definition l4_ports_v6 :: "Pkt \<Rightarrow> nat \<Rightarrow> (byte \<times> u16 \<times> u16) option" where
  "l4_ports_v6 pkt ip_off = (case read_u8 pkt (ip_off + 6) of
     None \<Rightarrow> None
   | Some nexthdr \<Rightarrow>
       let l4 = ip_off + 40
       in if nexthdr = IPPROTO_TCP \<or> nexthdr = IPPROTO_UDP then
            (case read_u16_be pkt l4 of
               None \<Rightarrow> None
             | Some sp \<Rightarrow> (case read_u16_be pkt (l4 + 2) of None \<Rightarrow> None | Some dp \<Rightarrow> Some (nexthdr, sp, dp)))
          else if nexthdr = 58 then
            (case read_u16_be pkt (l4 + 4) of None \<Rightarrow> None | Some i \<Rightarrow> Some (nexthdr, i, i))
          else None)"

text \<open>Type and code of an ICMP packet without options; zero when they cannot be read.\<close>

definition icmp_type_code :: "Pkt \<Rightarrow> nat \<Rightarrow> u16 \<times> u16" where
  "icmp_type_code pkt ip_off = (case read_array 20 pkt ip_off of
     None \<Rightarrow> (0, 0)
   | Some hdr \<Rightarrow>
       if hdr ! 0 AND 0x0f \<noteq> 5 \<or> hdr ! 9 \<noteq> IPPROTO_ICMP then (0, 0)
       else (case read_array 2 pkt (ip_off + 20) of
               None \<Rightarrow> (0, 0)
             | Some b \<Rightarrow> (ucast (b ! 0), ucast (b ! 1))))"

text \<open>The IPv6 form; what cannot be read is \<open>0xffff\<close>.\<close>

definition icmp_type_code_v6 :: "Pkt \<Rightarrow> nat \<Rightarrow> u16 \<times> u16" where
  "icmp_type_code_v6 pkt ip_off =
     (if read_u8 pkt (ip_off + 6) \<noteq> Some 58 then (0xffff, 0xffff)
      else let l4 = ip_off + 40;
               t = (case read_u8 pkt l4 of Some b \<Rightarrow> ucast b | None \<Rightarrow> 0xffff);
               c = (case read_u8 pkt (l4 + 1) of Some b \<Rightarrow> ucast b | None \<Rightarrow> 0xffff)
           in (t, c))"

section \<open>Bits of a byte string\<close>

text \<open>A byte string as its bits, most significant first, which is what prefix tries compare.\<close>

definition byte_bits :: "byte \<Rightarrow> bool list" where
  "byte_bits b = map (bit b) [7, 6, 5, 4, 3, 2, 1, 0]"

definition bits_of :: "byte list \<Rightarrow> bool list" where
  "bits_of bs = concat (map byte_bits bs)"

lemma length_byte_bits [simp]: "length (byte_bits b) = 8"
  by (simp add: byte_bits_def)

lemma length_bits_of [simp]: "length (bits_of bs) = 8 * length bs"
  by (induction bs) (simp_all add: bits_of_def)

lemma bits_of_Nil [simp]: "bits_of [] = []"
  by (simp add: bits_of_def)

lemma bits_of_Cons [simp]: "bits_of (b # bs) = byte_bits b @ bits_of bs"
  by (simp add: bits_of_def)

lemma bits_of_append [simp]: "bits_of (as @ bs) = bits_of as @ bits_of bs"
  by (simp add: bits_of_def)

text \<open>A mask of leading ones selects the leading bits.\<close>

definition mask_byte :: "nat \<Rightarrow> byte" where
  "mask_byte bits = (if bits = 0 then 0 else push_bit (8 - bits) 0xff)"

lemma bit_mask_byte: "k \<le> 8 \<Longrightarrow> bit (mask_byte k) i \<longleftrightarrow> i < 8 \<and> 8 - k \<le> i"
proof -
  assume k: "k \<le> 8"
  have "(0xff :: byte) = mask 8" by (simp add: mask_eq_exp_minus_1)
  then have ff: "bit (0xff :: byte) n \<longleftrightarrow> n < 8" for n by (simp only: bit_mask_iff) auto
  show ?thesis using k ff [of "i - (8 - k)"] by (auto simp: mask_byte_def bit_push_bit_iff)
qed

lemma take_byte_bits_eq: "take k (byte_bits a) = take k (byte_bits b) \<longleftrightarrow> (\<forall>i < 8. 8 - k \<le> i \<longrightarrow> bit a i = bit b i)" if "k \<le> 8"
proof -
  have nth: "byte_bits x ! j = bit x (7 - j)" if "j < 8" for x j
  proof -
    have "[7, 6, 5, 4, 3, 2, 1, 0 :: nat] ! j = 7 - j" using that by (auto simp: less_Suc_eq numeral_eq_Suc)
    moreover have "byte_bits x ! j = bit x ([7, 6, 5, 4, 3, 2, 1, 0 :: nat] ! j)"
      unfolding byte_bits_def by (rule nth_map) (use that in simp)
    ultimately show ?thesis by simp
  qed
  have "take k (byte_bits a) = take k (byte_bits b) \<longleftrightarrow> (\<forall>j < k. bit a (7 - j) = bit b (7 - j))"
    using that by (simp add: list_eq_iff_nth_eq nth)
  also have "\<dots> \<longleftrightarrow> (\<forall>i < 8. 8 - k \<le> i \<longrightarrow> bit a i = bit b i)"
  proof safe
    fix i assume "\<forall>j < k. bit a (7 - j) = bit b (7 - j)" "i < 8" "8 - k \<le> i"
    then show "bit a i \<Longrightarrow> bit b i" "bit b i \<Longrightarrow> bit a i" by (auto dest!: spec [of _ "7 - i"])
  next
    fix j assume "\<forall>i < 8. 8 - k \<le> i \<longrightarrow> bit a i = bit b i" "j < k"
    then show "bit a (7 - j) \<Longrightarrow> bit b (7 - j)" "bit b (7 - j) \<Longrightarrow> bit a (7 - j)"
      using that by (auto dest!: spec [of _ "7 - j"])
  qed
  finally show ?thesis .
qed

lemma mask_byte_eq:
  assumes "k \<le> 8"
  shows "a AND mask_byte k = b AND mask_byte k \<longleftrightarrow> take k (byte_bits a) = take k (byte_bits b)"
proof -
  have "a AND mask_byte k = b AND mask_byte k \<longleftrightarrow> (\<forall>i. bit (a AND mask_byte k) i = bit (b AND mask_byte k) i)"
    by (auto intro: bit_word_eqI)
  also have "\<dots> \<longleftrightarrow> (\<forall>i < 8. 8 - k \<le> i \<longrightarrow> bit a i = bit b i)"
    by (auto simp: bit_and_iff bit_mask_byte [OF assms])
  finally show ?thesis by (simp add: take_byte_bits_eq [OF assms])
qed

lemma byte_bits_inj: "byte_bits a = byte_bits b \<longleftrightarrow> a = b"
proof
  assume "byte_bits a = byte_bits b"
  then have "\<forall>i < 8. bit a i = bit b i" using take_byte_bits_eq [of 8 a b] by simp
  then show "a = b" by (intro bit_word_eqI) auto
qed simp

lemma bits_of_inj: "length a = length b \<Longrightarrow> bits_of a = bits_of b \<longleftrightarrow> a = b"
  by (induction a b rule: list_induct2) (auto simp: byte_bits_inj)

end
