(* ===== verification/Fw_Ports.thy ===== *)
theory Fw_Ports
  imports Packet
begin

text \<open>
  The port-range decomposition of \<^verbatim>\<open>flowplane-control/src/ports.rs\<close>: an inclusive range of 16-bit ports
  as aligned prefixes, for tries that match a big-endian port by its leading bits. The loop variables
  are the code's \<^verbatim>\<open>u32\<close> values; they stay below \<open>2 ^ 18\<close>, so natural numbers do not wrap either.
\<close>

unbundle bit_operations_syntax


section \<open>The decomposition\<close>

text \<open>\<^verbatim>\<open>lo & lo.wrapping_neg()\<close>: the lowest set bit.\<close>

fun lowbit :: "nat \<Rightarrow> nat" where
  "lowbit n = (if n = 0 then 0 else if odd n then 1 else 2 * lowbit (n div 2))"

fun trailing_zeros :: "nat \<Rightarrow> nat" where
  "trailing_zeros n = (if n = 0 then 32 else if odd n then 0 else trailing_zeros (n div 2) + 1)"

declare lowbit.simps [simp del] trailing_zeros.simps [simp del]

text \<open>The inner loop: halve the block until it ends within \<open>hi\<close>. It never reaches 0 when \<open>lo \<le> hi\<close>.\<close>

fun fit :: "nat \<Rightarrow> nat \<Rightarrow> nat \<Rightarrow> nat" where
  "fit lo hi sz = (if sz \<noteq> 0 \<and> lo + sz - 1 > hi then fit lo hi (sz div 2) else sz)"

declare fit.simps [simp del]

definition block_size :: "nat \<Rightarrow> nat \<Rightarrow> nat" where
  "block_size lo hi = fit lo hi (if lo = 0 then 2 ^ 16 else lowbit lo)"

lemma lowbit_pos: "0 < n \<Longrightarrow> 0 < lowbit n"
  by (induction n rule: lowbit.induct) (subst lowbit.simps, auto)

lemma fit_pos: "0 < sz \<Longrightarrow> lo \<le> hi \<Longrightarrow> 0 < fit lo hi sz"
proof (induction lo hi sz rule: fit.induct)
  case (1 lo hi sz)
  have "0 < sz div 2" if "hi < lo + sz - 1"
    using that "1.prems" by (cases "sz = 1") auto
  with 1 show ?case by (subst fit.simps) auto
qed

lemma block_size_pos: "lo \<le> hi \<Longrightarrow> 0 < block_size lo hi"
  by (simp add: block_size_def fit_pos lowbit_pos)

function prefix_loop :: "nat \<Rightarrow> nat \<Rightarrow> (u16 \<times> nat) list" where
  "prefix_loop lo hi =
     (if lo \<le> hi
      then let sz = block_size lo hi
           in (of_nat lo, 16 - trailing_zeros sz) # prefix_loop (lo + sz) hi
      else [])"
  by auto
termination
  by (relation "measure (\<lambda>(lo, hi). hi + 1 - lo)") (use block_size_pos in \<open>auto simp: diff_less_mono2\<close>)

declare prefix_loop.simps [simp del]

definition port_prefixes :: "u16 \<Rightarrow> u16 \<Rightarrow> (u16 \<times> nat) list" where
  "port_prefixes lo hi = prefix_loop (unat lo) (unat hi)"

function count_loop :: "nat \<Rightarrow> nat \<Rightarrow> nat \<Rightarrow> nat" where
  "count_loop lo hi n = (if lo \<le> hi then count_loop (lo + block_size lo hi) hi (n + 1) else n)"
  by auto
termination
  by (relation "measure (\<lambda>(lo, hi, n). hi + 1 - lo)") (use block_size_pos in \<open>auto simp: diff_less_mono2\<close>)

declare count_loop.simps [simp del]

definition port_prefix_count :: "u16 \<Rightarrow> u16 \<Rightarrow> nat" where
  "port_prefix_count lo hi = count_loop (unat lo) (unat hi) 0"

text \<open>A port under a prefix: the leading bits agree.\<close>

definition port_under :: "u16 \<times> nat \<Rightarrow> u16 \<Rightarrow> bool" where
  "port_under e p \<longleftrightarrow> drop_bit (16 - snd e) p = drop_bit (16 - snd e) (fst e)"

section \<open>Aligned blocks\<close>

text \<open>The lowest bit of the code, on the machine word.\<close>

lemma lowbit_power: "0 < n \<Longrightarrow> \<exists>k. lowbit n = 2 ^ k \<and> 2 ^ k dvd n \<and> \<not> 2 ^ Suc k dvd n"
proof (induction n rule: lowbit.induct)
  case (1 n)
  show ?case
  proof (cases "odd n")
    case True
    then show ?thesis by (intro exI [of _ 0]) (simp add: lowbit.simps [of n] odd_pos)
  next
    case False
    then obtain m where n: "n = 2 * m" by blast
    with 1 False obtain k where "lowbit m = 2 ^ k" "2 ^ k dvd m" "\<not> 2 ^ Suc k dvd m" by auto
    then show ?thesis using "1.prems" by (intro exI [of _ "Suc k"]) (simp add: n lowbit.simps [of "2 * m"])
  qed
qed

lemma lowbit_le: "lowbit n \<le> n"
  using lowbit_power [of n] by (cases "n = 0") (auto simp: lowbit.simps [of 0] dvd_imp_le)

lemma trailing_zeros_power: "trailing_zeros (2 ^ k) = k"
  by (induction k) (subst trailing_zeros.simps, simp)+

lemma fit_power:
  assumes "lo \<le> hi"
  shows "\<exists>j \<le> k. fit lo hi (2 ^ k) = 2 ^ j \<and> lo + 2 ^ j - 1 \<le> hi \<and> (j < k \<longrightarrow> hi < lo + 2 ^ Suc j - 1)"
proof (induction k)
  case 0
  then show ?case using assms by (simp add: fit.simps)
next
  case (Suc k)
  show ?case
  proof (cases "hi < lo + 2 ^ Suc k - 1")
    case True
    then have eq: "fit lo hi (2 ^ Suc k) = fit lo hi (2 ^ k)" by (subst fit.simps) simp
    from Suc obtain j where "j \<le> k" "fit lo hi (2 ^ k) = 2 ^ j" "lo + 2 ^ j - 1 \<le> hi" "j < k \<longrightarrow> hi < lo + 2 ^ Suc j - 1" by blast
    with True show ?thesis unfolding eq by (intro exI [of _ j]) (auto simp: le_less)
  next
    case False
    then show ?thesis by (intro exI [of _ "Suc k"]) (subst fit.simps, auto)
  qed
qed

text \<open>A block is a power of two that divides its start and ends within the range.\<close>

lemma block_size_power:
  assumes "lo \<le> hi"
  shows "\<exists>j. block_size lo hi = 2 ^ j \<and> 2 ^ j dvd lo \<and> lo + 2 ^ j - 1 \<le> hi
    \<and> (hi < lo + 2 ^ Suc j - 1 \<or> (if lo = 0 then j = 16 else lowbit lo = 2 ^ j))"
proof (cases "lo = 0")
  case True
  then show ?thesis using fit_power [OF assms, of 16] by (auto simp: block_size_def le_less)
next
  case False
  then obtain k where k: "lowbit lo = 2 ^ k" "2 ^ k dvd lo" using lowbit_power by blast
  from fit_power [OF assms, of k] obtain j where
    j: "j \<le> k" "fit lo hi (2 ^ k) = 2 ^ j" "lo + 2 ^ j - 1 \<le> hi" "j < k \<longrightarrow> hi < lo + 2 ^ Suc j - 1" by blast
  have "2 ^ j dvd lo" using j(1) k(2) by (meson dvd_trans le_imp_power_dvd)
  with j k False show ?thesis by (auto simp: block_size_def le_less)
qed

lemma block_size_bound:
  assumes "lo \<le> hi" and "hi < 2 ^ 16"
  shows "\<exists>j \<le> 16. block_size lo hi = 2 ^ j \<and> 2 ^ j dvd lo \<and> lo + 2 ^ j - 1 \<le> hi"
proof -
  from block_size_power [OF assms(1)] obtain j where j: "block_size lo hi = 2 ^ j" "2 ^ j dvd lo" "lo + 2 ^ j - 1 \<le> hi" by blast
  have "(2 :: nat) ^ j \<le> 2 ^ 16" using j(3) assms(2) by linarith
  then have "j \<le> 16" by (subst (asm) power_increasing_iff) simp_all
  with j show ?thesis by blast
qed

section \<open>The range is covered exactly\<close>

lemma unat_drop_bit: "unat (drop_bit n (w :: u16)) = unat w div 2 ^ n"
  unfolding unat_drop_bit_eq by (rule drop_bit_eq_div)

lemma port_under_block:
  assumes "lo < 2 ^ 16" and "j \<le> 16" and "2 ^ j dvd lo"
  shows "port_under (of_nat lo, 16 - j) p \<longleftrightarrow> lo \<le> unat p \<and> unat p \<le> lo + 2 ^ j - 1"
proof -
  obtain q where q: "lo = q * 2 ^ j" using assms(3) by (metis dvd_div_mult_self)
  have lo: "unat (of_nat lo :: u16) = lo" using assms(1) by (simp add: unat_of_nat take_bit_nat_eq_self)
  have "port_under (of_nat lo, 16 - j) p \<longleftrightarrow> unat p div 2 ^ j = lo div 2 ^ j"
    using assms(2) by (simp add: port_under_def word_unat_eq_iff unat_drop_bit lo)
  also have "\<dots> \<longleftrightarrow> lo \<le> unat p \<and> unat p \<le> lo + 2 ^ j - 1"
  proof -
    have "(0 :: nat) < 2 ^ j" by simp
    then have "unat p div 2 ^ j = q \<longleftrightarrow> q * 2 ^ j \<le> unat p \<and> unat p < Suc q * 2 ^ j"
      by (metis div_nat_eqI dividend_less_times_div mult.commute mult_Suc times_div_less_eq_dividend add.commute)
    moreover have "unat p < Suc q * 2 ^ j \<longleftrightarrow> unat p \<le> q * 2 ^ j + 2 ^ j - 1"
    proof -
      have "0 < a \<Longrightarrow> x < a + b \<longleftrightarrow> x \<le> b + a - 1" for a b x :: nat by arith
      then show ?thesis using \<open>0 < 2 ^ j\<close> by (simp only: mult_Suc)
    qed
    ultimately show ?thesis by (simp add: q)
  qed
  finally show ?thesis .
qed

lemma prefix_loop_covers:
  "hi < 2 ^ 16 \<Longrightarrow> list_ex (\<lambda>e. port_under e p) (prefix_loop lo hi) \<longleftrightarrow> lo \<le> unat p \<and> unat p \<le> hi"
proof (induction lo hi rule: prefix_loop.induct)
  case (1 lo hi)
  show ?case
  proof (cases "lo \<le> hi")
    case True
    from block_size_bound [OF True "1.prems"] obtain j where
      j: "j \<le> 16" "block_size lo hi = 2 ^ j" "2 ^ j dvd lo" "lo + 2 ^ j - 1 \<le> hi" by blast
    have "lo < 2 ^ 16" using True "1.prems" by simp
    note under = port_under_block [OF this j(1,3), of p]
    have "prefix_loop lo hi = (of_nat lo, 16 - j) # prefix_loop (lo + 2 ^ j) hi"
      using True by (simp add: prefix_loop.simps [of lo hi] j(2) trailing_zeros_power)
    moreover have "(0 :: nat) < 2 ^ j" by simp
    ultimately show ?thesis
      using "1.IH" [OF True refl "1.prems"] j(2,4) under by (simp only: list_ex_iff) auto
  qed (auto simp: prefix_loop.simps [of lo hi])
qed

section \<open>At most thirty pairs\<close>

text \<open>Once a block is cut by the end of the range, the following blocks get smaller and smaller.\<close>

lemma prefix_loop_step:
  assumes "lo \<le> hi" and "block_size lo hi = 2 ^ j"
  shows "length (prefix_loop lo hi) = Suc (length (prefix_loop (lo + 2 ^ j) hi))"
  using assms by (simp add: prefix_loop.simps [of lo hi] Let_def)

lemma lowbit_dvd: "0 < n \<Longrightarrow> lowbit n = 2 ^ j \<Longrightarrow> 2 ^ e dvd n \<Longrightarrow> e \<le> j"
proof -
  assume n: "0 < n" "lowbit n = 2 ^ j" "2 ^ e dvd n"
  then obtain k where k: "lowbit n = 2 ^ k" "\<not> 2 ^ Suc k dvd n" using lowbit_power by blast
  then have "k = j" using n(2) by simp
  show "e \<le> j"
  proof (rule ccontr)
    assume "\<not> e \<le> j"
    then have "(2 :: nat) ^ Suc k dvd 2 ^ e" using \<open>k = j\<close> by (intro le_imp_power_dvd) simp
    with n(3) k(2) show False by (meson dvd_trans)
  qed
qed

lemma shrinking_blocks:
  "2 ^ e dvd lo \<Longrightarrow> hi + 1 < lo + 2 ^ e \<Longrightarrow> hi < 2 ^ 16 \<Longrightarrow> length (prefix_loop lo hi) \<le> e"
proof (induction e arbitrary: lo rule: less_induct)
  case (less e)
  show ?case
  proof (cases "lo \<le> hi")
    case True
    from block_size_power [OF True] obtain j where
      j: "block_size lo hi = 2 ^ j" "2 ^ j dvd lo" "lo + 2 ^ j - 1 \<le> hi"
        "hi < lo + 2 ^ Suc j - 1 \<or> (if lo = 0 then j = 16 else lowbit lo = 2 ^ j)" by blast
    have "(2 :: nat) ^ j < 2 ^ e" using j(3) less.prems(2) by linarith
    then have je: "j < e" by (simp add: power_strict_increasing_iff)
    note step = prefix_loop_step [OF True j(1)]
    show ?thesis
    proof (cases "hi < lo + 2 ^ Suc j - 1")
      case True
      have "length (prefix_loop (lo + 2 ^ j) hi) \<le> j"
        by (rule less.IH [OF je]) (use True j(2) less.prems(3) in \<open>auto simp: dvd_add\<close>)
      then show ?thesis using step je by simp
    next
      case False
      have "lo = 0" using False j(4) lowbit_dvd [of lo j e] less.prems(1) je by (cases "lo = 0") auto
      then have "hi < lo + 2 ^ j" using False j(4) less.prems(3) by simp
      then have "prefix_loop (lo + 2 ^ j) hi = []" by (simp add: prefix_loop.simps [of "lo + 2 ^ j" hi])
      then show ?thesis using step je by simp
    qed
  qed (simp add: prefix_loop.simps [of lo hi])
qed

text \<open>Before that, the blocks grow with the alignment of their start.\<close>

lemma growing_blocks:
  "2 ^ e dvd lo \<Longrightarrow> 0 < lo \<Longrightarrow> e \<le> 15 \<Longrightarrow> hi < 2 ^ 16 \<Longrightarrow> length (prefix_loop lo hi) \<le> 30 - e"
proof (induction "hi + 1 - lo" arbitrary: lo e rule: less_induct)
  case less
  show ?case
  proof (cases "lo \<le> hi")
    case True
    from block_size_power [OF True] obtain j where
      j: "block_size lo hi = 2 ^ j" "2 ^ j dvd lo" "lo + 2 ^ j - 1 \<le> hi"
        "hi < lo + 2 ^ Suc j - 1 \<or> lowbit lo = 2 ^ j" using less.prems(2) by auto
    from lowbit_power [OF less.prems(2)] obtain k where k: "lowbit lo = 2 ^ k" "2 ^ k dvd lo" "\<not> 2 ^ Suc k dvd lo" by blast
    have "lo < 2 ^ 16" using True less.prems(4) by linarith
    then have "(2 :: nat) ^ k < 2 ^ 16" using k(2) less.prems(2) by (meson dvd_imp_le le_less_trans)
    then have k15: "k \<le> 15" using power_less_imp_less_exp [of "2 :: nat" k 16] by simp
    have ek: "e \<le> k" using lowbit_dvd [OF less.prems(2) k(1) less.prems(1)] .
    note step = prefix_loop_step [OF True j(1)]
    show ?thesis
    proof (cases "hi + 1 < lo + 2 ^ k")
      case True
      from shrinking_blocks [OF k(2) this less.prems(4)] show ?thesis using k15 less.prems(3) by simp
    next
      case False
      have jk: "j = k"
      proof -
        have "j \<le> k" using k(3) j(2) by (meson dvd_trans le_imp_power_dvd not_less_eq_eq)
        moreover have "\<not> j < k"
        proof
          assume "j < k"
          then have "(2 :: nat) ^ Suc j \<le> 2 ^ k" by (intro power_increasing) auto
          moreover have "hi < lo + 2 ^ Suc j - 1" using j(4) k(1) \<open>j < k\<close> by auto
          ultimately show False using False by linarith
        qed
        ultimately show ?thesis by simp
      qed
      let ?lo = "lo + 2 ^ k"
      have div: "2 ^ Suc k dvd ?lo"
      proof -
        obtain q where q: "lo = 2 ^ k * q" using k(2) by blast
        then have "odd q" using k(3) by (auto simp: mult.commute)
        then show ?thesis by (auto simp: q elim!: oddE)
      qed
      show ?thesis
      proof (cases "?lo \<le> hi")
        case le: True
        have "(2 :: nat) ^ Suc k < 2 ^ 16" using div le less.prems(4) by (meson add_pos_nonneg dvd_imp_le le_less_trans less.prems(2) zero_le)
        then have "Suc k \<le> 15" using power_less_imp_less_exp [of "2 :: nat" "Suc k" 16] by simp
        then have "length (prefix_loop ?lo hi) \<le> 30 - Suc k"
          using True div less.prems by (intro less.hyps) (auto intro!: diff_less_mono2)
        then show ?thesis using step jk ek \<open>Suc k \<le> 15\<close> by simp
      next
        case False
        then have "prefix_loop ?lo hi = []" by (simp add: prefix_loop.simps [of ?lo hi])
        then show ?thesis using step jk less.prems(3) by simp
      qed
    qed
  qed (simp add: prefix_loop.simps [of lo hi])
qed

lemma prefix_loop_length:
  assumes "hi < 2 ^ 16"
  shows "length (prefix_loop lo hi) \<le> 30"
proof (cases "lo = 0")
  case True
  have "length (prefix_loop 0 hi) \<le> 17"
    by (rule shrinking_blocks) (use assms in auto)
  then show ?thesis using True by simp
next
  case False
  then show ?thesis using growing_blocks [of 0 lo hi] assms by simp
qed

lemma count_loop_length: "count_loop lo hi n = n + length (prefix_loop lo hi)"
  by (induction lo hi n rule: count_loop.induct)
    (subst count_loop.simps, subst prefix_loop.simps, simp add: Let_def)

section \<open>The word form\<close>

text \<open>The code's expression for the lowest bit is the one of the model.\<close>

lemma and_neg_even: "(2 * w) AND (- (2 * w)) = 2 * (w AND - w)" for w :: int
  by (rule bit_eqI) (auto simp: bit_double_iff bit_and_iff simp flip: mult_minus_right)

lemma and_neg_odd: "(2 * w + 1) AND (- (2 * w + 1)) = 1" for w :: int
proof -
  have "(- (2 * w + 1)) div 2 = NOT w" by (simp add: not_eq_complement)
  then show ?thesis by (subst and_rec) simp
qed

lemma lowbit_int: "int (lowbit n) = int n AND - int n"
proof (induction n rule: lowbit.induct)
  case (1 n)
  show ?case
  proof (cases "odd n")
    case True
    then obtain m where n: "n = 2 * m + 1" by (rule oddE)
    then have "int n = 2 * int m + 1" by simp
    moreover have "lowbit n = 1" using True by (simp add: lowbit.simps [of n] odd_pos)
    ultimately show ?thesis using and_neg_odd [of "int m"] by (simp only: of_nat_1)
  next
    case False
    then obtain m where n: "n = 2 * m" by blast
    show ?thesis
    proof (cases "m = 0")
      case True
      then show ?thesis by (simp add: n lowbit.simps [of 0])
    next
      case False
      then have "int (lowbit m) = int m AND - int m" using 1 n by simp
      then show ?thesis using False and_neg_even [of "int m"] by (simp add: n lowbit.simps [of "2 * m"])
    qed
  qed
qed

section \<open>Properties\<close>

text \<open>
  C33: The prefixes of a port range match exactly the ports of the range, at most thirty of them are
  needed, and the separate count used by the capacity checks is their number. Both loops end on
  every input.
\<close>

theorem port_prefixes_exact:
  "(list_ex (\<lambda>e. port_under e p) (port_prefixes lo hi) \<longleftrightarrow> lo \<le> p \<and> p \<le> hi)
   \<and> length (port_prefixes lo hi) \<le> 30
   \<and> port_prefix_count lo hi = length (port_prefixes lo hi)"
proof -
  have "unat hi < 2 ^ 16" using unsigned_less [of hi, where 'a = nat] by simp
  then show ?thesis
    by (simp add: port_prefixes_def port_prefix_count_def prefix_loop_covers prefix_loop_length count_loop_length
        word_le_nat_alt)
qed

end
