(* ===== verification/Fw_Class.thy ===== *)
theory Fw_Class
  imports Fw_Ports
begin

text \<open>
  The firewall classifier compiler, \<^verbatim>\<open>flowplane-control/src/fwclass.rs\<close>, with the shared types of
  \<^verbatim>\<open>flowplane-common/src/maps/fw.rs\<close> and \<^verbatim>\<open>fwclass.rs\<close>: one direction's ordered rule list becomes a class
  trie and a policy trie per address family. Addresses are byte lists of 4 or 16 bytes.
\<close>

unbundle bit_operations_syntax

section \<open>Rules and keys\<close>

record FwRule =
  fr_src_ip :: "byte list"
  fr_src_mask :: "byte list"
  fr_dst_ip :: "byte list"
  fr_dst_mask :: "byte list"
  fr_src_port_min :: u16
  fr_src_port_max :: u16
  fr_dst_port_min :: u16
  fr_dst_port_max :: u16
  fr_icmp_type :: u16
  fr_icmp_code :: u16
  fr_proto :: byte
  fr_action :: byte
  fr_direction :: byte
  fr_enabled :: byte

definition FW_DIR_INGRESS :: byte where "FW_DIR_INGRESS = 0"
definition FW_DIR_EGRESS :: byte where "FW_DIR_EGRESS = 1"
definition FW_ACTION_DROP :: byte where "FW_ACTION_DROP = 0"
definition FW_ACTION_ACCEPT :: byte where "FW_ACTION_ACCEPT = 1"
definition FW_CLASS_ANY :: u32 where "FW_CLASS_ANY = 0"
definition FW_SCOPE_NONE :: u64 where "FW_SCOPE_NONE = 0"
definition SCOPE_MAX_CLASSES :: nat where "SCOPE_MAX_CLASSES = 4096"
definition SCOPE_MAX_ENTRIES :: nat where "SCOPE_MAX_ENTRIES = 16384"
definition FW_POL_PREFIX_CLASS :: nat where "FW_POL_PREFIX_CLASS = 32"
definition FW_POL_PREFIX_PROTO :: nat where "FW_POL_PREFIX_PROTO = 40"
definition FW_PREC_ALLOW :: byte where "FW_PREC_ALLOW = 1"
definition FW_PREC_DENY :: byte where "FW_PREC_DENY = 255"
definition FW_RANK_MAX :: u32 where "FW_RANK_MAX = 0x00FFFFFF"

definition fw_precedence :: "u32 \<Rightarrow> bool \<Rightarrow> u32" where
  "fw_precedence rank allow =
     (let r = (if rank > FW_RANK_MAX then FW_RANK_MAX else rank);
          verdict = (if allow then FW_PREC_ALLOW else FW_PREC_DENY)
      in push_bit 8 (FW_RANK_MAX - r) OR ucast verdict)"

definition fw_precedence_allows :: "u32 \<Rightarrow> bool" where
  "fw_precedence_allows precedence \<longleftrightarrow> (ucast (precedence AND 0xff) :: byte) = FW_PREC_ALLOW"

record FwPolKey =
  pk_class :: u32
  pk_proto :: byte
  pk_port :: "byte \<times> byte"

definition FwPolKey_new :: "u32 \<Rightarrow> byte \<Rightarrow> byte \<times> byte \<Rightarrow> FwPolKey" where
  "FwPolKey_new cls proto port = \<lparr>pk_class = cls, pk_proto = proto, pk_port = port\<rparr>"

text \<open>A 32-bit value in memory; the dataplane's targets are little-endian.\<close>

definition to_ne_bytes :: "u32 \<Rightarrow> byte list" where
  "to_ne_bytes c = [ucast c, ucast (drop_bit 8 c), ucast (drop_bit 16 c), ucast (drop_bit 24 c)]"

definition pol_key_bytes :: "FwPolKey \<Rightarrow> byte list" where
  "pol_key_bytes k = to_ne_bytes (pk_class k) @ [pk_proto k, fst (pk_port k), snd (pk_port k)]"

section \<open>Reading a rule\<close>

datatype FwError =
    UnknownInterface
  | Unsupported string
  | ScopeTooLarge string string nat
  | MapError string

datatype Selector = SelAny | SelPorts u16 u16 | SelIcmp byte "byte option"

record Parsed =
  pa_peer :: "byte list"
  pa_len :: nat
  pa_proto :: byte
  pa_sel :: Selector
  pa_allow :: bool

definition count_ones :: "byte \<Rightarrow> nat" where
  "count_ones b = length (filter id (byte_bits b))"

definition prefix_len :: "byte list \<Rightarrow> nat option" where
  "prefix_len msk =
     (let ones = sum_list (map count_ones msk);
          canonical = list_all (\<lambda>i. msk ! i = mask_byte (min 8 (ones - 8 * i))) [0..<length msk]
      in if canonical then Some ones else None)"

definition masked :: "byte list \<Rightarrow> nat \<Rightarrow> byte list" where
  "masked addr len = map (\<lambda>i. addr ! i AND mask_byte (min 8 (len - 8 * i))) [0..<length addr]"

definition bits_match :: "byte list \<Rightarrow> byte list \<Rightarrow> nat \<Rightarrow> bool" where
  "bits_match a b len =
     (let full = len div 8 in
      if take full a \<noteq> take full b then False
      else let rem = len mod 8 in rem = 0 \<or> (a ! full XOR b ! full) AND push_bit (8 - rem) 0xff = 0)"

definition parse_selector :: "FwRule \<Rightarrow> byte \<Rightarrow> FwError + Selector option" where
  "parse_selector r icmp_proto =
     (let dports = (fr_dst_port_min r, fr_dst_port_max r);
          icmp = (fr_icmp_type r, fr_icmp_code r);
          p = fr_proto r
      in if (p = 6 \<or> p = 17) \<and> fst dports > snd dports then Inr None
         else if (p = 6 \<or> p = 17) \<and> dports = (0, 65535) then Inr (Some SelAny)
         else if p = 6 \<or> p = 17 then Inr (Some (SelPorts (fst dports) (snd dports)))
         else if p = icmp_proto then
           (if icmp = (0xffff, 0xffff) then Inr (Some SelAny)
            else if fst icmp = 0xffff then Inl (Unsupported ''an ICMP code without a type'')
            else if fst icmp > 255 then Inl (Unsupported ''an ICMP type above 255'')
            else if snd icmp = 0xffff then Inr (Some (SelIcmp (ucast (fst icmp)) None))
            else if snd icmp > 255 then Inl (Unsupported ''an ICMP code above 255'')
            else Inr (Some (SelIcmp (ucast (fst icmp)) (Some (ucast (snd icmp))))))
         else if p = 0 \<and> (dports \<noteq> (0, 65535) \<or> icmp \<noteq> (0xffff, 0xffff)) then
           Inl (Unsupported ''ports or ICMP selectors on an any-protocol rule'')
         else Inr (Some SelAny))"

definition parse :: "FwRule \<Rightarrow> byte \<Rightarrow> byte \<Rightarrow> FwError + Parsed option" where
  "parse r dir icmp_proto =
     (if fr_enabled r = 0 then Inr None
      else let (peer, peer_mask, local_mask) =
                 (if dir = FW_DIR_EGRESS then (fr_dst_ip r, fr_dst_mask r, fr_src_mask r)
                  else (fr_src_ip r, fr_src_mask r, fr_dst_mask r))
           in if list_ex (\<lambda>b. b \<noteq> 0) local_mask then Inl (Unsupported ''a rule matching the interface's own address'')
              else if (fr_src_port_min r, fr_src_port_max r) \<noteq> (0, 65535) then Inl (Unsupported ''a source-port restriction'')
              else (case prefix_len peer_mask of
                      None \<Rightarrow> Inl (Unsupported ''a non-contiguous peer mask'')
                    | Some len \<Rightarrow>
                        (case parse_selector r icmp_proto of
                           Inl e \<Rightarrow> Inl e
                         | Inr None \<Rightarrow> Inr None
                         | Inr (Some sel) \<Rightarrow> Inr (Some \<lparr>pa_peer = masked peer len, pa_len = len, pa_proto = fr_proto r,
                             pa_sel = sel, pa_allow = (fr_action r = FW_ACTION_ACCEPT)\<rparr>))))"

section \<open>The tries\<close>

record Entry =
  en_plen :: nat
  en_key :: FwPolKey
  en_prec :: u32

definition en_bytes :: "Entry \<Rightarrow> byte list" where
  "en_bytes e = pol_key_bytes (en_key e)"

definition en_covers :: "Entry \<Rightarrow> Entry \<Rightarrow> bool" where
  "en_covers x y \<longleftrightarrow> en_plen x \<le> en_plen y \<and> bits_match (en_bytes x) (en_bytes y) (en_plen x)"

definition fw_insert :: "Entry \<Rightarrow> Entry list \<Rightarrow> Entry list" where
  "fw_insert e entries =
     (if list_ex (\<lambda>x. en_prec x > en_prec e \<and> en_covers x e) entries then entries
      else filter (\<lambda>x. \<not> (en_prec e > en_prec x \<and> en_covers e x)) entries @ [e])"

type_synonym class_trie = "(byte list \<times> nat \<times> u32) list"
type_synonym policy_trie = "(nat \<times> FwPolKey \<times> u32) list"

record ScopeTries =
  st_classes :: class_trie
  st_policy :: policy_trie

record Scope =
  sc_id :: u64
  sc_v4 :: ScopeTries
  sc_v6 :: ScopeTries

text \<open>The distinct peer prefixes, shortest first, and their classes from 1.\<close>

definition peer_prefixes :: "Parsed list \<Rightarrow> (byte list \<times> nat) list" where
  "peer_prefixes rules =
     remdups_adj (sort_key (\<lambda>(a, l). (l, a)) (map (\<lambda>r. (pa_peer r, pa_len r)) (filter (\<lambda>r. pa_len r > 0) rules)))"

definition number_classes :: "(byte list \<times> nat) list \<Rightarrow> class_trie" where
  "number_classes peers = map (\<lambda>(i, a, l). (a, l, of_nat i + 1)) (enumerate 0 peers)"

definition rule_targets :: "class_trie \<Rightarrow> Parsed \<Rightarrow> u32 list" where
  "rule_targets classes r =
     (if pa_len r = 0 then [FW_CLASS_ANY]
      else map (\<lambda>(_, _, c). c) (filter (\<lambda>(a, l, _). l \<ge> pa_len r \<and> bits_match a (pa_peer r) (pa_len r)) classes))"

definition rule_suffixes :: "Parsed \<Rightarrow> (nat \<times> byte \<times> byte) list" where
  "rule_suffixes r =
     (if pa_proto r = 0 then [(FW_POL_PREFIX_CLASS, 0, 0)]
      else (case pa_sel r of
              SelAny \<Rightarrow> [(FW_POL_PREFIX_PROTO, 0, 0)]
            | SelPorts lo hi \<Rightarrow> map (\<lambda>(v, bits). (FW_POL_PREFIX_PROTO + bits, (to_be_bytes v ! 0, to_be_bytes v ! 1))) (port_prefixes lo hi)
            | SelIcmp t None \<Rightarrow> [(FW_POL_PREFIX_PROTO + 8, t, 0)]
            | SelIcmp t (Some c) \<Rightarrow> [(FW_POL_PREFIX_PROTO + 16, t, c)]))"

text \<open>One rule's entries go to the bucket of each of its classes.\<close>

definition insert_rule :: "class_trie \<Rightarrow> nat \<times> Parsed \<Rightarrow> (u32, Entry list) gomap \<Rightarrow> (u32, Entry list) gomap" where
  "insert_rule classes rr by_class = (case rr of (rank, r) \<Rightarrow>
     let prec = fw_precedence (of_nat rank) (pa_allow r)
     in fold (\<lambda>cls m.
          mput cls (fold (\<lambda>(plen, port). fw_insert \<lparr>en_plen = plen, en_key = FwPolKey_new cls (pa_proto r) port, en_prec = prec\<rparr>)
                     (rule_suffixes r) (mget0 [] m cls)) m)
          (rule_targets classes r) by_class)"

definition compile_family :: "string \<Rightarrow> Parsed list \<Rightarrow> FwError + ScopeTries" where
  "compile_family family rules =
     (let peers = peer_prefixes rules in
      if length peers > SCOPE_MAX_CLASSES then Inl (ScopeTooLarge family ''peer classes'' (length peers))
      else let classes = number_classes peers;
               by_class = fold (insert_rule classes) (enumerate 0 rules) [];
               policy = sort_key (\<lambda>(plen, k, _). (pk_class k, plen, pk_proto k, pk_port k))
                          (map (\<lambda>e. (en_plen e, en_key e, en_prec e)) (concat (map snd by_class)))
           in if length policy > SCOPE_MAX_ENTRIES then Inl (ScopeTooLarge family ''policy entries'' (length policy))
              else Inr \<lparr>st_classes = classes, st_policy = policy\<rparr>)"

section \<open>The content id\<close>

definition fnv_feed :: "byte list \<Rightarrow> u64 \<Rightarrow> u64" where
  "fnv_feed bytes h = fold (\<lambda>b h. (h XOR ucast b) * 0x100000001b3) bytes h"

definition feed_tries :: "ScopeTries \<Rightarrow> u64 \<Rightarrow> u64" where
  "feed_tries t h =
     fold (\<lambda>(plen, k, prec). fnv_feed (to_ne_bytes (of_nat plen) @ to_ne_bytes (pk_class k)
         @ [pk_proto k, fst (pk_port k), snd (pk_port k)] @ to_ne_bytes prec)) (st_policy t)
       (fnv_feed [0xff]
         (fold (\<lambda>(a, l, c). fnv_feed (a @ [of_nat l] @ to_ne_bytes c)) (st_classes t) h))"

definition scope_id :: "ScopeTries \<Rightarrow> ScopeTries \<Rightarrow> u64" where
  "scope_id v4 v6 =
     (let h = feed_tries v6 (fnv_feed [6] (feed_tries v4 (fnv_feed [4] 0xcbf29ce484222325)))
      in if h = FW_SCOPE_NONE then 1 else h)"

text \<open>The rules of a direction, parsed until the first that is refused.\<close>

fun parse_all :: "byte \<Rightarrow> byte \<Rightarrow> FwRule list \<Rightarrow> FwError + Parsed list" where
  "parse_all dir icmp_proto [] = Inr []"
| "parse_all dir icmp_proto (r # rs) =
     (if fr_direction r \<noteq> dir then parse_all dir icmp_proto rs
      else (case parse r dir icmp_proto of
              Inl e \<Rightarrow> Inl e
            | Inr p \<Rightarrow> (case parse_all dir icmp_proto rs of
                Inl e \<Rightarrow> Inl e
              | Inr ps \<Rightarrow> Inr (case p of None \<Rightarrow> ps | Some x \<Rightarrow> x # ps))))"

definition compile_scope :: "byte \<Rightarrow> FwRule list \<Rightarrow> FwRule list \<Rightarrow> FwError + Scope option" where
  "compile_scope dir v4 v6 =
     (case parse_all dir 1 v4 of
        Inl e \<Rightarrow> Inl e
      | Inr p4 \<Rightarrow> (case parse_all dir 58 v6 of
          Inl e \<Rightarrow> Inl e
        | Inr p6 \<Rightarrow>
            if p4 = [] \<and> p6 = [] then Inr None
            else (case compile_family ''IPv4'' p4 of
                    Inl e \<Rightarrow> Inl e
                  | Inr t4 \<Rightarrow> (case compile_family ''IPv6'' p6 of
                      Inl e \<Rightarrow> Inl e
                    | Inr t6 \<Rightarrow> Inr (Some \<lparr>sc_id = scope_id t4 t6, sc_v4 = t4, sc_v6 = t6\<rparr>)))))"

end
