(* ===== verification/Fw_Eval.thy ===== *)
theory Fw_Eval
  imports Fw_Class
begin

text \<open>
  The datapath's firewall evaluator, \<^verbatim>\<open>flowplane-core/src/firewall.rs\<close>, over the maps it reads, the
  longest-prefix lookups of \<^verbatim>\<open>flowplane-sim/src/maps.rs\<close>, and the first-match reference evaluator the
  classifier is held to, \<^verbatim>\<open>flowplane-sim/src/fw_oracle.rs\<close>.
\<close>

unbundle bit_operations_syntax

section \<open>Lookups\<close>

text \<open>The element with the largest key, the last one of several, as \<^verbatim>\<open>Iterator::max_by_key\<close> picks it.\<close>

fun max_by_key :: "('a \<Rightarrow> nat) \<Rightarrow> 'a list \<Rightarrow> 'a option" where
  "max_by_key f [] = None"
| "max_by_key f (x # xs) = (case max_by_key f xs of None \<Rightarrow> Some x | Some y \<Rightarrow> if f x > f y then Some x else Some y)"

definition prefix_match :: "byte list \<Rightarrow> byte list \<Rightarrow> nat \<Rightarrow> bool" where
  "prefix_match a b len =
     (let full = len div 8 in
      if take full a \<noteq> take full b then False
      else let rem = len mod 8 in
           if rem = 0 then True
           else let m = push_bit (8 - rem) 0xff in (a ! full AND m) = (b ! full AND m))"

definition class_lpm :: "class_trie \<Rightarrow> byte list \<Rightarrow> u32 option" where
  "class_lpm classes addr =
     map_option (\<lambda>(_, _, cls). cls) (max_by_key (\<lambda>(_, len, _). len) (filter (\<lambda>(a, len, _). prefix_match a addr len) classes))"

definition policy_lpm :: "policy_trie \<Rightarrow> FwPolKey \<Rightarrow> u32 option" where
  "policy_lpm entries key =
     map_option (\<lambda>(_, _, prec). prec)
       (max_by_key (\<lambda>(plen, _, _). plen) (filter (\<lambda>(plen, k, _). prefix_match (pol_key_bytes k) (pol_key_bytes key) plen) entries))"

section \<open>The classifier\<close>

record FwBind =
  fb_ingress_scope :: u64
  fb_egress_scope :: u64

definition bind_scope :: "FwBind \<Rightarrow> byte \<Rightarrow> u64" where
  "bind_scope b dir = (if dir = FW_DIR_EGRESS then fb_egress_scope b else fb_ingress_scope b)"

text \<open>The part of the \<^verbatim>\<open>Maps\<close> trait the classifier reads.\<close>

record FwMaps =
  fm_bind :: "u32 \<Rightarrow> FwBind option"
  fm_class4 :: "u64 \<Rightarrow> byte list \<Rightarrow> u32 option"
  fm_class6 :: "u64 \<Rightarrow> byte list \<Rightarrow> u32 option"
  fm_policy4 :: "u64 \<Rightarrow> FwPolKey \<Rightarrow> u32 option"
  fm_policy6 :: "u64 \<Rightarrow> FwPolKey \<Rightarrow> u32 option"

definition fw_probe_verdict :: "u32 option \<Rightarrow> u32 option \<Rightarrow> byte" where
  "fw_probe_verdict specific any =
     (let best = (case (specific, any) of
                    (Some a, Some b) \<Rightarrow> Some (if a > b then a else b)
                  | (a, None) \<Rightarrow> a
                  | (None, b) \<Rightarrow> b)
      in case best of
           Some p \<Rightarrow> if fw_precedence_allows p then FW_ACTION_ACCEPT else FW_ACTION_DROP
         | None \<Rightarrow> FW_ACTION_DROP)"

definition fw_pol_suffix :: "byte \<Rightarrow> u16 \<Rightarrow> u16 \<times> u16 \<Rightarrow> byte \<Rightarrow> byte \<times> byte" where
  "fw_pol_suffix proto dport icmp icmp_proto =
     (if proto = icmp_proto then (ucast (fst icmp), ucast (snd icmp))
      else if proto = IPPROTO_TCP \<or> proto = IPPROTO_UDP then (to_be_bytes dport ! 0, to_be_bytes dport ! 1)
      else (0, 0))"

definition fw_classify :: "Pkt \<Rightarrow> FwMaps \<Rightarrow> nat \<Rightarrow> u32 \<Rightarrow> byte \<Rightarrow> byte" where
  "fw_classify pkt maps ip_off ifindex dir = (case fm_bind maps ifindex of
     None \<Rightarrow> FW_ACTION_DROP
   | Some b \<Rightarrow>
       let scope = bind_scope b dir in
       if scope = FW_SCOPE_NONE then FW_ACTION_DROP
       else let peer_off = (if dir = FW_DIR_EGRESS then 16 else 12)
            in (case read_array 4 pkt (ip_off + peer_off) of
                  None \<Rightarrow> FW_ACTION_DROP
                | Some peer \<Rightarrow>
                    let (proto, _, dport) = (case l4_ports pkt ip_off of
                          Some v \<Rightarrow> v
                        | None \<Rightarrow> (case read_u8 pkt (ip_off + 9) of Some p \<Rightarrow> p | None \<Rightarrow> 0, 0, 0));
                        port = fw_pol_suffix proto dport (icmp_type_code pkt ip_off) IPPROTO_ICMP;
                        specific = (case fm_class4 maps scope peer of
                            Some c \<Rightarrow> if c \<noteq> FW_CLASS_ANY then fm_policy4 maps scope (FwPolKey_new c proto port) else None
                          | None \<Rightarrow> None);
                        any = fm_policy4 maps scope (FwPolKey_new FW_CLASS_ANY proto port)
                    in fw_probe_verdict specific any))"

definition fw_classify6 :: "Pkt \<Rightarrow> FwMaps \<Rightarrow> nat \<Rightarrow> u32 \<Rightarrow> byte \<Rightarrow> byte" where
  "fw_classify6 pkt maps ip_off ifindex dir = (case fm_bind maps ifindex of
     None \<Rightarrow> FW_ACTION_DROP
   | Some b \<Rightarrow>
       let scope = bind_scope b dir in
       if scope = FW_SCOPE_NONE then FW_ACTION_DROP
       else let peer_off = (if dir = FW_DIR_EGRESS then 24 else 8)
            in (case read_array 16 pkt (ip_off + peer_off) of
                  None \<Rightarrow> FW_ACTION_DROP
                | Some peer \<Rightarrow>
                    let (proto, _, dport) = (case l4_ports_v6 pkt ip_off of
                          Some v \<Rightarrow> v
                        | None \<Rightarrow> (case read_u8 pkt (ip_off + 6) of Some p \<Rightarrow> p | None \<Rightarrow> 0, 0, 0));
                        port = fw_pol_suffix proto dport (icmp_type_code_v6 pkt ip_off) IPPROTO_ICMPV6;
                        specific = (case fm_class6 maps scope peer of
                            Some c \<Rightarrow> if c \<noteq> FW_CLASS_ANY then fm_policy6 maps scope (FwPolKey_new c proto port) else None
                          | None \<Rightarrow> None);
                        any = fm_policy6 maps scope (FwPolKey_new FW_CLASS_ANY proto port)
                    in fw_probe_verdict specific any))"

section \<open>The reference evaluator\<close>

record PacketSelectors =
  ps_src :: "byte list"
  ps_dst :: "byte list"
  ps_proto :: byte
  ps_sport :: u16
  ps_dport :: u16
  ps_icmp_type :: u16
  ps_icmp_code :: u16

definition addr_matches :: "nat \<Rightarrow> FwRule \<Rightarrow> PacketSelectors \<Rightarrow> bool" where
  "addr_matches n r s \<longleftrightarrow> list_all (\<lambda>i.
     (ps_src s ! i AND fr_src_mask r ! i) = (fr_src_ip r ! i AND fr_src_mask r ! i)
     \<and> (ps_dst s ! i AND fr_dst_mask r ! i) = (fr_dst_ip r ! i AND fr_dst_mask r ! i)) [0..<n]"

definition l4_matches :: "byte \<Rightarrow> FwRule \<Rightarrow> PacketSelectors \<Rightarrow> bool" where
  "l4_matches icmp_proto r s \<longleftrightarrow>
     (if ps_proto s = 6 \<or> ps_proto s = 17 then
        ps_sport s \<ge> fr_src_port_min r \<and> ps_sport s \<le> fr_src_port_max r
        \<and> ps_dport s \<ge> fr_dst_port_min r \<and> ps_dport s \<le> fr_dst_port_max r
      else if ps_proto s = icmp_proto then
        (fr_icmp_type r = 0xffff \<or> ps_icmp_type s = fr_icmp_type r)
        \<and> (fr_icmp_code r = 0xffff \<or> ps_icmp_code s = fr_icmp_code r)
      else True)"

definition fw_rule_matches :: "FwRule \<Rightarrow> PacketSelectors \<Rightarrow> bool" where
  "fw_rule_matches r s \<longleftrightarrow>
     (if fr_enabled r = 0 then False
      else if fr_proto r \<noteq> 0 \<and> fr_proto r \<noteq> ps_proto s then False
      else if \<not> addr_matches 4 r s then False
      else l4_matches 1 r s)"

definition fw_rule6_matches :: "FwRule \<Rightarrow> PacketSelectors \<Rightarrow> bool" where
  "fw_rule6_matches r s \<longleftrightarrow>
     (if fr_enabled r = 0 then False
      else if fr_proto r \<noteq> 0 \<and> fr_proto r \<noteq> ps_proto s then False
      else if \<not> addr_matches 16 r s then False
      else l4_matches 58 r s)"

definition first_match :: "Pkt \<Rightarrow> nat \<Rightarrow> FwRule list \<Rightarrow> byte \<Rightarrow> byte" where
  "first_match pkt ip_off rules dir = (case (read_array 4 pkt (ip_off + 12), read_array 4 pkt (ip_off + 16)) of
     (Some src, Some dst) \<Rightarrow>
       let (proto, sport, dport) = (case l4_ports pkt ip_off of
             Some v \<Rightarrow> v
           | None \<Rightarrow> (case read_u8 pkt (ip_off + 9) of Some p \<Rightarrow> p | None \<Rightarrow> 0, 0, 0));
           (icmp_type, icmp_code) = icmp_type_code pkt ip_off;
           sel = \<lparr>ps_src = src, ps_dst = dst, ps_proto = proto, ps_sport = sport, ps_dport = dport,
                  ps_icmp_type = icmp_type, ps_icmp_code = icmp_code\<rparr>
       in (case find (\<lambda>r. fr_direction r = dir \<and> fw_rule_matches r sel) rules of
             None \<Rightarrow> FW_ACTION_DROP
           | Some r \<Rightarrow> fr_action r)
   | _ \<Rightarrow> FW_ACTION_DROP)"

definition first_match6 :: "Pkt \<Rightarrow> nat \<Rightarrow> FwRule list \<Rightarrow> byte \<Rightarrow> byte" where
  "first_match6 pkt ip_off rules dir = (case (read_array 16 pkt (ip_off + 8), read_array 16 pkt (ip_off + 24)) of
     (Some src, Some dst) \<Rightarrow>
       let (proto, sport, dport) = (case l4_ports_v6 pkt ip_off of
             Some v \<Rightarrow> v
           | None \<Rightarrow> (case read_u8 pkt (ip_off + 6) of Some p \<Rightarrow> p | None \<Rightarrow> 0, 0, 0));
           (icmp_type, icmp_code) = icmp_type_code_v6 pkt ip_off;
           sel = \<lparr>ps_src = src, ps_dst = dst, ps_proto = proto, ps_sport = sport, ps_dport = dport,
                  ps_icmp_type = icmp_type, ps_icmp_code = icmp_code\<rparr>
       in (case find (\<lambda>r. fr_direction r = dir \<and> fw_rule6_matches r sel) rules of
             None \<Rightarrow> FW_ACTION_DROP
           | Some r \<Rightarrow> fr_action r)
   | _ \<Rightarrow> FW_ACTION_DROP)"

end
