(* ===== verification/Fw_Bits.thy ===== *)
theory Fw_Bits
  imports Fw_Eval
begin

text \<open>
  The byte and mask arithmetic of the classifier read as prefixes of bit strings: comparing leading
  bits, contiguous masks, masked addresses and the layout of the policy key.
\<close>

unbundle bit_operations_syntax

section \<open>Leading bits\<close>

lemma take_bits_of:
  "take n (bits_of a) = bits_of (take (n div 8) a) @ (if n div 8 < length a then take (n mod 8) (byte_bits (a ! (n div 8))) else [])"
proof (induction a arbitrary: n)
  case (Cons x a)
  show ?case
  proof (cases "n < 8")
    case True
    then show ?thesis by simp
  next
    case False
    then obtain m where n: "n = m + 8" by (metis add.commute le_Suc_ex not_less)
    moreover have "(m + 8) div 8 = Suc (m div 8)" by simp
    ultimately show ?thesis using Cons.IH [of m] by (simp del: div_add_self2)
  qed
qed simp

lemma masked_byte_eq:
  assumes "0 < k" and "k < 8"
  shows "x AND push_bit (8 - k) 0xff = y AND push_bit (8 - k) 0xff \<longleftrightarrow> take k (byte_bits x) = take k (byte_bits y)"
  using mask_byte_eq [of k x y] assms by (simp add: mask_byte_def)

lemma xor_and_zero: "(x XOR y) AND m = 0 \<longleftrightarrow> x AND m = y AND m" for x y m :: byte
  by (auto simp: bit_eq_iff bit_and_iff bit_xor_iff)

lemma prefix_match_bits:
  assumes "n \<le> 8 * length a" and "length a = length b"
  shows "prefix_match a b n \<longleftrightarrow> take n (bits_of a) = take n (bits_of b)"
proof -
  have len: "length (take (n div 8) a) = length (take (n div 8) b)" using assms(2) by simp
  have eq: "take n (bits_of a) = take n (bits_of b) \<longleftrightarrow> take (n div 8) a = take (n div 8) b
      \<and> (n div 8 < length a \<longrightarrow> take (n mod 8) (byte_bits (a ! (n div 8))) = take (n mod 8) (byte_bits (b ! (n div 8))))"
    using len assms(2) by (simp add: take_bits_of [of n] bits_of_inj [OF len] append_eq_append_conv)
  show ?thesis
  proof (cases "n mod 8 = 0")
    case True
    then show ?thesis by (simp add: eq prefix_match_def Let_def)
  next
    case False
    then have "n div 8 < length a" using assms(1) by (simp add: less_mult_imp_div_less le_less) auto
    with False show ?thesis by (simp add: eq prefix_match_def Let_def masked_byte_eq)
  qed
qed

lemma bits_match_prefix: "bits_match a b n \<longleftrightarrow> prefix_match a b n"
  by (simp add: bits_match_def prefix_match_def Let_def xor_and_zero)

lemmas bits_match_bits = prefix_match_bits [folded bits_match_prefix]

section \<open>Masks\<close>

lemma masks_bits:
  "length a = length b \<Longrightarrow>
    (\<forall>i < length a. a ! i AND mask_byte (min 8 (l - 8 * i)) = b ! i AND mask_byte (min 8 (l - 8 * i)))
      \<longleftrightarrow> take l (bits_of a) = take l (bits_of b)"
proof (induction a b arbitrary: l rule: list_induct2)
  case (Cons x a y b)
  have "(\<forall>i < length (x # a). (x # a) ! i AND mask_byte (min 8 (l - 8 * i)) = (y # b) ! i AND mask_byte (min 8 (l - 8 * i)))
    \<longleftrightarrow> x AND mask_byte (min 8 l) = y AND mask_byte (min 8 l)
      \<and> (\<forall>i < length a. a ! i AND mask_byte (min 8 (l - 8 - 8 * i)) = b ! i AND mask_byte (min 8 (l - 8 - 8 * i)))"
    by (auto simp: less_Suc_eq_0_disj all_conj_distrib)
  also have "\<dots> \<longleftrightarrow> take l (byte_bits x) = take l (byte_bits y) \<and> take (l - 8) (bits_of a) = take (l - 8) (bits_of b)"
    unfolding Cons.IH by (simp add: mask_byte_eq min_def)
  finally show ?case by (simp add: append_eq_append_conv)
qed simp

lemma count_ones_le: "count_ones b \<le> 8"
  using length_filter_le [of id "byte_bits b"] by (simp add: count_ones_def)

lemma prefix_len_mask:
  assumes "prefix_len msk = Some l"
  shows "l \<le> 8 * length msk" and "i < length msk \<Longrightarrow> msk ! i = mask_byte (min 8 (l - 8 * i))"
proof -
  have "sum_list (map count_ones msk) \<le> 8 * length msk"
    using sum_list_mono [of msk count_ones "\<lambda>_. 8"] count_ones_le by (simp add: sum_list_triv)
  then show "l \<le> 8 * length msk" "i < length msk \<Longrightarrow> msk ! i = mask_byte (min 8 (l - 8 * i))"
    using assms by (auto simp: prefix_len_def Let_def list_all_iff split: if_splits)
qed

lemma prefix_len_bits:
  assumes "prefix_len msk = Some l" and "length msk = n" and "length a = n" and "length b = n"
  shows "(\<forall>i < n. a ! i AND msk ! i = b ! i AND msk ! i) \<longleftrightarrow> take l (bits_of a) = take l (bits_of b)"
  using masks_bits [of a b l] prefix_len_mask(2) [OF assms(1)] assms by simp

lemma length_masked [simp]: "length (masked a l) = length a"
  by (simp add: masked_def)

lemma and_mask_idem: "(x AND m) AND m = x AND m" for x m :: byte
  by (simp add: and.assoc)

lemma masked_bits: "take l (bits_of (masked a l)) = take l (bits_of a)"
  using masks_bits [of "masked a l" a l] by (simp add: masked_def and_mask_idem)

lemma masked_cong: "length a = length b \<Longrightarrow> take l (bits_of a) = take l (bits_of b) \<Longrightarrow> masked a l = masked b l"
  using masks_bits [of a b l] by (simp add: masked_def)

lemma masked_masked [simp]: "masked (masked a l) l = masked a l"
  by (rule masked_cong) (simp_all add: masked_bits)

section \<open>The policy key\<close>

lemma bit_ucast_byte: "bit (ucast (w :: 'a::len word) :: byte) i \<longleftrightarrow> i < 8 \<and> bit w i"
  by (auto simp: bit_simps dest: bit_imp_le_length)

lemma length_to_ne_bytes [simp]: "length (to_ne_bytes c) = 4"
  by (simp add: to_ne_bytes_def)

lemma to_ne_bytes_inj: "to_ne_bytes a = to_ne_bytes b \<longleftrightarrow> a = b"
proof
  assume eq: "to_ne_bytes a = to_ne_bytes b"
  show "a = b"
  proof (rule bit_word_eqI)
    fix i assume "i < LENGTH(32)"
    then have "i < 32" by simp
    have "bit a (8 * k + j) = bit b (8 * k + j)" if "j < 8" "(ucast (drop_bit (8 * k) a) :: byte) = ucast (drop_bit (8 * k) b)" for j k
      using arg_cong [OF that(2), of "\<lambda>w. bit w j"] that(1) by (simp add: bit_ucast_byte bit_drop_bit_eq)
    from this [of _ 0] this [of _ 1] this [of _ 2] this [of _ 3] eq
    have "\<And>j. j < 8 \<Longrightarrow> bit a j = bit b j" "\<And>j. j < 8 \<Longrightarrow> bit a (8 + j) = bit b (8 + j)"
      "\<And>j. j < 8 \<Longrightarrow> bit a (16 + j) = bit b (16 + j)" "\<And>j. j < 8 \<Longrightarrow> bit a (24 + j) = bit b (24 + j)"
      by (simp_all add: to_ne_bytes_def)
    from this(1) [of i] this(2) [of "i - 8"] this(3) [of "i - 16"] this(4) [of "i - 24"] \<open>i < 32\<close>
    show "bit a i = bit b i" by (cases "i < 8"; cases "i < 16"; cases "i < 24") auto
  qed
qed simp

lemma bits_of_be: "bits_of (to_be_bytes v) = map (bit v) [15, 14, 13, 12, 11, 10, 9, 8, 7, 6, 5, 4, 3, 2, 1, 0]"
  by (simp add: to_be_bytes_def byte_bits_def bit_ucast_byte bit_drop_bit_eq)

lemma port_under_bits:
  assumes "n \<le> 16"
  shows "port_under (v, n) p \<longleftrightarrow> take n (bits_of (to_be_bytes v)) = take n (bits_of (to_be_bytes p))"
proof -
  have idx: "[15, 14, 13, 12, 11, 10, 9, 8, 7, 6, 5, 4, 3, 2, 1, 0 :: nat] ! j = 15 - j" if "j < 16" for j
    using that by (auto simp: less_Suc_eq numeral_eq_Suc)
  have nth: "bits_of (to_be_bytes w) ! j = bit w (15 - j)" if "j < 16" for w j
    unfolding bits_of_be using idx [OF that] that by (subst nth_map) simp_all
  have "take n (bits_of (to_be_bytes v)) = take n (bits_of (to_be_bytes p)) \<longleftrightarrow> (\<forall>j < n. bit v (15 - j) = bit p (15 - j))"
    using assms by (auto simp: list_eq_iff_nth_eq nth) (auto simp: to_be_bytes_def)
  also have "\<dots> \<longleftrightarrow> (\<forall>i < 16. 16 - n \<le> i \<longrightarrow> bit v i = bit p i)"
  proof safe
    fix i assume "\<forall>j < n. bit v (15 - j) = bit p (15 - j)" "i < 16" "16 - n \<le> i"
    then show "bit v i \<Longrightarrow> bit p i" "bit p i \<Longrightarrow> bit v i" by (auto dest!: spec [of _ "15 - i"])
  next
    fix j assume "\<forall>i < 16. 16 - n \<le> i \<longrightarrow> bit v i = bit p i" "j < n"
    then show "bit v (15 - j) \<Longrightarrow> bit p (15 - j)" "bit p (15 - j) \<Longrightarrow> bit v (15 - j)"
      using assms by (auto dest!: spec [of _ "15 - j"])
  qed
  also have "\<dots> \<longleftrightarrow> drop_bit (16 - n) p = drop_bit (16 - n) v"
  proof
    assume *: "\<forall>i < 16. 16 - n \<le> i \<longrightarrow> bit v i = bit p i"
    show "drop_bit (16 - n) p = drop_bit (16 - n) v"
    proof (rule bit_word_eqI)
      fix i
      show "bit (drop_bit (16 - n) p) i = bit (drop_bit (16 - n) v) i"
        using * [rule_format, of "16 - n + i"] bit_imp_le_length [of p "16 - n + i"] bit_imp_le_length [of v "16 - n + i"]
        by (auto simp: bit_drop_bit_eq)
    qed
  next
    assume eq: "drop_bit (16 - n) p = drop_bit (16 - n) v"
    have "bit v i = bit p i" if "16 - n \<le> i" for i
      using arg_cong [OF eq, of "\<lambda>w. bit w (i - (16 - n))"] that by (simp add: bit_drop_bit_eq)
    then show "\<forall>i < 16. 16 - n \<le> i \<longrightarrow> bit v i = bit p i" by blast
  qed
  finally show ?thesis by (simp add: port_under_def)
qed

lemma length_pol_key [simp]: "length (pol_key_bytes k) = 7"
  by (simp add: pol_key_bytes_def to_ne_bytes_def)

text \<open>What a policy prefix of each length compares.\<close>

lemma policy_prefix:
  assumes "n \<le> 16"
  shows "prefix_match (pol_key_bytes k) (pol_key_bytes key) (FW_POL_PREFIX_PROTO + n) \<longleftrightarrow>
    pk_class k = pk_class key \<and> pk_proto k = pk_proto key
      \<and> take n (bits_of [fst (pk_port k), snd (pk_port k)]) = take n (bits_of [fst (pk_port key), snd (pk_port key)])"
proof -
  have 1: "length (bits_of (to_ne_bytes c)) = 32" for c by simp
  have 2: "take (40 + n) (bits_of (pol_key_bytes k)) = bits_of (to_ne_bytes (pk_class k)) @ byte_bits (pk_proto k)
      @ take n (bits_of [fst (pk_port k), snd (pk_port k)])" for k
    unfolding pol_key_bytes_def bits_of_append take_append 1 by simp
  have "prefix_match (pol_key_bytes k) (pol_key_bytes key) (FW_POL_PREFIX_PROTO + n) \<longleftrightarrow>
    take (40 + n) (bits_of (pol_key_bytes k)) = take (40 + n) (bits_of (pol_key_bytes key))"
    using assms by (subst prefix_match_bits) (simp_all add: FW_POL_PREFIX_PROTO_def)
  also have "\<dots> \<longleftrightarrow> bits_of (to_ne_bytes (pk_class k)) = bits_of (to_ne_bytes (pk_class key)) \<and> byte_bits (pk_proto k) = byte_bits (pk_proto key)
      \<and> take n (bits_of [fst (pk_port k), snd (pk_port k)]) = take n (bits_of [fst (pk_port key), snd (pk_port key)])"
    unfolding 2 by (simp add: append_eq_append_conv 1)
  finally show ?thesis by (simp add: bits_of_inj to_ne_bytes_inj byte_bits_inj)
qed

lemma policy_class:
  "prefix_match (pol_key_bytes k) (pol_key_bytes key) FW_POL_PREFIX_CLASS \<longleftrightarrow> pk_class k = pk_class key"
proof -
  have "take 4 (pol_key_bytes k) = to_ne_bytes (pk_class k)" for k by (simp add: pol_key_bytes_def to_ne_bytes_def)
  then show ?thesis by (simp add: prefix_match_def FW_POL_PREFIX_CLASS_def to_ne_bytes_inj)
qed

end
