(* ===== verification/Fw_Shadow.thy ===== *)
theory Fw_Shadow
  imports Fw_Bits
begin

text \<open>
  Insert-time shadowing. The interface \<open>lpm_trie\<close> says what a prefix trie owes the compiler: an entry
  that covers another matches what the other matches, and of two entries that match one key the
  shorter covers the longer. From that alone the longest match of a key is its match of highest
  precedence. It is interpreted on the policy entries of the classifier.
\<close>

section \<open>Shadowing\<close>

locale lpm_trie =
  fixes ok :: "'e \<Rightarrow> bool"
    and covers :: "'e \<Rightarrow> 'e \<Rightarrow> bool"
    and matches :: "'e \<Rightarrow> 'k \<Rightarrow> bool"
    and plen :: "'e \<Rightarrow> nat"
    and prec :: "'e \<Rightarrow> 'p::linorder"
    and ins :: "'e \<Rightarrow> 'e list \<Rightarrow> 'e list"
  assumes covers_matches: "ok x \<Longrightarrow> ok y \<Longrightarrow> covers x y \<Longrightarrow> matches y k \<Longrightarrow> matches x k"
    and shorter_covers: "ok x \<Longrightarrow> ok y \<Longrightarrow> matches x k \<Longrightarrow> matches y k \<Longrightarrow> plen x \<le> plen y \<Longrightarrow> covers x y"
    and covers_trans: "ok x \<Longrightarrow> ok y \<Longrightarrow> ok z \<Longrightarrow> covers x y \<Longrightarrow> covers y z \<Longrightarrow> covers x z"
    and ins_eq: "ins e es = (if list_ex (\<lambda>x. prec x > prec e \<and> covers x e) es then es
      else filter (\<lambda>x. \<not> (prec e > prec x \<and> covers e x)) es @ [e])"
begin

text \<open>
  The entries that were offered, against those that are kept: nothing is made up, each offered entry
  is answered by a kept one that covers it and has no lower precedence, and no kept entry is hidden.
\<close>

definition shadowed :: "'e set \<Rightarrow> 'e list \<Rightarrow> bool" where
  "shadowed offered es \<longleftrightarrow> (\<forall>x \<in> offered. ok x) \<and> set es \<subseteq> offered
     \<and> (\<forall>x \<in> offered. \<exists>y \<in> set es. prec x \<le> prec y \<and> (y = x \<or> covers y x))
     \<and> (\<forall>x \<in> set es. \<forall>y \<in> set es. prec y < prec x \<longrightarrow> \<not> covers x y)"

lemma shadowed_empty: "shadowed {} []"
  by (simp add: shadowed_def)

lemma shadowed_ins:
  assumes "shadowed offered es" and "ok e"
  shows "shadowed (insert e offered) (ins e es)"
proof (cases "list_ex (\<lambda>x. prec x > prec e \<and> covers x e) es")
  case True
  then obtain x where "x \<in> set es" "prec e < prec x" "covers x e" by (auto simp: list_ex_iff)
  then have "\<exists>y \<in> set es. prec e \<le> prec y \<and> (y = e \<or> covers y e)" by (auto intro: less_imp_le)
  then show ?thesis using assms True by (auto simp: shadowed_def ins_eq)
next
  case False
  let ?es = "filter (\<lambda>x. \<not> (prec e > prec x \<and> covers e x)) es @ [e]"
  have eq: "ins e es = ?es" using False by (simp add: ins_eq)
  have answered: "\<exists>y \<in> set ?es. prec x \<le> prec y \<and> (y = x \<or> covers y x)" if x: "x \<in> insert e offered" for x
  proof (cases "x = e")
    case False
    with x assms(1) obtain y where y: "y \<in> set es" "prec x \<le> prec y" "y = x \<or> covers y x" by (auto simp: shadowed_def)
    show ?thesis
    proof (cases "prec e > prec y \<and> covers e y")
      case True
      have "ok x" "ok y" using x False y(1) assms(1) by (auto simp: shadowed_def)
      with True y assms(2) covers_trans [of e y x] show ?thesis by (intro bexI [of _ e]) auto
    next
      case False
      then show ?thesis using y by (intro bexI [of _ y]) auto
    qed
  qed simp
  moreover have "\<not> covers x y" if "x \<in> set ?es" "y \<in> set ?es" "prec y < prec x" for x y
    using that assms(1) False unfolding shadowed_def list_ex_iff by auto
  moreover have "\<forall>x \<in> insert e offered. ok x" "set ?es \<subseteq> insert e offered"
    using assms by (auto simp: shadowed_def)
  ultimately show ?thesis unfolding eq shadowed_def by blast
qed

lemma shadowed_fold:
  "shadowed offered es \<Longrightarrow> (\<And>x. x \<in> set xs \<Longrightarrow> ok x) \<Longrightarrow> shadowed (offered \<union> set xs) (fold ins xs es)"
proof (induction xs arbitrary: offered es)
  case (Cons x xs)
  then show ?case using Cons.IH [of "insert x offered" "ins x es"] shadowed_ins [of offered es x] by simp
qed simp

lemma shadowed_union:
  assumes "shadowed a xs" and "shadowed b ys"
    and "\<And>x y. x \<in> a \<Longrightarrow> y \<in> b \<Longrightarrow> \<not> covers x y \<and> \<not> covers y x"
  shows "shadowed (a \<union> b) (xs @ ys)"
proof -
  have "set (xs @ ys) \<subseteq> a \<union> b" "\<forall>x \<in> a \<union> b. ok x" using assms(1,2) by (auto simp: shadowed_def)
  moreover have "\<exists>y \<in> set (xs @ ys). prec x \<le> prec y \<and> (y = x \<or> covers y x)" if "x \<in> a \<union> b" for x
    using that assms(1,2) unfolding shadowed_def set_append by blast
  moreover have "\<not> covers x y" if "x \<in> set (xs @ ys)" "y \<in> set (xs @ ys)" "prec y < prec x" for x y
    using that assms unfolding shadowed_def set_append by (metis Un_iff subset_iff)
  ultimately show ?thesis unfolding shadowed_def by blast
qed

text \<open>The longest match has the highest precedence of everything offered that matches.\<close>

lemma longest_wins:
  assumes "shadowed offered es" and "z \<in> set es" and "matches z k"
    and "\<And>y. y \<in> set es \<Longrightarrow> matches y k \<Longrightarrow> plen y \<le> plen z" and "x \<in> offered" and "matches x k"
  shows "prec x \<le> prec z"
proof -
  obtain y where y: "y \<in> set es" "prec x \<le> prec y" "y = x \<or> covers y x"
    using assms(1,5) by (auto simp: shadowed_def)
  have oks: "ok x" "ok y" "ok z" using assms(1,2,5) y(1) by (auto simp: shadowed_def)
  have my: "matches y k" using y(3) covers_matches [of y x k] oks assms(6) by auto
  then have "covers y z" using shorter_covers [of y z k] oks assms(3,4) y(1) by simp
  then have "\<not> prec z < prec y" using assms(1,2) y(1) by (auto simp: shadowed_def)
  with y(2) show ?thesis by simp
qed

lemma kept_match:
  assumes "shadowed offered es" and "x \<in> offered" and "matches x k"
  shows "\<exists>y \<in> set es. matches y k"
  using assms covers_matches unfolding shadowed_def by (metis subset_iff)

end

section \<open>The policy trie\<close>

definition en_ok :: "Entry \<Rightarrow> bool" where
  "en_ok e \<longleftrightarrow> en_plen e \<le> 56"

definition en_matches :: "Entry \<Rightarrow> FwPolKey \<Rightarrow> bool" where
  "en_matches e key \<longleftrightarrow> prefix_match (pol_key_bytes (en_key e)) (pol_key_bytes key) (en_plen e)"

lemma en_matches_bits:
  "en_ok e \<Longrightarrow> en_matches e key \<longleftrightarrow> take (en_plen e) (bits_of (en_bytes e)) = take (en_plen e) (bits_of (pol_key_bytes key))"
  by (simp add: en_matches_def en_ok_def en_bytes_def prefix_match_bits)

lemma en_covers_bits:
  "en_ok x \<Longrightarrow> en_covers x y \<longleftrightarrow>
     en_plen x \<le> en_plen y \<and> take (en_plen x) (bits_of (en_bytes x)) = take (en_plen x) (bits_of (en_bytes y))"
  by (simp add: en_covers_def en_ok_def en_bytes_def bits_match_bits)

lemma take_shorter: "m \<le> n \<Longrightarrow> take n xs = take n ys \<Longrightarrow> take m xs = take m ys"
  by (metis min.absorb1 take_take)

interpretation pol: lpm_trie en_ok en_covers en_matches en_plen en_prec fw_insert
proof
  fix x y z e :: Entry and k es
  show "en_ok x \<Longrightarrow> en_ok y \<Longrightarrow> en_covers x y \<Longrightarrow> en_matches y k \<Longrightarrow> en_matches x k"
    using take_shorter [of "en_plen x" "en_plen y"] by (auto simp: en_matches_bits en_covers_bits)
  show "en_ok x \<Longrightarrow> en_ok y \<Longrightarrow> en_matches x k \<Longrightarrow> en_matches y k \<Longrightarrow> en_plen x \<le> en_plen y \<Longrightarrow> en_covers x y"
    using take_shorter [of "en_plen x" "en_plen y" "bits_of (en_bytes y)" "bits_of (pol_key_bytes k)"]
    by (simp add: en_matches_bits en_covers_bits)
  show "en_ok x \<Longrightarrow> en_ok y \<Longrightarrow> en_ok z \<Longrightarrow> en_covers x y \<Longrightarrow> en_covers y z \<Longrightarrow> en_covers x z"
    using take_shorter [of "en_plen x" "en_plen y" "bits_of (en_bytes y)" "bits_of (en_bytes z)"]
    by (simp add: en_covers_bits)
  show "fw_insert e es = (if list_ex (\<lambda>x. en_prec x > en_prec e \<and> en_covers x e) es then es
      else filter (\<lambda>x. \<not> (en_prec e > en_prec x \<and> en_covers e x)) es @ [e])"
    by (simp add: fw_insert_def)
qed

section \<open>Longest matches\<close>

lemma max_by_key_None: "max_by_key f xs = None \<longleftrightarrow> xs = []"
  by (induction xs) (auto split: option.splits)

lemma max_by_key_Some: "max_by_key f xs = Some y \<Longrightarrow> y \<in> set xs \<and> (\<forall>x \<in> set xs. f x \<le> f y)"
  by (induction xs arbitrary: y) (fastforce split: option.splits if_splits simp: max_by_key_None)+

end
