(* ===== verification/Fw_Policy.thy ===== *)
theory Fw_Policy
  imports Fw_Shadow
begin

text \<open>
  The compiled tries of one family against the parsed rules: which class a peer falls into, which
  rules a class stands for, and what the longest match in the policy trie is.
\<close>

unbundle bit_operations_syntax

section \<open>What a parsed rule matches\<close>

fun sel_matches :: "Selector \<Rightarrow> byte \<times> byte \<Rightarrow> bool" where
  "sel_matches SelAny port \<longleftrightarrow> True"
| "sel_matches (SelPorts lo hi) port \<longleftrightarrow> lo \<le> from_be_bytes (fst port) (snd port) \<and> from_be_bytes (fst port) (snd port) \<le> hi"
| "sel_matches (SelIcmp t None) port \<longleftrightarrow> fst port = t"
| "sel_matches (SelIcmp t (Some c)) port \<longleftrightarrow> port = (t, c)"

definition proto_hit :: "byte \<Rightarrow> byte \<times> byte \<Rightarrow> Parsed \<Rightarrow> bool" where
  "proto_hit proto port r \<longleftrightarrow> pa_proto r = 0 \<or> pa_proto r = proto \<and> sel_matches (pa_sel r) port"

definition peer_hit :: "byte list \<Rightarrow> Parsed \<Rightarrow> bool" where
  "peer_hit peer r \<longleftrightarrow> take (pa_len r) (bits_of (pa_peer r)) = take (pa_len r) (bits_of peer)"

text \<open>Rules as parsing leaves them: an address of the family's width, masked to its prefix length.\<close>

definition rule_ok :: "nat \<Rightarrow> Parsed \<Rightarrow> bool" where
  "rule_ok n r \<longleftrightarrow> length (pa_peer r) = n \<and> pa_len r \<le> 8 * n \<and> masked (pa_peer r) (pa_len r) = pa_peer r"

section \<open>Entries of a rule\<close>

definition rule_entries :: "u32 \<Rightarrow> nat \<times> Parsed \<Rightarrow> Entry list" where
  "rule_entries cls rr = map (\<lambda>(plen, port). \<lparr>en_plen = plen, en_key = FwPolKey_new cls (pa_proto (snd rr)) port,
     en_prec = fw_precedence (of_nat (fst rr)) (pa_allow (snd rr))\<rparr>) (rule_suffixes (snd rr))"

lemma to_be_from_be: "to_be_bytes (from_be_bytes a b) = [a, b]"
proof -
  have "(ucast (drop_bit 8 (from_be_bytes a b)) :: byte) = a" "(ucast (from_be_bytes a b) :: byte) = b"
    by (rule bit_word_eqI; auto simp: from_be_bytes_def bit_simps dest: bit_imp_le_length)+
  then show ?thesis by (simp add: to_be_bytes_def)
qed

lemma prefix_loop_bits: "e \<in> set (prefix_loop lo hi) \<Longrightarrow> snd e \<le> 16"
  by (induction lo hi rule: prefix_loop.induct) (subst (asm) (2) prefix_loop.simps, auto simp: Let_def split: if_splits)

lemma port_prefixes_bits: "(v, n) \<in> set (port_prefixes lo hi) \<Longrightarrow> n \<le> 16"
  using prefix_loop_bits by (fastforce simp: port_prefixes_def)

lemma port_prefixes_covers: "(\<exists>e \<in> set (port_prefixes lo hi). port_under e p) \<longleftrightarrow> lo \<le> p \<and> p \<le> hi"
  using prefix_loop_covers [of "unat hi" p "unat lo"] unsigned_less [of hi, where 'a = nat]
  by (simp add: port_prefixes_def word_le_nat_alt list_ex_iff)

lemma suffix_plen:
  assumes "(plen, port) \<in> set (rule_suffixes r)"
  shows "32 \<le> plen" and "plen \<le> 56"
  using assms port_prefixes_bits
  by (auto simp: rule_suffixes_def FW_POL_PREFIX_CLASS_def FW_POL_PREFIX_PROTO_def split: if_splits Selector.splits option.splits)

lemma rule_entries_ok:
  assumes "e \<in> set (rule_entries cls rr)"
  shows "en_ok e" and "32 \<le> en_plen e" and "pk_class (en_key e) = cls"
    and "en_prec e = fw_precedence (of_nat (fst rr)) (pa_allow (snd rr))"
  using assms suffix_plen by (auto simp: rule_entries_def en_ok_def FwPolKey_new_def)

lemma suffix_match:
  "n \<le> 16 \<Longrightarrow> prefix_match (pol_key_bytes (FwPolKey_new cls p port)) (pol_key_bytes (FwPolKey_new cls' q port')) (FW_POL_PREFIX_PROTO + n)
    \<longleftrightarrow> cls = cls' \<and> p = q \<and> take n (bits_of [fst port, snd port]) = take n (bits_of [fst port', snd port'])"
  by (simp add: policy_prefix FwPolKey_new_def)

lemma rule_entries_match:
  "(\<exists>e \<in> set (rule_entries cls rr). en_matches e (FwPolKey_new cls proto port)) \<longleftrightarrow> proto_hit proto port (snd rr)"
proof -
  let ?r = "snd rr"
  have "(\<exists>e \<in> set (rule_entries cls rr). en_matches e (FwPolKey_new cls proto port)) \<longleftrightarrow>
    (\<exists>(plen, p) \<in> set (rule_suffixes ?r).
       prefix_match (pol_key_bytes (FwPolKey_new cls (pa_proto ?r) p)) (pol_key_bytes (FwPolKey_new cls proto port)) plen)"
    by (force simp: rule_entries_def en_matches_def)
  also have "\<dots> \<longleftrightarrow> proto_hit proto port ?r"
  proof (cases "pa_proto ?r = 0")
    case True
    then show ?thesis by (simp add: rule_suffixes_def proto_hit_def policy_class FwPolKey_new_def)
  next
    case proto: False
    show ?thesis
    proof (cases "pa_sel ?r")
      case SelAny
      then show ?thesis using proto suffix_match [of 0] by (simp add: rule_suffixes_def proto_hit_def)
    next
      case (SelPorts lo hi)
      let ?p = "from_be_bytes (fst port) (snd port)"
      have be: "to_be_bytes v = [to_be_bytes v ! 0, to_be_bytes v ! 1]" for v by (simp add: to_be_bytes_def)
      have under: "port_under (v, n) ?p \<longleftrightarrow> take n (bits_of [to_be_bytes v ! 0, to_be_bytes v ! 1]) = take n (bits_of [fst port, snd port])"
        if "n \<le> 16" for v n
        using port_under_bits [OF that, of v ?p] by (simp only: to_be_from_be be [symmetric])
      have "(\<exists>(plen, p) \<in> set (rule_suffixes ?r).
          prefix_match (pol_key_bytes (FwPolKey_new cls (pa_proto ?r) p)) (pol_key_bytes (FwPolKey_new cls proto port)) plen)
        \<longleftrightarrow> (\<exists>(v, n) \<in> set (port_prefixes lo hi). pa_proto ?r = proto \<and> port_under (v, n) ?p)"
        using proto port_prefixes_bits [of _ _ lo hi]
        by (auto simp: rule_suffixes_def SelPorts suffix_match under intro!: bexI)
      also have "\<dots> \<longleftrightarrow> pa_proto ?r = proto \<and> lo \<le> ?p \<and> ?p \<le> hi"
        using port_prefixes_covers [of lo hi ?p] by auto
      finally show ?thesis using proto by (simp add: proto_hit_def SelPorts)
    next
      case (SelIcmp t c)
      have one: "take 8 (byte_bits a @ byte_bits b) = byte_bits a" for a b by simp
      have both: "take 16 (byte_bits a @ byte_bits b) = byte_bits a @ byte_bits b" for a b by simp
      show ?thesis
        using proto suffix_match [of 8] suffix_match [of 16]
        by (cases c; cases port) (auto simp: rule_suffixes_def proto_hit_def SelIcmp one both byte_bits_inj append_eq_append_conv)
    qed
  qed
  finally show ?thesis .
qed

section \<open>Buckets\<close>

lemma fold_pairs: "fold (\<lambda>(plen, port). fw_insert \<lparr>en_plen = plen, en_key = FwPolKey_new cls (pa_proto r) port,
     en_prec = fw_precedence (of_nat rank) (pa_allow r)\<rparr>) (rule_suffixes r) es = fold fw_insert (rule_entries cls (rank, r)) es"
  by (simp add: rule_entries_def fold_map comp_def split_def)

lemma insert_rule_bucket:
  assumes "distinct (rule_targets classes (snd rr))"
  shows "mget0 [] (insert_rule classes rr m) cls =
     (if cls \<in> set (rule_targets classes (snd rr)) then fold fw_insert (rule_entries cls rr) (mget0 [] m cls) else mget0 [] m cls)"
proof -
  obtain rank r where rr: "rr = (rank, r)" by fastforce
  have "distinct cs \<Longrightarrow> mget0 [] (fold (\<lambda>c m. mput c (fold fw_insert (rule_entries c rr) (mget0 [] m c)) m) cs m) cls
    = (if cls \<in> set cs then fold fw_insert (rule_entries cls rr) (mget0 [] m cls) else mget0 [] m cls)" for cs
    by (induction cs arbitrary: m) auto
  with assms show ?thesis by (simp add: insert_rule_def rr fold_pairs Let_def)
qed

lemma insert_rule_mwf: "mwf m \<Longrightarrow> mwf (insert_rule classes rr m)"
proof -
  have "mwf m \<Longrightarrow> mwf (fold (\<lambda>c m. mput c (f c m) m) cs m)" for cs and f :: "u32 \<Rightarrow> (u32, Entry list) gomap \<Rightarrow> Entry list"
    by (induction cs arbitrary: m) auto
  then show "mwf m \<Longrightarrow> mwf (insert_rule classes rr m)" by (simp add: insert_rule_def split_def Let_def)
qed

text \<open>What the rules offer under a class.\<close>

definition offered :: "class_trie \<Rightarrow> u32 \<Rightarrow> (nat \<times> Parsed) list \<Rightarrow> Entry set" where
  "offered classes cls rrs = (\<Union>rr \<in> set rrs. if cls \<in> set (rule_targets classes (snd rr)) then set (rule_entries cls rr) else {})"

lemma buckets_shadowed:
  assumes "\<And>r. distinct (rule_targets classes r)"
  shows "pol.shadowed (offered classes cls rrs) (mget0 [] (fold (insert_rule classes) rrs []) cls)"
proof -
  have "pol.shadowed (off \<union> offered classes cls rrs) (mget0 [] (fold (insert_rule classes) rrs m) cls)"
    if "pol.shadowed off (mget0 [] m cls)" for off m
    using that
  proof (induction rrs arbitrary: off m)
    case (Cons rr rrs)
    let ?new = "if cls \<in> set (rule_targets classes (snd rr)) then set (rule_entries cls rr) else {}"
    have "pol.shadowed (off \<union> ?new) (mget0 [] (insert_rule classes rr m) cls)"
      using pol.shadowed_fold [OF Cons.prems, of "rule_entries cls rr"] rule_entries_ok(1) Cons.prems
      by (simp add: insert_rule_bucket [OF assms])
    moreover have "offered classes cls (rr # rrs) = ?new \<union> offered classes cls rrs"
      unfolding offered_def list.set UN_insert by (rule refl)
    ultimately show ?case using Cons.IH [of "off \<union> ?new" "insert_rule classes rr m"] by (simp only: Un_assoc fold_simps)
  qed (simp add: offered_def)
  from this [of "{}" "[]"] show ?thesis using pol.shadowed_empty by simp
qed

lemma buckets_mwf: "mwf (fold (insert_rule classes) rrs [])"
proof -
  have "mwf m \<Longrightarrow> mwf (fold (insert_rule classes) rrs m)" for m
    by (induction rrs arbitrary: m) (simp_all add: insert_rule_mwf)
  then show ?thesis by simp
qed

lemma offered_class: "e \<in> offered classes cls rrs \<Longrightarrow> pk_class (en_key e) = cls \<and> 32 \<le> en_plen e"
  using rule_entries_ok by (auto simp: offered_def split: if_splits)

lemma en_matches_class: "en_matches e key \<Longrightarrow> 32 \<le> en_plen e \<Longrightarrow> en_ok e \<Longrightarrow> pk_class (en_key e) = pk_class key"
proof -
  assume e: "en_matches e key" "32 \<le> en_plen e" "en_ok e"
  have "take 32 (bits_of (en_bytes e)) = take 32 (bits_of (pol_key_bytes key))"
    using e take_shorter [of 32 "en_plen e"] by (simp add: en_matches_bits)
  then have "prefix_match (pol_key_bytes (en_key e)) (pol_key_bytes key) FW_POL_PREFIX_CLASS"
    by (subst prefix_match_bits) (simp_all add: FW_POL_PREFIX_CLASS_def en_bytes_def)
  then show ?thesis by (simp add: policy_class)
qed

definition policy_of :: "class_trie \<Rightarrow> (nat \<times> Parsed) list \<Rightarrow> policy_trie" where
  "policy_of classes rrs = sort_key (\<lambda>(plen, k, _). (pk_class k, plen, pk_proto k, pk_port k))
     (map (\<lambda>e. (en_plen e, en_key e, en_prec e)) (concat (map snd (fold (insert_rule classes) rrs []))))"

text \<open>Only the bucket of its class answers a key.\<close>

lemma policy_matches:
  assumes "\<And>r. distinct (rule_targets classes r)"
  shows "(plen, k, p) \<in> set (policy_of classes rrs) \<and> prefix_match (pol_key_bytes k) (pol_key_bytes key) plen \<longleftrightarrow>
    (\<exists>e \<in> set (mget0 [] (fold (insert_rule classes) rrs []) (pk_class key)). en_matches e key \<and> (plen, k, p) = (en_plen e, en_key e, en_prec e))"
proof -
  let ?m = "fold (insert_rule classes) rrs []"
  have bucket: "es = mget0 [] ?m c" if "(c, es) \<in> set ?m" for c es
    using that buckets_mwf [of classes rrs] by (simp add: mget_iff mget0_def)
  have mem: "e \<in> offered classes c rrs" if "e \<in> set (mget0 [] ?m c)" for e c
    using that buckets_shadowed [OF assms, of c rrs] by (auto simp: pol.shadowed_def)
  have cls: "c = pk_class key" if "e \<in> set (mget0 [] ?m c)" "en_matches e key" for e c
    using mem [OF that(1)] offered_class [of e classes c rrs] buckets_shadowed [OF assms, of c rrs] en_matches_class [OF that(2)]
    by (auto simp: pol.shadowed_def)
  have "(plen, k, p) \<in> set (policy_of classes rrs) \<longleftrightarrow> (\<exists>c es e. (c, es) \<in> set ?m \<and> e \<in> set es \<and> (plen, k, p) = (en_plen e, en_key e, en_prec e))"
    by (auto simp: policy_of_def image_iff) (metis snd_conv)+
  also have "\<dots> \<longleftrightarrow> (\<exists>c e. e \<in> set (mget0 [] ?m c) \<and> (plen, k, p) = (en_plen e, en_key e, en_prec e))"
  proof
    assume "\<exists>c e. e \<in> set (mget0 [] ?m c) \<and> (plen, k, p) = (en_plen e, en_key e, en_prec e)"
    then obtain c e where e: "e \<in> set (mget0 [] ?m c)" "(plen, k, p) = (en_plen e, en_key e, en_prec e)" by blast
    then have "(c, mget0 [] ?m c) \<in> set ?m" using mget_in [of ?m c] by (auto simp: mget0_def split: option.splits)
    with e show "\<exists>c es e. (c, es) \<in> set ?m \<and> e \<in> set es \<and> (plen, k, p) = (en_plen e, en_key e, en_prec e)" by blast
  qed (use bucket in blast)
  finally show ?thesis using cls unfolding en_matches_def by auto
qed

text \<open>The longest match is the offered match of highest precedence.\<close>

lemma policy_lpm_best:
  assumes "\<And>r. distinct (rule_targets classes r)"
  shows "case policy_lpm (policy_of classes rrs) key of
      None \<Rightarrow> \<forall>x \<in> offered classes (pk_class key) rrs. \<not> en_matches x key
    | Some p \<Rightarrow> (\<exists>z \<in> offered classes (pk_class key) rrs. en_matches z key \<and> en_prec z = p)
        \<and> (\<forall>x \<in> offered classes (pk_class key) rrs. en_matches x key \<longrightarrow> en_prec x \<le> p)"
proof -
  let ?b = "mget0 [] (fold (insert_rule classes) rrs []) (pk_class key)"
  let ?ms = "filter (\<lambda>(plen, k, _). prefix_match (pol_key_bytes k) (pol_key_bytes key) plen) (policy_of classes rrs)"
  note shadow = buckets_shadowed [OF assms, of "pk_class key" rrs]
  have ms: "t \<in> set ?ms \<longleftrightarrow> (\<exists>e \<in> set ?b. en_matches e key \<and> t = (en_plen e, en_key e, en_prec e))" for t
    using policy_matches [OF assms, of "fst t" "fst (snd t)" "snd (snd t)" rrs key] by (simp add: split_def)
  show ?thesis
  proof (cases "max_by_key (\<lambda>(plen, _, _). plen) ?ms")
    case None
    then have "set ?ms = {}" by (simp add: max_by_key_None)
    then have "\<not> en_matches e key" if "e \<in> set ?b" for e using ms [of "(en_plen e, en_key e, en_prec e)"] that by auto
    then show ?thesis using None pol.kept_match [OF shadow, of _ key] by (auto simp: policy_lpm_def)
  next
    case (Some t)
    note best = max_by_key_Some [OF Some]
    then obtain z where z: "z \<in> set ?b" "en_matches z key" "t = (en_plen z, en_key z, en_prec z)" using ms by blast
    have longest: "en_plen y \<le> en_plen z" if "y \<in> set ?b" "en_matches y key" for y
      using best ms [of "(en_plen y, en_key y, en_prec y)"] that z(3) by fastforce
    have "en_prec x \<le> en_prec z" if "x \<in> offered classes (pk_class key) rrs" "en_matches x key" for x
      using pol.longest_wins [OF shadow z(1,2) longest that] .
    moreover have "z \<in> offered classes (pk_class key) rrs" using shadow z(1) by (auto simp: pol.shadowed_def)
    ultimately show ?thesis using Some z by (auto simp: policy_lpm_def)
  qed
qed
end
