(* ===== verification/Fw_Family.thy ===== *)
theory Fw_Family
  imports Fw_Policy
begin

text \<open>
  One family's two-stage lookup decides as the first matching rule of the list does.
\<close>

unbundle bit_operations_syntax

section \<open>Precedences\<close>

lemma precedence_nat:
  assumes "i < 2 ^ 24"
  shows "unat (fw_precedence (of_nat i) allow) = (2 ^ 24 - 1 - i) * 256 + (if allow then 1 else 255)"
proof -
  define v :: nat where "v = (if allow then 1 else 255)"
  have small: "(of_nat i :: u32) \<le> FW_RANK_MAX"
    using assms by (simp add: word_le_nat_alt FW_RANK_MAX_def unat_of_nat take_bit_nat_eq_self)
  have rank: "FW_RANK_MAX - (of_nat i :: u32) = of_nat (2 ^ 24 - 1 - i)"
    using assms by (simp add: FW_RANK_MAX_def of_nat_diff)
  have verdict: "(ucast (if allow then FW_PREC_ALLOW else FW_PREC_DENY) :: u32) = of_nat v"
    by (simp add: v_def FW_PREC_ALLOW_def FW_PREC_DENY_def)
  have v256: "v < 256" by (simp add: v_def)
  have dis: "\<not> bit (push_bit 8 (of_nat m :: u32)) n \<or> \<not> bit (of_nat v :: u32) n" for m n
  proof (cases "n < 8")
    case False
    then have "(2 :: nat) ^ 8 \<le> 2 ^ n" by (intro power_increasing) auto
    then have "v < 2 ^ n" using v256 by simp
    then have "\<not> bit v n" by (simp add: bit_iff_odd)
    then show ?thesis by (simp add: bit_unsigned_iff bit_of_nat_iff)
  qed (simp add: bit_push_bit_iff)
  have "fw_precedence (of_nat i) allow = push_bit 8 (of_nat (2 ^ 24 - 1 - i)) OR of_nat v"
    using small by (simp add: fw_precedence_def Let_def rank verdict not_less)
  also have "\<dots> = push_bit 8 (of_nat (2 ^ 24 - 1 - i)) + of_nat v"
    by (rule disjunctive_add [symmetric]) (rule dis)
  also have "\<dots> = of_nat ((2 ^ 24 - 1 - i) * 256 + v)"
    by (simp add: push_bit_eq_mult)
  finally have eq: "fw_precedence (of_nat i) allow = of_nat ((2 ^ 24 - 1 - i) * 256 + v)" .
  have "unat (of_nat n :: u32) = n" if "n < 2 ^ 32" for n using that by (simp add: unat_of_nat take_bit_nat_eq_self)
  moreover have "(2 ^ 24 - 1 - i) * 256 + v < 2 ^ 32" using v256 by simp
  ultimately have "unat (fw_precedence (of_nat i) allow) = (2 ^ 24 - 1 - i) * 256 + v" unfolding eq by blast
  then show ?thesis by (simp add: v_def)
qed

lemma precedence_less:
  assumes "i < j" and "j < 2 ^ 24"
  shows "fw_precedence (of_nat j) b < fw_precedence (of_nat i) a"
proof -
  have "(2 ^ 24 - 1 - j) + 1 \<le> (2 ^ 24 - 1 - i :: nat)" using assms by simp
  then have "((2 ^ 24 - 1 - j) + 1) * 256 \<le> (2 ^ 24 - 1 - i) * (256 :: nat)" by (intro mult_le_mono1)
  then show ?thesis using assms by (auto simp: word_less_nat_alt precedence_nat)
qed

lemma precedence_allows: "i < 2 ^ 24 \<Longrightarrow> fw_precedence_allows (fw_precedence (of_nat i) allow) \<longleftrightarrow> allow"
proof -
  assume "i < 2 ^ 24"
  have "unat (ucast (p AND 0xff) :: byte) = unat p mod 256" for p :: u32
  proof -
    have "p AND 0xff = take_bit 8 p" by (simp add: take_bit_eq_mask mask_eq_exp_minus_1)
    then have "unat (ucast (p AND 0xff) :: byte) = take_bit 8 (take_bit 8 (unat p))"
      by (simp only: unsigned_ucast_eq unsigned_take_bit_eq) simp
    then show ?thesis by (simp add: take_bit_eq_mod)
  qed
  then have "unat (ucast (fw_precedence (of_nat i) allow AND 0xff) :: byte) = (if allow then 1 else 255)"
    using \<open>i < 2 ^ 24\<close> by (simp add: precedence_nat)
  then show ?thesis
    unfolding fw_precedence_allows_def by (auto simp: word_unat_eq_iff FW_PREC_ALLOW_def)
qed

section \<open>Classes\<close>

lemma sorted_remdups_adj_distinct: "sorted xs \<Longrightarrow> distinct (remdups_adj xs)"
  by (induction xs rule: remdups_adj.induct) (auto simp: less_le)

lemma peer_prefixes_distinct: "distinct (peer_prefixes rules)"
proof -
  let ?f = "\<lambda>(a, l). (l, a)" and ?xs = "sort_key (\<lambda>(a, l). (l, a)) (map (\<lambda>r. (pa_peer r, pa_len r)) (filter (\<lambda>r. pa_len r > 0) rules))"
  have inj: "inj ?f" by (auto simp: inj_on_def)
  have "distinct (remdups_adj (map ?f ?xs))" by (rule sorted_remdups_adj_distinct) simp
  then show ?thesis by (simp add: peer_prefixes_def remdups_adj_map_injective [OF inj] distinct_map)
qed

lemma set_peer_prefixes: "set (peer_prefixes rules) = (\<lambda>r. (pa_peer r, pa_len r)) ` {r \<in> set rules. pa_len r > 0}"
  by (auto simp: peer_prefixes_def)

text \<open>Class ids are distinct and never 0.\<close>

lemma class_ids:
  assumes "length ps \<le> SCOPE_MAX_CLASSES"
  shows "distinct (map (\<lambda>(_, _, c). c) (number_classes ps))" and "(a, l, c) \<in> set (number_classes ps) \<Longrightarrow> c \<noteq> FW_CLASS_ANY"
proof -
  have nat: "unat (of_nat i + 1 :: u32) = Suc i" if "i < length ps" for i
  proof -
    have "of_nat i + 1 = (of_nat (Suc i) :: u32)" by simp
    moreover have "Suc i < 2 ^ 32" using that assms by (simp add: SCOPE_MAX_CLASSES_def)
    ultimately show ?thesis by (simp only: unat_of_nat) (simp add: take_bit_nat_eq_self)
  qed
  have "map (\<lambda>(_, _, c). c) (number_classes ps) = map (\<lambda>i. of_nat i + 1) [0..<length ps]"
  proof -
    have "map (\<lambda>x. of_nat (fst x) + 1 :: u32) (enumerate 0 ps) = map (\<lambda>i. of_nat i + 1) (map fst (enumerate 0 ps))"
      by (simp only: map_map comp_def)
    then show ?thesis by (simp add: number_classes_def comp_def split_def)
  qed
  moreover have "inj_on (\<lambda>i. of_nat i + 1 :: u32) {0..<length ps}"
    by (rule inj_onI) (metis nat atLeastLessThan_iff nat.inject)
  ultimately show "distinct (map (\<lambda>(_, _, c). c) (number_classes ps))" by (simp add: distinct_map)
  show "c \<noteq> FW_CLASS_ANY" if "(a, l, c) \<in> set (number_classes ps)"
    using that nat by (force simp: number_classes_def FW_CLASS_ANY_def in_set_enumerate_eq)
qed

lemma number_classes_iff: "(\<exists>c. (a, l, c) \<in> set (number_classes ps)) \<longleftrightarrow> (a, l) \<in> set ps"
proof -
  have "(\<exists>c. (a, l, c) \<in> set (number_classes ps)) \<longleftrightarrow> (\<exists>i. (i, a, l) \<in> set (enumerate 0 ps))"
    by (force simp: number_classes_def)
  also have "\<dots> \<longleftrightarrow> (a, l) \<in> set ps"
    by (simp add: in_set_enumerate_eq) (auto simp: in_set_conv_nth)
  finally show ?thesis .
qed

lemma rule_targets_distinct:
  assumes "length ps \<le> SCOPE_MAX_CLASSES"
  shows "distinct (rule_targets (number_classes ps) r)"
  using class_ids(1) [OF assms] by (simp add: rule_targets_def distinct_map inj_on_def split_def)

text \<open>
  The class of a peer: a rule with a peer prefix covers the peer exactly when the peer has a class
  and the rule is compiled into that class.
\<close>

lemma peer_class:
  assumes "\<forall>r \<in> set rules. rule_ok n r" and "length peer = n" and "r \<in> set rules" and "0 < pa_len r"
    and "length (peer_prefixes rules) \<le> SCOPE_MAX_CLASSES"
  defines "classes \<equiv> number_classes (peer_prefixes rules)"
  shows "peer_hit peer r \<longleftrightarrow> (\<exists>c. class_lpm classes peer = Some c \<and> c \<in> set (rule_targets classes r))"
proof -
  let ?ms = "filter (\<lambda>(a, len, _). prefix_match a peer len) classes"
  have wf: "length a = n \<and> l \<le> 8 * n \<and> masked a l = a" if "(a, l, c) \<in> set classes" for a l c
    using that assms(1) number_classes_iff [of a l "peer_prefixes rules"] by (auto simp: classes_def set_peer_prefixes rule_ok_def)
  have pm: "prefix_match a peer l \<longleftrightarrow> take l (bits_of a) = take l (bits_of peer)" if "(a, l, c) \<in> set classes" for a l c
    using wf [OF that] assms(2) by (simp add: prefix_match_bits)
  have r: "length (pa_peer r) = n" "pa_len r \<le> 8 * n" using assms(1,3) by (auto simp: rule_ok_def)
  have target: "c \<in> set (rule_targets classes r) \<longleftrightarrow> (\<exists>a l. (a, l, c) \<in> set classes \<and> pa_len r \<le> l
      \<and> take (pa_len r) (bits_of a) = take (pa_len r) (bits_of (pa_peer r)))" for c
  proof -
    have "bits_match a (pa_peer r) (pa_len r) \<longleftrightarrow> take (pa_len r) (bits_of a) = take (pa_len r) (bits_of (pa_peer r))"
      if "(a, l, c) \<in> set classes" for a l c
      using wf [OF that] r by (simp add: bits_match_bits)
    moreover have "c \<in> set (rule_targets classes r) \<longleftrightarrow>
        (\<exists>a l. (a, l, c) \<in> set classes \<and> pa_len r \<le> l \<and> bits_match a (pa_peer r) (pa_len r))"
      using assms(4) by (force simp: rule_targets_def)
    ultimately show ?thesis by blast
  qed
  show ?thesis
  proof
    assume hit: "peer_hit peer r"
    have "(pa_peer r, pa_len r) \<in> set (peer_prefixes rules)" using assms(3,4) by (auto simp: set_peer_prefixes)
    then obtain c0 where c0: "(pa_peer r, pa_len r, c0) \<in> set classes" 
      using number_classes_iff [of "pa_peer r" "pa_len r" "peer_prefixes rules"] unfolding classes_def by blast
    then have mem: "(pa_peer r, pa_len r, c0) \<in> set ?ms" using hit pm [OF c0] by (simp add: peer_hit_def)
    then obtain t where t: "max_by_key (\<lambda>(_, len, _). len) ?ms = Some t" by (metis empty_iff empty_set max_by_key_None option.exhaust)
    obtain a l c where tt: "t = (a, l, c)" by (metis prod_cases3)
    have in_t: "(a, l, c) \<in> set classes" "prefix_match a peer l" and long: "pa_len r \<le> l"
      using max_by_key_Some [OF t] mem by (auto simp: tt)
    have "take (pa_len r) (bits_of a) = take (pa_len r) (bits_of (pa_peer r))"
      using pm [OF in_t(1)] in_t(2) take_shorter [OF long, of "bits_of a" "bits_of peer"] hit by (simp add: peer_hit_def)
    then show "\<exists>c. class_lpm classes peer = Some c \<and> c \<in> set (rule_targets classes r)"
      using target in_t(1) long by (auto simp: class_lpm_def t tt)
  next
    assume "\<exists>c. class_lpm classes peer = Some c \<and> c \<in> set (rule_targets classes r)"
    then obtain c where c: "class_lpm classes peer = Some c" "c \<in> set (rule_targets classes r)" by blast
    then obtain t where t: "max_by_key (\<lambda>(_, len, _). len) ?ms = Some t" "snd (snd t) = c" by (auto simp: class_lpm_def)
    obtain a l where tt: "t = (a, l, c)" using t(2) by (metis prod.collapse)
    have in_t: "(a, l, c) \<in> set classes" "prefix_match a peer l" using max_by_key_Some [OF t(1)] by (auto simp: tt)
    from c(2) obtain a' l' where a': "(a', l', c) \<in> set classes" "pa_len r \<le> l'"
      "take (pa_len r) (bits_of a') = take (pa_len r) (bits_of (pa_peer r))" using target by blast
    have "(a', l') = (a, l)"
    proof -
      have "inj_on (\<lambda>(_, _, c). c) (set classes)" using class_ids(1) [OF assms(5)] by (simp add: classes_def distinct_map)
      from inj_onD [OF this, of "(a', l', c)" "(a, l, c)"] show ?thesis using a'(1) in_t(1) by simp
    qed
    then show "peer_hit peer r"
      using a' in_t pm [OF in_t(1)] take_shorter [of "pa_len r" l "bits_of a" "bits_of peer"] by (simp add: peer_hit_def)
  qed
qed

lemma class_lpm_nonzero:
  assumes "length ps \<le> SCOPE_MAX_CLASSES" and "class_lpm (number_classes ps) peer = Some c"
  shows "c \<noteq> FW_CLASS_ANY"
proof -
  obtain t where t: "max_by_key (\<lambda>(_, len, _). len) (filter (\<lambda>(a, len, _). prefix_match a peer len) (number_classes ps)) = Some t" "snd (snd t) = c"
    using assms(2) by (auto simp: class_lpm_def)
  then have "(fst t, fst (snd t), c) \<in> set (number_classes ps)" using max_by_key_Some [OF t(1)] by auto
  then show ?thesis using class_ids(2) [OF assms(1)] by blast
qed

section \<open>The verdict\<close>

text \<open>The two probes of the classifier over one family's tries.\<close>

definition probe :: "ScopeTries \<Rightarrow> byte list \<Rightarrow> byte \<Rightarrow> byte \<times> byte \<Rightarrow> byte" where
  "probe t peer proto port = fw_probe_verdict
     (case class_lpm (st_classes t) peer of
        Some c \<Rightarrow> if c \<noteq> FW_CLASS_ANY then policy_lpm (st_policy t) (FwPolKey_new c proto port) else None
      | None \<Rightarrow> None)
     (policy_lpm (st_policy t) (FwPolKey_new FW_CLASS_ANY proto port))"

definition rule_prec :: "nat \<times> Parsed \<Rightarrow> u32" where
  "rule_prec rr = fw_precedence (of_nat (fst rr)) (pa_allow (snd rr))"

text \<open>The best of a set of ranked rules, as a probe reports it.\<close>

definition best_of :: "(nat \<times> Parsed) set \<Rightarrow> u32 option \<Rightarrow> bool" where
  "best_of R p = (case p of
     None \<Rightarrow> R = {}
   | Some v \<Rightarrow> (\<exists>rr \<in> R. rule_prec rr = v) \<and> (\<forall>rr \<in> R. rule_prec rr \<le> v))"

lemma policy_best:
  assumes "\<And>r. distinct (rule_targets classes r)"
  shows "best_of {rr \<in> set rrs. cls \<in> set (rule_targets classes (snd rr)) \<and> proto_hit proto port (snd rr)}
     (policy_lpm (policy_of classes rrs) (FwPolKey_new cls proto port))"
proof -
  let ?key = "FwPolKey_new cls proto port" and ?R = "{rr \<in> set rrs. cls \<in> set (rule_targets classes (snd rr)) \<and> proto_hit proto port (snd rr)}"
  have cls: "pk_class ?key = cls" by (simp add: FwPolKey_new_def)
  have to: "rr \<in> ?R \<Longrightarrow> \<exists>x \<in> offered classes cls rrs. en_matches x ?key \<and> en_prec x = rule_prec rr" for rr
    using rule_entries_match [of cls rr proto port] rule_entries_ok(4) [of _ cls rr]
    by (auto simp: offered_def rule_prec_def)
  have from_offer: "\<exists>rr \<in> ?R. en_prec x = rule_prec rr" if x: "x \<in> offered classes cls rrs" "en_matches x ?key" for x
  proof -
    from x(1) obtain rr where rr: "rr \<in> set rrs" "cls \<in> set (rule_targets classes (snd rr))" "x \<in> set (rule_entries cls rr)"
      by (auto simp: offered_def split: if_splits)
    then have "proto_hit proto port (snd rr)" using x(2) rule_entries_match [of cls rr proto port] by blast
    with rr show ?thesis using rule_entries_ok(4) [OF rr(3)] by (intro bexI [of _ rr]) (simp_all add: rule_prec_def)
  qed
  note spec = policy_lpm_best [where rrs = rrs and key = ?key, OF assms, unfolded cls]
  show ?thesis
  proof (cases "policy_lpm (policy_of classes rrs) ?key")
    case None
    have "rr \<notin> ?R" for rr using spec to [of rr] unfolding None by auto
    then have "?R = {}" by blast
    then show ?thesis by (simp add: None best_of_def)
  next
    case (Some v)
    obtain z where "z \<in> offered classes cls rrs" "en_matches z ?key" "en_prec z = v" using spec unfolding Some by auto
    from from_offer [OF this(1,2)] this(3) have "\<exists>rr \<in> ?R. rule_prec rr = v" by auto
    moreover have "rule_prec rr \<le> v" if "rr \<in> ?R" for rr using to [OF that] spec unfolding Some by auto
    ultimately show ?thesis by (simp only: Some best_of_def option.case) blast
  qed
qed

lemma best_of_max:
  assumes "best_of R p" and "best_of S q"
  shows "best_of (R \<union> S) (case (p, q) of (Some a, Some b) \<Rightarrow> Some (if a > b then a else b) | (a, None) \<Rightarrow> a | (None, b) \<Rightarrow> b)"
  using assms by (auto simp: best_of_def split: option.splits)

text \<open>The best rule is the first that matches.\<close>

lemma best_of_first:
  assumes "best_of {rr \<in> set (enumerate 0 rules). P (snd rr)} p" and "length rules \<le> 2 ^ 24"
  shows "(case p of Some v \<Rightarrow> fw_precedence_allows v | None \<Rightarrow> False) \<longleftrightarrow>
    (case find P rules of Some r \<Rightarrow> pa_allow r | None \<Rightarrow> False)"
proof (cases "find P rules")
  case None
  then have "\<not> P r" if "r \<in> set rules" for r using that by (auto simp: find_None_iff)
  then have "{rr \<in> set (enumerate 0 rules). P (snd rr)} = {}" by (auto simp: in_set_enumerate_eq)
  then show ?thesis using assms(1) None by (auto simp: best_of_def split: option.splits)
next
  case (Some r)
  then obtain i where i: "i < length rules" "P (rules ! i)" "r = rules ! i" "\<And>j. j < i \<Longrightarrow> \<not> P (rules ! j)"
    by (auto simp: find_Some_iff)
  let ?R = "{rr \<in> set (enumerate 0 rules). P (snd rr)}"
  have mem: "(i, r) \<in> ?R" using i by (simp add: in_set_enumerate_eq)
  then obtain v where v: "p = Some v" using assms(1) by (auto simp: best_of_def split: option.splits)
  obtain rr where rr: "rr \<in> ?R" "rule_prec rr = v" using assms(1) by (auto simp: best_of_def v)
  have le: "rule_prec (i, r) \<le> v" using assms(1) mem by (auto simp: best_of_def v)
  obtain j r' where rr_eq: "rr = (j, r')" by fastforce
  have j: "j < length rules" "r' = rules ! j" "P (rules ! j)" using rr(1) by (auto simp: rr_eq in_set_enumerate_eq)
  have "j = i"
  proof (rule ccontr)
    assume "j \<noteq> i"
    then have "i < j" using i(4) j(3) by (meson linorder_neqE_nat)
    then have "rule_prec (j, r') < rule_prec (i, r)"
      using j(1) assms(2) by (simp add: rule_prec_def precedence_less)
    with le rr(2) show False by (simp add: rr_eq)
  qed
  then have "v = fw_precedence (of_nat i) (pa_allow r)" using rr(2) rr_eq j i(3) by (simp add: rule_prec_def)
  then show ?thesis using v Some i(1) assms(2) by (simp add: precedence_allows)
qed

lemma compile_family_eq:
  assumes "compile_family family rules = Inr t"
  shows "st_classes t = number_classes (peer_prefixes rules)"
    and "st_policy t = policy_of (number_classes (peer_prefixes rules)) (enumerate 0 rules)"
    and "length (peer_prefixes rules) \<le> SCOPE_MAX_CLASSES"
  using assms by (auto simp: compile_family_def Let_def policy_of_def split: if_splits)

lemma family_correct:
  assumes "compile_family family rules = Inr t" and "\<forall>r \<in> set rules. rule_ok n r" and "length peer = n" and "length rules \<le> 2 ^ 24"
  shows "probe t peer proto port = FW_ACTION_ACCEPT \<longleftrightarrow>
    (case find (\<lambda>r. peer_hit peer r \<and> proto_hit proto port r) rules of Some r \<Rightarrow> pa_allow r | None \<Rightarrow> False)"
proof -
  note c = compile_family_eq [OF assms(1)]
  let ?cl = "number_classes (peer_prefixes rules)" and ?rrs = "enumerate 0 rules"
  let ?spec = "case class_lpm ?cl peer of
        Some c \<Rightarrow> if c \<noteq> FW_CLASS_ANY then policy_lpm (policy_of ?cl ?rrs) (FwPolKey_new c proto port) else None
      | None \<Rightarrow> None"
  let ?any = "policy_lpm (policy_of ?cl ?rrs) (FwPolKey_new FW_CLASS_ANY proto port)"
  let ?A = "{rr \<in> set ?rrs. 0 < pa_len (snd rr) \<and> peer_hit peer (snd rr) \<and> proto_hit proto port (snd rr)}"
  let ?B = "{rr \<in> set ?rrs. pa_len (snd rr) = 0 \<and> proto_hit proto port (snd rr)}"
  have dist: "distinct (rule_targets ?cl r)" for r using rule_targets_distinct [OF c(3)] .
  have mem: "snd rr \<in> set rules" if "rr \<in> set ?rrs" for rr using that by (metis enumerate_eq_zip in_set_zipE prod.collapse)
  have zero: "FW_CLASS_ANY \<in> set (rule_targets ?cl r) \<longleftrightarrow> pa_len r = 0" for r
  proof (cases "pa_len r = 0")
    case False
    have "cc \<noteq> FW_CLASS_ANY" if "cc \<in> (\<lambda>(_, _, cc). cc) ` set ?cl" for cc
      using that class_ids(2) [OF c(3)] by auto
    moreover have "set (rule_targets ?cl r) \<subseteq> (\<lambda>(_, _, cc). cc) ` set ?cl" using False unfolding rule_targets_def by (force simp: image_iff)
    ultimately show ?thesis using False by blast
  qed (simp add: rule_targets_def)
  have "best_of ?B ?any"
    using policy_best [OF dist, where cls = FW_CLASS_ANY and rrs = ?rrs and proto = proto and port = port] by (simp add: zero)
  moreover have "best_of ?A ?spec"
  proof (cases "class_lpm ?cl peer")
    case None
    then have "?A = {}" using peer_class [OF assms(2,3) _ _ c(3)] mem by auto
    then show ?thesis by (simp add: None best_of_def)
  next
    case (Some cc)
    have nz: "cc \<noteq> FW_CLASS_ANY" using class_lpm_nonzero [OF c(3) Some] .
    have "cc \<in> set (rule_targets ?cl (snd rr)) \<longleftrightarrow> 0 < pa_len (snd rr) \<and> peer_hit peer (snd rr)" if "rr \<in> set ?rrs" for rr
    proof (cases "pa_len (snd rr) = 0")
      case True
      then show ?thesis using nz by (simp add: rule_targets_def)
    next
      case False
      then show ?thesis using peer_class [OF assms(2,3) mem [OF that] _ c(3)] Some by simp
    qed
    then have "?A = {rr \<in> set ?rrs. cc \<in> set (rule_targets ?cl (snd rr)) \<and> proto_hit proto port (snd rr)}" by blast
    then show ?thesis using policy_best [OF dist, where cls = cc and rrs = ?rrs and proto = proto and port = port] nz
      by (simp add: Some)
  qed
  ultimately have "best_of (?A \<union> ?B) (case (?spec, ?any) of (Some a, Some b) \<Rightarrow> Some (if a > b then a else b) | (a, None) \<Rightarrow> a | (None, b) \<Rightarrow> b)"
    by (rule best_of_max [rotated])
  moreover have "?A \<union> ?B = {rr \<in> set ?rrs. peer_hit peer (snd rr) \<and> proto_hit proto port (snd rr)}"
    by (auto simp: peer_hit_def)
  ultimately have "(case (case (?spec, ?any) of (Some a, Some b) \<Rightarrow> Some (if a > b then a else b) | (a, None) \<Rightarrow> a | (None, b) \<Rightarrow> b) of
       Some v \<Rightarrow> fw_precedence_allows v | None \<Rightarrow> False) \<longleftrightarrow>
    (case find (\<lambda>r. peer_hit peer r \<and> proto_hit proto port r) rules of Some r \<Rightarrow> pa_allow r | None \<Rightarrow> False)"
    using best_of_first [where P = "\<lambda>r. peer_hit peer r \<and> proto_hit proto port r", OF _ assms(4)] by simp
  moreover have "probe t peer proto port = FW_ACTION_ACCEPT \<longleftrightarrow>
    (case (case (?spec, ?any) of (Some a, Some b) \<Rightarrow> Some (if a > b then a else b) | (a, None) \<Rightarrow> a | (None, b) \<Rightarrow> b) of
       Some v \<Rightarrow> fw_precedence_allows v | None \<Rightarrow> False)"
    unfolding probe_def c(1,2) fw_probe_verdict_def Let_def
    by (simp add: FW_ACTION_ACCEPT_def FW_ACTION_DROP_def split: option.split)
  ultimately show ?thesis by simp
qed

end
