(* ===== verification/Fw_Correct.thy ===== *)
theory Fw_Correct
  imports Fw_Family
begin

text \<open>
  Reading a rule keeps its meaning, so the compiled scope of a rule list decides every packet as the
  first-match reference evaluator does.
\<close>

unbundle bit_operations_syntax

section \<open>Parsing is faithful\<close>

definition rule_wf :: "nat \<Rightarrow> FwRule \<Rightarrow> bool" where
  "rule_wf n r \<longleftrightarrow> length (fr_src_ip r) = n \<and> length (fr_src_mask r) = n \<and> length (fr_dst_ip r) = n \<and> length (fr_dst_mask r) = n"

definition rule_matches :: "nat \<Rightarrow> byte \<Rightarrow> FwRule \<Rightarrow> PacketSelectors \<Rightarrow> bool" where
  "rule_matches n icmp_proto r s \<longleftrightarrow> fr_enabled r \<noteq> 0 \<and> (fr_proto r = 0 \<or> fr_proto r = ps_proto s)
     \<and> addr_matches n r s \<and> l4_matches icmp_proto r s"

lemma fw_rule_matches_eq: "fw_rule_matches r s \<longleftrightarrow> rule_matches 4 1 r s" "fw_rule6_matches r s \<longleftrightarrow> rule_matches 16 58 r s"
  by (auto simp: fw_rule_matches_def fw_rule6_matches_def rule_matches_def)

definition peer_of :: "byte \<Rightarrow> PacketSelectors \<Rightarrow> byte list" where
  "peer_of dir s = (if dir = FW_DIR_EGRESS then ps_dst s else ps_src s)"

definition port_of :: "byte \<Rightarrow> PacketSelectors \<Rightarrow> byte \<times> byte" where
  "port_of icmp_proto s = fw_pol_suffix (ps_proto s) (ps_dport s) (ps_icmp_type s, ps_icmp_code s) icmp_proto"

text \<open>The selectors of a packet: addresses of the family's width, and a type and code that were read from bytes.\<close>

definition selectors_ok :: "nat \<Rightarrow> byte \<Rightarrow> PacketSelectors \<Rightarrow> bool" where
  "selectors_ok n icmp_proto s \<longleftrightarrow> length (ps_src s) = n \<and> length (ps_dst s) = n
     \<and> (ps_proto s = icmp_proto \<longrightarrow> ps_icmp_type s \<le> 255 \<and> ps_icmp_code s \<le> 255)"

definition icmp_ok :: "byte \<Rightarrow> bool" where
  "icmp_ok p \<longleftrightarrow> p \<noteq> 0 \<and> p \<noteq> 6 \<and> p \<noteq> 17"

lemma from_be_to_be: "from_be_bytes (to_be_bytes v ! 0) (to_be_bytes v ! 1) = v"
  by (rule bit_word_eqI) (auto simp: from_be_bytes_def to_be_bytes_def bit_simps)

lemma ucast_byte_eq: "a \<le> 255 \<Longrightarrow> b \<le> 255 \<Longrightarrow> (ucast (a :: u16) :: byte) = ucast b \<longleftrightarrow> a = b"
proof -
  assume ab: "a \<le> 255" "b \<le> 255"
  have "unat (ucast w :: byte) = unat w" if "w \<le> 255" for w :: u16
    using that by (simp add: unsigned_ucast_eq word_le_nat_alt take_bit_nat_eq_self)
  with ab show ?thesis by (metis word_unat_eq_iff)
qed

lemma u16_max: "w \<le> (65535 :: u16)"
  using unsigned_less [of w, where 'a = nat] by (simp add: word_le_nat_alt)

lemma parse_selector_sound:
  assumes "parse_selector r icmp_proto = Inr sel" and "icmp_ok icmp_proto"
    and "fr_src_port_min r = 0" and "fr_src_port_max r = 65535" and "selectors_ok n icmp_proto s"
  shows "(fr_proto r = 0 \<or> fr_proto r = ps_proto s) \<and> l4_matches icmp_proto r s \<longleftrightarrow>
    (case sel of None \<Rightarrow> False | Some x \<Rightarrow> fr_proto r = 0 \<or> fr_proto r = ps_proto s \<and> sel_matches x (port_of icmp_proto s))"
proof -
  note [simp] = u16_max assms(3,4)
  consider (ports) "fr_proto r = 6 \<or> fr_proto r = 17" | (icmp) "fr_proto r = icmp_proto" | (any) "fr_proto r = 0"
    | (other) "fr_proto r \<noteq> 6" "fr_proto r \<noteq> 17" "fr_proto r \<noteq> icmp_proto" "fr_proto r \<noteq> 0" by blast
  then show ?thesis
  proof cases
    case ports
    then have "fr_proto r \<noteq> 0" "fr_proto r \<noteq> icmp_proto" using assms(2) by (auto simp: icmp_ok_def)
    moreover have "port_of icmp_proto s = (to_be_bytes (ps_dport s) ! 0, to_be_bytes (ps_dport s) ! 1)" if "ps_proto s = fr_proto r"
      using that ports calculation by (auto simp: port_of_def fw_pol_suffix_def IPPROTO_TCP_def IPPROTO_UDP_def)
    moreover have "l4_matches icmp_proto r s \<longleftrightarrow> fr_dst_port_min r \<le> ps_dport s \<and> ps_dport s \<le> fr_dst_port_max r" if "ps_proto s = fr_proto r"
      using that ports by (auto simp: l4_matches_def)
    moreover have "\<not> (fr_dst_port_min r \<le> ps_dport s \<and> ps_dport s \<le> fr_dst_port_max r)" if "fr_dst_port_min r > fr_dst_port_max r"
      using that by auto
    ultimately show ?thesis
      using assms(1) ports by (auto simp: parse_selector_def Let_def from_be_to_be [simplified] split: if_splits)
  next
    case icmp
    then have not: "fr_proto r \<noteq> 0" "fr_proto r \<noteq> 6" "fr_proto r \<noteq> 17" using assms(2) by (auto simp: icmp_ok_def)
    have port: "port_of icmp_proto s = (ucast (ps_icmp_type s), ucast (ps_icmp_code s))" if "ps_proto s = icmp_proto"
      using that by (simp add: port_of_def fw_pol_suffix_def)
    have small: "ps_icmp_type s \<le> 255" "ps_icmp_code s \<le> 255" if "ps_proto s = icmp_proto"
      using that assms(5) by (auto simp: selectors_ok_def)
    have l4: "l4_matches icmp_proto r s \<longleftrightarrow> (fr_icmp_type r = 0xffff \<or> ps_icmp_type s = fr_icmp_type r)
        \<and> (fr_icmp_code r = 0xffff \<or> ps_icmp_code s = fr_icmp_code r)" if "ps_proto s = icmp_proto"
      using that icmp not by (simp add: l4_matches_def)
    show ?thesis
    proof (cases "ps_proto s = icmp_proto")
      case True
      show ?thesis
        using assms(1) icmp not port [OF True] small [OF True] l4 [OF True] True
        by (auto simp: parse_selector_def Let_def ucast_byte_eq not_less split: if_splits)
    next
      case False
      then show ?thesis using icmp not by (auto split: option.split)
    qed
  next
    case any
    then have "fr_dst_port_min r = 0" "fr_dst_port_max r = 65535" "fr_icmp_type r = 0xffff" "fr_icmp_code r = 0xffff" "sel = Some SelAny"
      using assms(1,2) by (auto simp: parse_selector_def Let_def icmp_ok_def split: if_splits)
    with any show ?thesis by (simp add: l4_matches_def)
  next
    case other
    then have "sel = Some SelAny" using assms(1) by (simp add: parse_selector_def Let_def)
    with other show ?thesis by (auto simp: l4_matches_def)
  qed
qed

lemma addr_side:
  assumes "length msk = n" and "length ip = n" and "length a = n"
  shows "list_all (\<lambda>b. b = 0) msk \<Longrightarrow> \<forall>i < n. a ! i AND msk ! i = ip ! i AND msk ! i"
    and "prefix_len msk = Some l \<Longrightarrow> (\<forall>i < n. a ! i AND msk ! i = ip ! i AND msk ! i) \<longleftrightarrow> take l (bits_of (masked ip l)) = take l (bits_of a)"
proof -
  show "list_all (\<lambda>b. b = 0) msk \<Longrightarrow> \<forall>i < n. a ! i AND msk ! i = ip ! i AND msk ! i"
    using assms(1) by (simp add: list_all_length)
  show "prefix_len msk = Some l \<Longrightarrow> (\<forall>i < n. a ! i AND msk ! i = ip ! i AND msk ! i) \<longleftrightarrow> take l (bits_of (masked ip l)) = take l (bits_of a)"
    using prefix_len_bits [of msk l n a ip] assms by (auto simp: masked_bits)
qed

lemma parse_sound:
  assumes "parse r dir icmp_proto = Inr p" and "rule_wf n r" and "icmp_ok icmp_proto" and "selectors_ok n icmp_proto s"
  shows "rule_matches n icmp_proto r s \<longleftrightarrow>
    (case p of None \<Rightarrow> False | Some q \<Rightarrow> peer_hit (peer_of dir s) q \<and> proto_hit (ps_proto s) (port_of icmp_proto s) q)"
proof (cases "fr_enabled r = 0")
  case True
  then show ?thesis using assms(1) by (auto simp: parse_def rule_matches_def)
next
  case False
  define peer_ip where "peer_ip = (if dir = FW_DIR_EGRESS then fr_dst_ip r else fr_src_ip r)"
  define peer_mask where "peer_mask = (if dir = FW_DIR_EGRESS then fr_dst_mask r else fr_src_mask r)"
  define local_ip where "local_ip = (if dir = FW_DIR_EGRESS then fr_src_ip r else fr_dst_ip r)"
  define local_mask where "local_mask = (if dir = FW_DIR_EGRESS then fr_src_mask r else fr_dst_mask r)"
  define local where "local = (if dir = FW_DIR_EGRESS then ps_src s else ps_dst s)"
  have lens: "length peer_ip = n" "length peer_mask = n" "length local_ip = n" "length local_mask = n" "length local = n" "length (peer_of dir s) = n"
    using assms(2,4) by (auto simp: peer_ip_def peer_mask_def local_ip_def local_mask_def local_def rule_wf_def selectors_ok_def peer_of_def)
  have addr: "addr_matches n r s \<longleftrightarrow> (\<forall>i < n. peer_of dir s ! i AND peer_mask ! i = peer_ip ! i AND peer_mask ! i)
      \<and> (\<forall>i < n. local ! i AND local_mask ! i = local_ip ! i AND local_mask ! i)"
    by (auto simp: addr_matches_def list_all_iff peer_of_def peer_ip_def peer_mask_def local_ip_def local_mask_def local_def)
  from assms(1) False obtain l sel where l: "list_all (\<lambda>b. b = 0) local_mask" "fr_src_port_min r = 0" "fr_src_port_max r = 65535"
      "prefix_len peer_mask = Some l" "parse_selector r icmp_proto = Inr sel"
      "p = map_option (\<lambda>x. \<lparr>pa_peer = masked peer_ip l, pa_len = l, pa_proto = fr_proto r, pa_sel = x, pa_allow = (fr_action r = FW_ACTION_ACCEPT)\<rparr>) sel"
    by (auto simp: parse_def peer_ip_def peer_mask_def local_mask_def list_ex_iff list_all_iff split: if_splits option.splits sum.splits)
  have "addr_matches n r s \<longleftrightarrow> take l (bits_of (masked peer_ip l)) = take l (bits_of (peer_of dir s))"
    unfolding addr using addr_side(1) [OF lens(4,3,5) l(1)] addr_side(2) [OF lens(2,1,6) l(4)] by simp
  with parse_selector_sound [OF l(5) assms(3) l(2,3) assms(4)] False show ?thesis
    by (cases sel) (auto simp: l(6) rule_matches_def peer_hit_def proto_hit_def)
qed

lemma parse_ok:
  assumes "parse r dir icmp_proto = Inr (Some q)" and "rule_wf n r"
  shows "rule_ok n q \<and> (pa_allow q \<longleftrightarrow> fr_action r = FW_ACTION_ACCEPT)"
  using assms prefix_len_mask(1) [of "fr_src_mask r"] prefix_len_mask(1) [of "fr_dst_mask r"]
  by (auto simp: parse_def rule_wf_def rule_ok_def split: if_splits option.splits sum.splits)

text \<open>The first match of the list is the first match of its parsed rules.\<close>

lemma parse_all_first:
  assumes "icmp_ok icmp_proto" and "selectors_ok n icmp_proto s"
  shows "parse_all dir icmp_proto rs = Inr ps \<Longrightarrow> \<forall>r \<in> set rs. rule_wf n r \<Longrightarrow>
    (\<forall>q \<in> set ps. rule_ok n q) \<and> length ps \<le> length rs \<and>
    ((case find (\<lambda>q. peer_hit (peer_of dir s) q \<and> proto_hit (ps_proto s) (port_of icmp_proto s) q) ps of Some q \<Rightarrow> pa_allow q | None \<Rightarrow> False) \<longleftrightarrow>
     (case find (\<lambda>r. fr_direction r = dir \<and> rule_matches n icmp_proto r s) rs of Some r \<Rightarrow> fr_action r = FW_ACTION_ACCEPT | None \<Rightarrow> False))"
proof (induction rs arbitrary: ps)
  case (Cons r rs)
  show ?case
  proof (cases "fr_direction r = dir")
    case True
    then obtain p ps' where p: "parse r dir icmp_proto = Inr p" "parse_all dir icmp_proto rs = Inr ps'"
      "ps = (case p of None \<Rightarrow> ps' | Some x \<Rightarrow> x # ps')"
      using Cons.prems(1) by (auto split: sum.splits)
    show ?thesis
    proof (cases p)
      case None
      then show ?thesis using True p Cons.IH [OF p(2)] Cons.prems(2) parse_sound [OF p(1) _ assms] by auto
    next
      case (Some q)
      have "rule_wf n r" using Cons.prems(2) by simp
      note q = parse_ok [OF p(1) [unfolded Some] this] parse_sound [OF p(1) this assms]
      show ?thesis using True p Some Cons.IH [OF p(2)] Cons.prems(2) q by auto
    qed
  next
    case False
    then show ?thesis using Cons by auto
  qed
qed simp

section \<open>The compiled scope against the first match\<close>

text \<open>A packet whose fixed header is whole; for IPv6 also the type and code of an ICMPv6 message.\<close>

definition header4 :: "Pkt \<Rightarrow> nat \<Rightarrow> bool" where
  "header4 pkt ip_off \<longleftrightarrow> ip_off + 20 \<le> length pkt"

definition header6 :: "Pkt \<Rightarrow> nat \<Rightarrow> bool" where
  "header6 pkt ip_off \<longleftrightarrow> ip_off + 40 \<le> length pkt \<and> (read_u8 pkt (ip_off + 6) = Some IPPROTO_ICMPV6 \<longrightarrow> ip_off + 42 \<le> length pkt)"

text \<open>The rules of a family: addresses of its width, and no more of them than precedence ranks.\<close>

definition rules_wf :: "nat \<Rightarrow> FwRule list \<Rightarrow> bool" where
  "rules_wf n rules \<longleftrightarrow> list_all (rule_wf n) rules \<and> length rules \<le> 2 ^ 24"

text \<open>The maps show a compiled scope at its id.\<close>

definition shows_scope :: "FwMaps \<Rightarrow> Scope \<Rightarrow> bool" where
  "shows_scope maps sc \<longleftrightarrow>
     fm_class4 maps (sc_id sc) = class_lpm (st_classes (sc_v4 sc)) \<and> fm_policy4 maps (sc_id sc) = policy_lpm (st_policy (sc_v4 sc))
     \<and> fm_class6 maps (sc_id sc) = class_lpm (st_classes (sc_v6 sc)) \<and> fm_policy6 maps (sc_id sc) = policy_lpm (st_policy (sc_v6 sc))"

lemma ucast_byte_le: "(ucast (b :: byte) :: u16) \<le> 255"
  using unsigned_less [of b, where 'a = nat] by (simp add: word_le_nat_alt unsigned_ucast_eq take_bit_nat_eq_self)

lemma icmp_type_code_le: "fst (icmp_type_code pkt off) \<le> 255" "snd (icmp_type_code pkt off) \<le> 255"
  by (auto simp: icmp_type_code_def ucast_byte_le split: option.splits)

lemma icmp_type_code_v6_le:
  assumes "read_u8 pkt (off + 6) = Some 58" and "off + 42 \<le> length pkt"
  shows "fst (icmp_type_code_v6 pkt off) \<le> 255" "snd (icmp_type_code_v6 pkt off) \<le> 255"
  using assms by (auto simp: icmp_type_code_v6_def Let_def read_u8_def read_array_def ucast_byte_le)

lemma probe_values: "probe t peer proto port \<noteq> FW_ACTION_ACCEPT \<Longrightarrow> probe t peer proto port = FW_ACTION_DROP"
  by (auto simp: probe_def fw_probe_verdict_def Let_def split: option.splits if_splits)

lemma scope_id_nonzero: "scope_id a b \<noteq> FW_SCOPE_NONE"
  by (simp add: scope_id_def Let_def FW_SCOPE_NONE_def)

lemma compile_scope_cases:
  assumes "compile_scope dir v4 v6 = Inr res"
  obtains p4 p6 where "parse_all dir 1 v4 = Inr p4" "parse_all dir 58 v6 = Inr p6"
    "res = None \<longrightarrow> p4 = [] \<and> p6 = []"
    "\<forall>sc. res = Some sc \<longrightarrow> compile_family ''IPv4'' p4 = Inr (sc_v4 sc) \<and> compile_family ''IPv6'' p6 = Inr (sc_v6 sc) \<and> sc_id sc \<noteq> FW_SCOPE_NONE"
  using assms scope_id_nonzero by (auto simp: compile_scope_def split: sum.splits if_splits)

lemma family_first:
  assumes "parse_all dir icmp_proto rs = Inr ps" and "rules_wf n rs" and "icmp_ok icmp_proto" and "selectors_ok n icmp_proto s"
  defines "verdict \<equiv> (case find (\<lambda>r. fr_direction r = dir \<and> rule_matches n icmp_proto r s) rs of Some r \<Rightarrow> fr_action r = FW_ACTION_ACCEPT | None \<Rightarrow> False)"
  shows "compile_family family ps = Inr t \<Longrightarrow> probe t (peer_of dir s) (ps_proto s) (port_of icmp_proto s) = FW_ACTION_ACCEPT \<longleftrightarrow> verdict"
    and "ps = [] \<Longrightarrow> \<not> verdict"
proof -
  have wf: "\<forall>r \<in> set rs. rule_wf n r" and len: "length rs \<le> 2 ^ 24" using assms(2) by (auto simp: rules_wf_def list_all_iff)
  note first = parse_all_first [OF assms(3,4,1) wf]
  have peer: "length (peer_of dir s) = n" using assms(4) by (auto simp: peer_of_def selectors_ok_def)
  show "compile_family family ps = Inr t \<Longrightarrow> probe t (peer_of dir s) (ps_proto s) (port_of icmp_proto s) = FW_ACTION_ACCEPT \<longleftrightarrow> verdict"
    using family_correct [OF _ conjunct1 [OF first] peer, of family t] first len by (simp add: verdict_def)
  show "ps = [] \<Longrightarrow> \<not> verdict" using first by (simp add: verdict_def)
qed

text \<open>The selectors of a packet, as both evaluators read them.\<close>

definition selectors4 :: "Pkt \<Rightarrow> nat \<Rightarrow> PacketSelectors" where
  "selectors4 pkt ip_off =
     (let (proto, sport, dport) = (case l4_ports pkt ip_off of
            Some v \<Rightarrow> v
          | None \<Rightarrow> (case read_u8 pkt (ip_off + 9) of Some p \<Rightarrow> p | None \<Rightarrow> 0, 0, 0))
      in \<lparr>ps_src = take 4 (drop (ip_off + 12) pkt), ps_dst = take 4 (drop (ip_off + 16) pkt), ps_proto = proto, ps_sport = sport, ps_dport = dport,
          ps_icmp_type = fst (icmp_type_code pkt ip_off), ps_icmp_code = snd (icmp_type_code pkt ip_off)\<rparr>)"

definition selectors6 :: "Pkt \<Rightarrow> nat \<Rightarrow> PacketSelectors" where
  "selectors6 pkt ip_off =
     (let (proto, sport, dport) = (case l4_ports_v6 pkt ip_off of
            Some v \<Rightarrow> v
          | None \<Rightarrow> (case read_u8 pkt (ip_off + 6) of Some p \<Rightarrow> p | None \<Rightarrow> 0, 0, 0))
      in \<lparr>ps_src = take 16 (drop (ip_off + 8) pkt), ps_dst = take 16 (drop (ip_off + 24) pkt), ps_proto = proto, ps_sport = sport, ps_dport = dport,
          ps_icmp_type = fst (icmp_type_code_v6 pkt ip_off), ps_icmp_code = snd (icmp_type_code_v6 pkt ip_off)\<rparr>)"

lemma first_match_eq:
  assumes "header4 pkt off"
  shows "first_match pkt off rules dir = (case find (\<lambda>r. fr_direction r = dir \<and> rule_matches 4 1 r (selectors4 pkt off)) rules of
    None \<Rightarrow> FW_ACTION_DROP | Some r \<Rightarrow> fr_action r)"
  using assms by (simp add: first_match_def header4_def read_array_def selectors4_def fw_rule_matches_eq Let_def split_def)

lemma first_match6_eq:
  assumes "header6 pkt off"
  shows "first_match6 pkt off rules dir = (case find (\<lambda>r. fr_direction r = dir \<and> rule_matches 16 58 r (selectors6 pkt off)) rules of
    None \<Rightarrow> FW_ACTION_DROP | Some r \<Rightarrow> fr_action r)"
  using assms by (simp add: first_match6_def header6_def read_array_def selectors6_def fw_rule_matches_eq Let_def split_def)

lemma selectors4_ok: "header4 pkt off \<Longrightarrow> selectors_ok 4 1 (selectors4 pkt off)"
  by (auto simp: header4_def selectors_ok_def selectors4_def Let_def split_def icmp_type_code_le)

lemma selectors6_ok: "header6 pkt off \<Longrightarrow> selectors_ok 16 58 (selectors6 pkt off)"
proof -
  assume h: "header6 pkt off"
  have "read_u8 pkt (off + 6) = Some 58" if "ps_proto (selectors6 pkt off) = 58"
    using that by (auto simp: selectors6_def Let_def l4_ports_v6_def split_def IPPROTO_TCP_def IPPROTO_UDP_def split: option.splits if_splits)
  then show ?thesis using h icmp_type_code_v6_le [of pkt off]
    by (auto simp: header6_def selectors_ok_def IPPROTO_ICMPV6_def) (auto simp: selectors6_def Let_def split_def)
qed

lemma classify_scope4:
  assumes "header4 pkt off" and "fm_bind maps ifindex = Some b" and "bind_scope b dir = sc_id sc" and "sc_id sc \<noteq> FW_SCOPE_NONE" and "shows_scope maps sc"
  shows "fw_classify pkt maps off ifindex dir = probe (sc_v4 sc) (peer_of dir (selectors4 pkt off)) (ps_proto (selectors4 pkt off)) (port_of 1 (selectors4 pkt off))"
  using assms
  by (simp add: fw_classify_def shows_scope_def probe_def header4_def read_array_def selectors4_def peer_of_def port_of_def IPPROTO_ICMP_def Let_def split_def cong: if_cong option.case_cong)

lemma classify_scope6:
  assumes "header6 pkt off" and "fm_bind maps ifindex = Some b" and "bind_scope b dir = sc_id sc" and "sc_id sc \<noteq> FW_SCOPE_NONE" and "shows_scope maps sc"
  shows "fw_classify6 pkt maps off ifindex dir = probe (sc_v6 sc) (peer_of dir (selectors6 pkt off)) (ps_proto (selectors6 pkt off)) (port_of 58 (selectors6 pkt off))"
  using assms
  by (simp add: fw_classify6_def shows_scope_def probe_def header6_def read_array_def selectors6_def peer_of_def port_of_def IPPROTO_ICMPV6_def Let_def split_def cong: if_cong option.case_cong)

text \<open>
  An interface bound to the compiled scope of a rule list, or to no scope when nothing of the list
  is in effect, decides a packet as the first match of the list.
\<close>

definition bound_to :: "FwMaps \<Rightarrow> u32 \<Rightarrow> byte \<Rightarrow> Scope option \<Rightarrow> bool" where
  "bound_to maps ifindex dir res = (case fm_bind maps ifindex of
     None \<Rightarrow> False
   | Some b \<Rightarrow> (case res of
       None \<Rightarrow> bind_scope b dir = FW_SCOPE_NONE
     | Some sc \<Rightarrow> bind_scope b dir = sc_id sc \<and> shows_scope maps sc))"

lemma classify_first_match:
  assumes "compile_scope dir v4 v6 = Inr res" and "bound_to maps ifindex dir res"
  shows "rules_wf 4 v4 \<Longrightarrow> header4 pkt off \<Longrightarrow>
      fw_classify pkt maps off ifindex dir = (if first_match pkt off v4 dir = FW_ACTION_ACCEPT then FW_ACTION_ACCEPT else FW_ACTION_DROP)"
    and "rules_wf 16 v6 \<Longrightarrow> header6 pkt off \<Longrightarrow>
      fw_classify6 pkt maps off ifindex dir = (if first_match6 pkt off v6 dir = FW_ACTION_ACCEPT then FW_ACTION_ACCEPT else FW_ACTION_DROP)"
proof -
  obtain p4 p6 where p: "parse_all dir 1 v4 = Inr p4" "parse_all dir 58 v6 = Inr p6" "res = None \<longrightarrow> p4 = [] \<and> p6 = []"
    "\<forall>sc. res = Some sc \<longrightarrow> compile_family ''IPv4'' p4 = Inr (sc_v4 sc) \<and> compile_family ''IPv6'' p6 = Inr (sc_v6 sc) \<and> sc_id sc \<noteq> FW_SCOPE_NONE"
    using compile_scope_cases [OF assms(1)] by blast
  have icmp: "icmp_ok 1" "icmp_ok 58" by (simp_all add: icmp_ok_def)
  obtain b where b: "fm_bind maps ifindex = Some b" using assms(2) by (auto simp: bound_to_def split: option.splits)
  have ne: "FW_ACTION_DROP \<noteq> FW_ACTION_ACCEPT" by (simp add: FW_ACTION_DROP_def FW_ACTION_ACCEPT_def)
  show "fw_classify pkt maps off ifindex dir = (if first_match pkt off v4 dir = FW_ACTION_ACCEPT then FW_ACTION_ACCEPT else FW_ACTION_DROP)"
    if wf: "rules_wf 4 v4" "header4 pkt off"
  proof (cases res)
    case None
    then show ?thesis using family_first(2) [OF p(1) wf(1) icmp(1) selectors4_ok [OF wf(2)]] p(3) assms(2) b ne
      by (auto simp: bound_to_def fw_classify_def Let_def first_match_eq [OF wf(2)] split: option.splits)
  next
    case (Some sc)
    then have "bind_scope b dir = sc_id sc" "shows_scope maps sc" using assms(2) b by (auto simp: bound_to_def)
    with classify_scope4 [OF wf(2) b, of dir sc] p(4) Some
      family_first(1) [OF p(1) wf(1) icmp(1) selectors4_ok [OF wf(2)], of "''IPv4''" "sc_v4 sc"]
      ne show ?thesis
      by (auto simp: first_match_eq [OF wf(2)] probe_values split: option.splits)
  qed
  show "fw_classify6 pkt maps off ifindex dir = (if first_match6 pkt off v6 dir = FW_ACTION_ACCEPT then FW_ACTION_ACCEPT else FW_ACTION_DROP)"
    if wf: "rules_wf 16 v6" "header6 pkt off"
  proof (cases res)
    case None
    then show ?thesis using family_first(2) [OF p(2) wf(1) icmp(2) selectors6_ok [OF wf(2)]] p(3) assms(2) b ne
      by (auto simp: bound_to_def fw_classify6_def Let_def first_match6_eq [OF wf(2)] split: option.splits)
  next
    case (Some sc)
    then have "bind_scope b dir = sc_id sc" "shows_scope maps sc" using assms(2) b by (auto simp: bound_to_def)
    with classify_scope6 [OF wf(2) b, of dir sc] p(4) Some
      family_first(1) [OF p(2) wf(1) icmp(2) selectors6_ok [OF wf(2)], of "''IPv6''" "sc_v6 sc"]
      ne show ?thesis
      by (auto simp: first_match6_eq [OF wf(2)] probe_values split: option.splits)
  qed
qed

end
