(* ===== verification/Fw_Control.thy ===== *)
theory Fw_Control
  imports Fw_Correct
begin

text \<open>
  The firewall part of the dataplane's control core: \<^verbatim>\<open>flowplane-control/src/firewall.rs\<close> over the
  firewall maps of the in-memory writer, \<^verbatim>\<open>flowplane-control/src/mem.rs\<close>, with its injected faults (a
  failing binding write, a map walk cut short).
\<close>

section \<open>The maps\<close>

record FwWriter =
  w_fw_bind :: "(u32, FwBind) gomap"
  w_fw_scopes :: "(u64, Scope) gomap"
  w_fw_scope_creates :: nat
  w_fw_bind_writes :: nat
  w_fw_bind_fault :: bool
  w_fw_epoch :: u32
  w_walk_cut :: "(string, nat) gomap"

record 'a Walk =
  wk_entries :: "'a list"
  wk_error :: "string option"

definition walk :: "FwWriter \<Rightarrow> string \<Rightarrow> 'a list \<Rightarrow> 'a Walk" where
  "walk w name all = (case mget (w_walk_cut w) name of
     Some n \<Rightarrow> \<lparr>wk_entries = take n all, wk_error = Some (''injected '' @ name @ '' walk failure'')\<rparr>
   | None \<Rightarrow> \<lparr>wk_entries = all, wk_error = None\<rparr>)"

text \<open>A write returns the writer and its error, if any.\<close>

definition fw_scope_create :: "Scope \<Rightarrow> FwWriter \<Rightarrow> FwWriter \<times> string option" where
  "fw_scope_create s w =
     (w\<lparr>w_fw_scope_creates := w_fw_scope_creates w + 1, w_fw_scopes := mput (sc_id s) s (w_fw_scopes w)\<rparr>, None)"

definition fw_scope_delete :: "u64 \<Rightarrow> FwWriter \<Rightarrow> FwWriter" where
  "fw_scope_delete sid w = w\<lparr>w_fw_scopes := mdel sid (w_fw_scopes w)\<rparr>"

definition fw_bind_upsert :: "u32 \<Rightarrow> FwBind \<Rightarrow> FwWriter \<Rightarrow> FwWriter \<times> string option" where
  "fw_bind_upsert ifindex val w =
     (if w_fw_bind_fault w then (w, Some ''injected FW_BIND write failure'')
      else (w\<lparr>w_fw_bind_writes := w_fw_bind_writes w + 1, w_fw_bind := mput ifindex val (w_fw_bind w)\<rparr>, None))"

definition fw_bind_remove :: "u32 \<Rightarrow> FwWriter \<Rightarrow> FwWriter" where
  "fw_bind_remove ifindex w = w\<lparr>w_fw_bind := mdel ifindex (w_fw_bind w)\<rparr>"

definition fw_epoch_bump :: "FwWriter \<Rightarrow> FwWriter \<times> string option" where
  "fw_epoch_bump w = (w\<lparr>w_fw_epoch := w_fw_epoch w + 1\<rparr>, None)"

definition fw_bind_entries :: "FwWriter \<Rightarrow> (u32 \<times> FwBind) Walk" where
  "fw_bind_entries w = walk w ''FW_BIND'' (w_fw_bind w)"

definition fw_scope_ids :: "FwWriter \<Rightarrow> u64 Walk" where
  "fw_scope_ids w = walk w ''FW_SCOPES'' (mkeys (w_fw_scopes w))"

section \<open>The control core\<close>

record IfaceMeta =
  im_vni :: u32
  im_ipv4 :: "byte list"
  im_ipv6 :: "byte list"
  im_underlay :: "byte list"
  im_ifindex :: u32

record FwCore =
  fc_w :: FwWriter
  fc_ifaces_meta :: "(byte list, IfaceMeta) gomap"
  fc_fw_binds :: "(u32, FwBind) gomap"
  fc_fw_scope_refs :: "(u64, u32) gomap"
  fc_fw_partial :: bool

definition core_new :: "FwWriter \<Rightarrow> FwCore" where
  "core_new w = \<lparr>fc_w = w, fc_ifaces_meta = [], fc_fw_binds = [], fc_fw_scope_refs = [], fc_fw_partial = False\<rparr>"

definition register_iface_meta :: "byte list \<Rightarrow> IfaceMeta \<Rightarrow> FwCore \<Rightarrow> FwCore" where
  "register_iface_meta sid m c = c\<lparr>fc_ifaces_meta := mput sid m (fc_ifaces_meta c)\<rparr>"

definition forget_iface_meta :: "byte list \<Rightarrow> FwCore \<Rightarrow> FwCore" where
  "forget_iface_meta sid c = c\<lparr>fc_ifaces_meta := mdel sid (fc_ifaces_meta c)\<rparr>"

definition compile_iface :: "FwRule list \<Rightarrow> FwRule list \<Rightarrow> FwError + (Scope option \<times> Scope option)" where
  "compile_iface v4 v6 = (case compile_scope FW_DIR_INGRESS v4 v6 of
     Inl e \<Rightarrow> Inl e
   | Inr ingress \<Rightarrow> (case compile_scope FW_DIR_EGRESS v4 v6 of
       Inl e \<Rightarrow> Inl e
     | Inr egress \<Rightarrow> Inr (ingress, egress)))"

definition set_w :: "FwWriter \<Rightarrow> FwCore \<Rightarrow> FwCore" where
  "set_w w c = c\<lparr>fc_w := w\<rparr>"

text \<open>One more reference to a scope.\<close>

definition add_ref :: "u64 \<Rightarrow> (u64, u32) gomap \<Rightarrow> (u64, u32) gomap" where
  "add_ref sid refs = (if sid = FW_SCOPE_NONE then refs else mput sid (mget0 0 refs sid + 1) refs)"

definition bind_ids :: "FwBind \<Rightarrow> u64 list" where
  "bind_ids b = [fb_ingress_scope b, fb_egress_scope b]"

definition fw_discard_scopes :: "u64 list \<Rightarrow> FwCore \<Rightarrow> FwCore" where
  "fw_discard_scopes ids c = (if fc_fw_partial c then c else set_w (fold fw_scope_delete ids (fc_w c)) c)"

definition release_one :: "u64 \<Rightarrow> FwCore \<Rightarrow> FwCore" where
  "release_one sid c =
     (if sid = FW_SCOPE_NONE then c
      else (case mget (fc_fw_scope_refs c) sid of
              None \<Rightarrow> c
            | Some n \<Rightarrow>
                let n = n - 1;
                    c = c\<lparr>fc_fw_scope_refs := mput sid n (fc_fw_scope_refs c)\<rparr>
                in if n \<noteq> 0 then c
                   else let c = c\<lparr>fc_fw_scope_refs := mdel sid (fc_fw_scope_refs c)\<rparr>
                        in if fc_fw_partial c then c else set_w (fw_scope_delete sid (fc_w c)) c))"

definition fw_release_scopes :: "FwBind \<Rightarrow> FwCore \<Rightarrow> FwCore" where
  "fw_release_scopes old c = fold release_one (bind_ids old) c"

definition adopt_fw_classifier :: "FwCore \<Rightarrow> FwCore \<times> string option" where
  "adopt_fw_classifier c =
     (let binds = fw_bind_entries (fc_w c);
          c = c\<lparr>fc_fw_partial := (wk_error binds \<noteq> None),
                 fc_fw_binds := fold (\<lambda>(i, b). mput i b) (wk_entries binds) []\<rparr>;
          c = c\<lparr>fc_fw_scope_refs := fold (\<lambda>(_, b). fold add_ref (bind_ids b)) (fc_fw_binds c) []\<rparr>;
          scopes = fw_scope_ids (fc_w c);
          c = (if fc_fw_partial c then c
               else set_w (fold (\<lambda>sid w. if mget (fc_fw_scope_refs c) sid \<noteq> None then w else fw_scope_delete sid w)
                             (wk_entries scopes) (fc_w c)) c)
      in (c, case (wk_error binds, wk_error scopes) of
               (None, None) \<Rightarrow> None
             | (Some e, _) \<Rightarrow> Some e
             | (None, Some e) \<Rightarrow> Some e))"

definition fw_heal :: "FwCore \<Rightarrow> FwCore" where
  "fw_heal c = (if fc_fw_partial c then fst (adopt_fw_classifier c) else c)"

definition remove_fw_rules :: "u32 \<Rightarrow> FwCore \<Rightarrow> FwCore" where
  "remove_fw_rules ifindex c =
     (let c = fw_heal c in
      case mget (fc_fw_binds c) ifindex of
        None \<Rightarrow> c
      | Some old \<Rightarrow>
          let c = c\<lparr>fc_fw_binds := mdel ifindex (fc_fw_binds c)\<rparr>;
              c = set_w (fw_bind_remove ifindex (fc_w c)) c;
              c = set_w (fst (fw_epoch_bump (fc_w c))) c
          in fw_release_scopes old c)"

text \<open>
  The loop that creates the scopes that are not there yet: the core, the ids it created and the
  error that stopped it.
\<close>

fun create_scopes :: "Scope list \<Rightarrow> u64 list \<Rightarrow> FwCore \<Rightarrow> FwCore \<times> u64 list \<times> string option" where
  "create_scopes [] created c = (c, created, None)"
| "create_scopes (s # ss) created c =
     (if mget (fc_fw_scope_refs c) (sc_id s) \<noteq> None \<or> sc_id s \<in> set created then create_scopes ss created c
      else (case fw_scope_create s (fc_w c) of
              (w, Some e) \<Rightarrow> (fw_discard_scopes created (set_w w c), created, Some e)
            | (w, None) \<Rightarrow> create_scopes ss (created @ [sc_id s]) (set_w w c)))"

definition scope_ref :: "Scope option \<Rightarrow> u64" where
  "scope_ref s = (case s of None \<Rightarrow> FW_SCOPE_NONE | Some s \<Rightarrow> sc_id s)"

definition opt_list :: "'a option \<Rightarrow> 'a list" where
  "opt_list x = (case x of None \<Rightarrow> [] | Some y \<Rightarrow> [y])"

definition fw_bind_scopes :: "u32 \<Rightarrow> Scope option \<Rightarrow> Scope option \<Rightarrow> FwCore \<Rightarrow> FwCore \<times> FwError option" where
  "fw_bind_scopes ifindex ingress egress c =
     (let c = fw_heal c;
          bind = \<lparr>fb_ingress_scope = scope_ref ingress, fb_egress_scope = scope_ref egress\<rparr>;
          old = mget (fc_fw_binds c) ifindex
      in if old = Some bind then (c, None)
         else (case create_scopes (opt_list ingress @ opt_list egress) [] c of
           (c, _, Some e) \<Rightarrow> (c, Some (MapError e))
         | (c, created, None) \<Rightarrow> (case fw_bind_upsert ifindex bind (fc_w c) of
             (w, Some e) \<Rightarrow> (fw_discard_scopes created (set_w w c), Some (MapError e))
           | (w, None) \<Rightarrow>
               let c = (set_w w c)\<lparr>fc_fw_binds := mput ifindex bind (fc_fw_binds c)\<rparr>;
                   c = c\<lparr>fc_fw_scope_refs := fold add_ref (bind_ids bind) (fc_fw_scope_refs c)\<rparr>
               in (case fw_epoch_bump (fc_w c) of
                     (w, bumped) \<Rightarrow>
                       let c = set_w w c;
                           c = (case old of None \<Rightarrow> c | Some old \<Rightarrow> fw_release_scopes old c)
                       in (c, map_option MapError bumped)))))"

definition fw_ifindex :: "FwCore \<Rightarrow> byte list \<Rightarrow> FwError + u32" where
  "fw_ifindex c interface_id = (case mget (fc_ifaces_meta c) interface_id of
     None \<Rightarrow> Inl UnknownInterface
   | Some m \<Rightarrow> Inr (im_ifindex m))"

definition replace_interface_fw :: "byte list \<Rightarrow> (byte list \<times> FwRule) list \<Rightarrow> (byte list \<times> FwRule) list \<Rightarrow> FwCore \<Rightarrow> FwCore \<times> FwError option" where
  "replace_interface_fw interface_id v4 v6 c = (case fw_ifindex c interface_id of
     Inl e \<Rightarrow> (c, Some e)
   | Inr ifindex \<Rightarrow> (case compile_iface (map snd v4) (map snd v6) of
       Inl e \<Rightarrow> (c, Some e)
     | Inr (ingress, egress) \<Rightarrow> fw_bind_scopes ifindex ingress egress c))"

section \<open>What the datapath reads\<close>

text \<open>The classifier's lookups over the written maps.\<close>

definition maps_of :: "FwWriter \<Rightarrow> FwMaps" where
  "maps_of w = \<lparr>fm_bind = mget (w_fw_bind w),
     fm_class4 = (\<lambda>sid a. case mget (w_fw_scopes w) sid of None \<Rightarrow> None | Some s \<Rightarrow> class_lpm (st_classes (sc_v4 s)) a),
     fm_class6 = (\<lambda>sid a. case mget (w_fw_scopes w) sid of None \<Rightarrow> None | Some s \<Rightarrow> class_lpm (st_classes (sc_v6 s)) a),
     fm_policy4 = (\<lambda>sid k. case mget (w_fw_scopes w) sid of None \<Rightarrow> None | Some s \<Rightarrow> policy_lpm (st_policy (sc_v4 s)) k),
     fm_policy6 = (\<lambda>sid k. case mget (w_fw_scopes w) sid of None \<Rightarrow> None | Some s \<Rightarrow> policy_lpm (st_policy (sc_v6 s)) k)\<rparr>"

end
