(* ===== verification/Fw_Control_Inv.thy ===== *)
theory Fw_Control_Inv
  imports Fw_Control
begin

text \<open>
  Scope reference counting: what the control core keeps of its maps through replaces, removals,
  failed writes, cut walks and restarts.
\<close>

section \<open>Counting references\<close>

definition uses :: "(u32, FwBind) gomap \<Rightarrow> u64 \<Rightarrow> nat" where
  "uses binds sid = count_list (concat (map (\<lambda>(_, b). bind_ids b) binds)) sid"

lemma uses_simps [simp]: "uses [] sid = 0" "uses (x # m) sid = count_list (bind_ids (snd x)) sid + uses m sid"
  by (simp_all add: uses_def split_def)

definition old_uses :: "FwBind option \<Rightarrow> u64 \<Rightarrow> nat" where
  "old_uses old sid = (case old of None \<Rightarrow> 0 | Some b \<Rightarrow> count_list (bind_ids b) sid)"

lemma old_uses_simps [simp]: "old_uses None sid = 0" "old_uses (Some b) sid = count_list (bind_ids b) sid"
  by (simp_all add: old_uses_def)

lemma uses_put: "uses (mput i b m) sid + old_uses (mget m i) sid = uses m sid + count_list (bind_ids b) sid"
  by (induction m) (auto simp: mput_def mget_def)

lemma uses_del: "mwf m \<Longrightarrow> uses (mdel i m) sid + old_uses (mget m i) sid = uses m sid"
proof (induction m)
  case (Cons x m)
  then have IH: "uses (mdel i m) sid + old_uses (mget m i) sid = uses m sid" by (simp add: mwf_def)
  show ?case
  proof (cases "fst x = i")
    case True
    then have "mget m i = None" using Cons.prems by (auto simp: mwf_def mget_def map_of_eq_None_iff)
    then show ?thesis using True IH by (cases x) (auto simp: mdel_def mget_def)
  next
    case False
    then show ?thesis using IH by (cases x) (auto simp: mdel_def mget_def)
  qed
qed simp

lemma count_bind_le: "count_list (bind_ids b) sid \<le> 2"
  by (simp add: bind_ids_def)

lemma uses_le: "uses m sid \<le> 2 * length m"
  by (induction m) (auto intro: add_mono [OF count_bind_le, simplified])

lemma uses_pos: "uses m sid > 0 \<longleftrightarrow> (\<exists>i b. (i, b) \<in> set m \<and> sid \<in> set (bind_ids b))"
  by (induction m) (force simp: count_list_0_iff)+

text \<open>Interface indexes are positive ints, so two references for each of them fit the counter.\<close>

definition ifindex_ok :: "u32 \<Rightarrow> bool" where
  "ifindex_ok i \<longleftrightarrow> 0 < i \<and> i < 0x80000000"

lemma few_ifindexes:
  assumes "mwf m" and "\<And>i. mget m i \<noteq> None \<Longrightarrow> ifindex_ok i"
  shows "length m \<le> 0x7fffffff"
proof -
  have "length m = card (set (mkeys m))" using assms(1) distinct_card [of "map fst m"] by (simp add: mwf_def mkeys_def)
  also have "set (mkeys m) \<subseteq> of_nat ` {1 ..< 0x80000000}"
  proof
    fix i assume "i \<in> set (mkeys m)"
    then have "ifindex_ok i" using assms(2) by (simp add: mkeys_iff)
    then have "unat i \<in> {1 ..< 0x80000000}" by (auto simp: ifindex_ok_def word_less_nat_alt)
    then show "i \<in> of_nat ` {1 ..< 0x80000000}" by (intro image_eqI [of _ _ "unat i"]) simp_all
  qed
  then have "card (set (mkeys m)) \<le> card ((of_nat :: nat \<Rightarrow> u32) ` {1 ..< 0x80000000})" by (intro card_mono) auto
  also have "\<dots> \<le> card {1 ..< 0x80000000 :: nat}" by (intro card_image_le) simp
  finally show ?thesis by simp
qed

text \<open>The stored counters hold the counts.\<close>

definition refs_as :: "(u64, u32) gomap \<Rightarrow> (u64 \<Rightarrow> nat) \<Rightarrow> bool" where
  "refs_as refs f \<longleftrightarrow> (\<forall>sid. mget refs sid = (if sid = FW_SCOPE_NONE \<or> f sid = 0 then None else Some (of_nat (f sid))))"

lemma refs_as_empty: "refs_as [] (\<lambda>_. 0)"
  by (simp add: refs_as_def)

lemma add_ref_as: "refs_as refs f \<Longrightarrow> refs_as (add_ref sid refs) (f(sid := f sid + 1))"
  by (auto simp: refs_as_def add_ref_def mget0_def)

lemma fold_add_ref: "refs_as refs f \<Longrightarrow> refs_as (fold add_ref ids refs) (\<lambda>sid. f sid + count_list ids sid)"
proof (induction ids arbitrary: refs f)
  case (Cons a ids)
  have eq: "(\<lambda>sid. (f(a := f a + 1)) sid + count_list ids sid) = (\<lambda>sid. f sid + count_list (a # ids) sid)" by auto
  from Cons.IH [OF add_ref_as [OF Cons.prems, of a]] show ?case by (simp only: eq fold_simps)
qed simp

lemma count_refs: "refs_as refs f \<Longrightarrow> refs_as (fold (\<lambda>(_, b). fold add_ref (bind_ids b)) binds refs) (\<lambda>sid. f sid + uses binds sid)"
proof (induction binds arbitrary: refs f)
  case (Cons x binds)
  from Cons.IH [OF fold_add_ref [OF Cons.prems, of "bind_ids (snd x)"]] show ?case
    by (simp add: split_def add.assoc)
qed simp

text \<open>Dropping a reference drops the scope with the last one.\<close>

lemma release_one_as:
  assumes "refs_as (fc_fw_scope_refs c) f" and "sid \<noteq> FW_SCOPE_NONE \<longrightarrow> 0 < f sid \<and> f sid \<le> 2 ^ 32"
  shows "refs_as (fc_fw_scope_refs (release_one sid c)) (f(sid := f sid - 1))
    \<and> release_one sid c = c\<lparr>fc_w := fc_w (release_one sid c), fc_fw_scope_refs := fc_fw_scope_refs (release_one sid c)\<rparr>
    \<and> fc_w (release_one sid c) = (if sid \<noteq> FW_SCOPE_NONE \<and> f sid = 1 \<and> \<not> fc_fw_partial c then fw_scope_delete sid (fc_w c) else fc_w c)"
proof (cases "sid = FW_SCOPE_NONE")
  case True
  then show ?thesis using assms(1) by (auto simp: release_one_def refs_as_def)
next
  case False
  then have pos: "0 < f sid" "f sid \<le> 2 ^ 32" using assms(2) by auto
  then have get: "mget (fc_fw_scope_refs c) sid = Some (of_nat (f sid))" using assms(1) False by (simp add: refs_as_def)
  define n where "n = f sid - 1"
  have less: "of_nat (f sid) - 1 = (of_nat n :: u32)" using pos by (simp add: n_def of_nat_diff)
  have zero: "(of_nat n :: u32) = 0 \<longleftrightarrow> n = 0"
  proof -
    have "n < 2 ^ 32" using pos by (simp add: n_def)
    then show ?thesis by (auto simp: word_of_nat_eq_0_iff dest: dvd_imp_le)
  qed
  show ?thesis
  proof (cases "n = 0")
    case True
    then have "f sid = 1" using pos by (simp add: n_def)
    then show ?thesis using False get assms(1) by (auto simp: release_one_def refs_as_def Let_def set_w_def)
  next
    case nz: False
    then have "f sid \<noteq> 1" "f sid \<noteq> Suc 0" by (auto simp: n_def)
    then show ?thesis using False get assms(1) nz less zero
      by (auto simp: release_one_def refs_as_def Let_def set_w_def n_def [symmetric])
  qed
qed

text \<open>What a change of scopes leaves of the writer.\<close>

definition only_scopes :: "FwWriter \<Rightarrow> FwWriter \<Rightarrow> bool" where
  "only_scopes w w' \<longleftrightarrow> w_fw_bind w' = w_fw_bind w \<and> w_fw_bind_fault w' = w_fw_bind_fault w \<and> w_walk_cut w' = w_walk_cut w
     \<and> w_fw_epoch w' = w_fw_epoch w \<and> (mwf (w_fw_scopes w) \<longrightarrow> mwf (w_fw_scopes w'))"

lemma only_scopes_refl [simp]: "only_scopes w w"
  by (simp add: only_scopes_def)

lemma only_scopes_delete [simp]: "only_scopes w (fw_scope_delete sid w)"
  by (simp add: only_scopes_def fw_scope_delete_def)

lemma only_scopes_trans: "only_scopes u v \<Longrightarrow> only_scopes v w \<Longrightarrow> only_scopes u w"
  by (simp add: only_scopes_def)

lemma mget_scope_delete [simp]: "mget (w_fw_scopes (fw_scope_delete sid w)) s = (if s = sid then None else mget (w_fw_scopes w) s)"
  by (simp add: fw_scope_delete_def)

lemma release_as:
  assumes refs: "refs_as (fc_fw_scope_refs c) f"
    and f: "\<And>sid. sid \<noteq> FW_SCOPE_NONE \<Longrightarrow> count_list (bind_ids old) sid \<le> f sid \<and> f sid \<le> 2 ^ 32"
  defines "c' \<equiv> fw_release_scopes old c"
  shows "refs_as (fc_fw_scope_refs c') (\<lambda>sid. f sid - count_list (bind_ids old) sid)
    \<and> c' = c\<lparr>fc_w := fc_w c', fc_fw_scope_refs := fc_fw_scope_refs c'\<rparr> \<and> only_scopes (fc_w c) (fc_w c')
    \<and> (\<forall>sid. mget (w_fw_scopes (fc_w c')) sid =
        (if sid \<noteq> FW_SCOPE_NONE \<and> sid \<in> set (bind_ids old) \<and> f sid = count_list (bind_ids old) sid \<and> \<not> fc_fw_partial c then None
         else mget (w_fw_scopes (fc_w c)) sid))"
proof -
  let ?a = "fb_ingress_scope old" and ?b = "fb_egress_scope old"
  let ?c1 = "release_one ?a c" and ?f1 = "f(?a := f ?a - 1)"
  have ids: "bind_ids old = [?a, ?b]" by (simp add: bind_ids_def)
  have r1: "?a \<noteq> FW_SCOPE_NONE \<longrightarrow> 0 < f ?a \<and> f ?a \<le> 2 ^ 32" using f [of ?a] by (auto simp: ids split: if_splits)
  note one = release_one_as [OF refs r1]
  have r2: "?b \<noteq> FW_SCOPE_NONE \<longrightarrow> 0 < ?f1 ?b \<and> ?f1 ?b \<le> 2 ^ 32" using f [of ?b] by (auto simp: ids split: if_splits)
  note two = release_one_as [OF conjunct1 [OF one] r2]
  have c': "c' = release_one ?b ?c1" by (simp add: c'_def fw_release_scopes_def ids)
  have c1: "?c1 = c\<lparr>fc_w := fc_w ?c1, fc_fw_scope_refs := fc_fw_scope_refs ?c1\<rparr>" using one by blast
  have part: "fc_fw_partial ?c1 = fc_fw_partial c" by (subst c1) simp
  have fun_eq: "?f1(?b := ?f1 ?b - 1) = (\<lambda>sid. f sid - count_list (bind_ids old) sid)" by (auto simp: ids)
  have refs': "refs_as (fc_fw_scope_refs c') (\<lambda>sid. f sid - count_list (bind_ids old) sid)"
    using two by (simp only: c' fun_eq)
  have eq: "c' = c\<lparr>fc_w := fc_w c', fc_fw_scope_refs := fc_fw_scope_refs c'\<rparr>"
  proof -
    have "c' = ?c1\<lparr>fc_w := fc_w c', fc_fw_scope_refs := fc_fw_scope_refs c'\<rparr>" using two unfolding c' by blast
    moreover have "?c1\<lparr>fc_w := x, fc_fw_scope_refs := y\<rparr> = c\<lparr>fc_w := x, fc_fw_scope_refs := y\<rparr>" for x y by (subst c1) simp
    ultimately show ?thesis by simp
  qed
  have w1: "fc_w ?c1 = (if ?a \<noteq> FW_SCOPE_NONE \<and> f ?a = 1 \<and> \<not> fc_fw_partial c then fw_scope_delete ?a (fc_w c) else fc_w c)"
    using one by blast
  have w2: "fc_w c' = (if ?b \<noteq> FW_SCOPE_NONE \<and> ?f1 ?b = 1 \<and> \<not> fc_fw_partial c then fw_scope_delete ?b (fc_w ?c1) else fc_w ?c1)"
    using two unfolding c' part by blast
  have only: "only_scopes (fc_w c) (fc_w c')"
    unfolding w2 w1 by (auto simp: only_scopes_def fw_scope_delete_def)
  have "mget (w_fw_scopes (fc_w c')) sid = (if sid \<noteq> FW_SCOPE_NONE \<and> sid \<in> set (bind_ids old) \<and> f sid = count_list (bind_ids old) sid \<and> \<not> fc_fw_partial c then None
         else mget (w_fw_scopes (fc_w c)) sid)" for sid
    unfolding w2 w1 using f [of sid] by (auto simp: ids split: if_splits)
  with refs' eq only show ?thesis by blast
qed

section \<open>The invariant\<close>

text \<open>No binding points at a scope that is not there.\<close>

definition fw_safe :: "FwWriter \<Rightarrow> bool" where
  "fw_safe w \<longleftrightarrow> mwf (w_fw_bind w) \<and> mwf (w_fw_scopes w)
     \<and> (\<forall>i b. mget (w_fw_bind w) i = Some b \<longrightarrow> ifindex_ok i \<and> (\<forall>sid \<in> set (bind_ids b). sid \<noteq> FW_SCOPE_NONE \<longrightarrow> mget (w_fw_scopes w) sid \<noteq> None))"

definition fw_inv :: "FwCore \<Rightarrow> bool" where
  "fw_inv c \<longleftrightarrow> fw_safe (fc_w c) \<and> mwf (fc_fw_binds c) \<and> refs_as (fc_fw_scope_refs c) (uses (fc_fw_binds c))
     \<and> (\<forall>i b. mget (fc_fw_binds c) i = Some b \<longrightarrow> mget (w_fw_bind (fc_w c)) i = Some b)
     \<and> (\<not> fc_fw_partial c \<longrightarrow> (\<forall>i. mget (w_fw_bind (fc_w c)) i = mget (fc_fw_binds c) i))"

text \<open>No scope is kept that no binding uses.\<close>

definition no_leak :: "FwWriter \<Rightarrow> bool" where
  "no_leak w \<longleftrightarrow> (\<forall>sid. mget (w_fw_scopes w) sid \<noteq> None \<longrightarrow> sid \<noteq> FW_SCOPE_NONE \<and> uses (w_fw_bind w) sid > 0)"

text \<open>What the classifier can see of an interface.\<close>

definition seen :: "FwWriter \<Rightarrow> u32 \<Rightarrow> (FwBind \<times> Scope option list) option" where
  "seen w i = map_option (\<lambda>b. (b, map (\<lambda>sid. if sid = FW_SCOPE_NONE then None else mget (w_fw_scopes w) sid) (bind_ids b))) (mget (w_fw_bind w) i)"

lemma classify_seen:
  assumes "seen w i = seen w' i"
  shows "fw_classify pkt (maps_of w) off i dir = fw_classify pkt (maps_of w') off i dir"
    and "fw_classify6 pkt (maps_of w) off i dir = fw_classify6 pkt (maps_of w') off i dir"
proof -
  consider "mget (w_fw_bind w) i = None" "mget (w_fw_bind w') i = None"
    | b where "mget (w_fw_bind w) i = Some b" "mget (w_fw_bind w') i = Some b"
      "bind_scope b dir \<noteq> FW_SCOPE_NONE \<longrightarrow> mget (w_fw_scopes w) (bind_scope b dir) = mget (w_fw_scopes w') (bind_scope b dir)"
    using assms by (cases "mget (w_fw_bind w) i"; cases "mget (w_fw_bind w') i") (auto simp: seen_def bind_ids_def bind_scope_def split: if_splits)
  then show "fw_classify pkt (maps_of w) off i dir = fw_classify pkt (maps_of w') off i dir"
    and "fw_classify6 pkt (maps_of w) off i dir = fw_classify6 pkt (maps_of w') off i dir"
    by (cases; simp add: fw_classify_def fw_classify6_def maps_of_def Let_def cong: if_cong option.case_cong)+
qed

lemma uses_bound:
  assumes "mwf m" and "\<And>i. mget m i \<noteq> None \<Longrightarrow> ifindex_ok i"
  shows "uses m sid + 2 \<le> 2 ^ 32"
  using few_ifindexes [OF assms] uses_le [of m sid] by simp

lemma uses_pos_get: "mwf m \<Longrightarrow> uses m sid > 0 \<longleftrightarrow> (\<exists>i b. mget m i = Some b \<and> sid \<in> set (bind_ids b))"
  by (simp add: uses_pos mget_iff)

section \<open>Adopt\<close>

lemma mget_Cons: "mget (x # m) k = (if k = fst x then Some (snd x) else mget m k)"
  by (cases x) (simp add: mget_def)

lemma mget_fold_put:
  "mwf es \<Longrightarrow> mget (fold (\<lambda>(i, b). mput i b) es m) k = (case mget es k of Some v \<Rightarrow> Some v | None \<Rightarrow> mget m k)"
proof (induction es arbitrary: m)
  case (Cons x es)
  then have "mwf es" "mget es (fst x) = None" by (auto simp: mwf_def mget_def map_of_eq_None_iff)
  then show ?case using Cons.IH [of "mput (fst x) (snd x) m"] by (auto simp: mget_Cons split_def split: option.split)
qed simp

lemma mwf_fold_put: "mwf m \<Longrightarrow> mwf (fold (\<lambda>(i, b). mput i b) es m)"
  by (induction es arbitrary: m) (auto simp: split_def)

lemma mwf_take: "mwf m \<Longrightarrow> mwf (take n m)"
  by (simp add: mwf_def take_map [symmetric])

lemma mget_take: "mwf m \<Longrightarrow> mget (take n m) k = Some v \<Longrightarrow> mget m k = Some v"
  using mget_in [of "take n m" k v] by (auto simp: mget_iff [symmetric] dest: in_set_takeD)

lemma fold_delete_unless:
  defines "step P \<equiv> (\<lambda>sid w. if P sid then w else fw_scope_delete sid w)"
  shows "only_scopes w (fold (step P) ids w) \<and>
    (\<forall>s. mget (w_fw_scopes (fold (step P) ids w)) s = (if s \<in> set ids \<and> \<not> P s then None else mget (w_fw_scopes w) s))"
proof (induction ids arbitrary: w)
  case (Cons a ids)
  show ?case using Cons.IH [of "step P a w"] only_scopes_trans [of w "step P a w"] by (auto simp: step_def)
qed simp

lemma seen_cong:
  assumes "only_scopes w w'"
    and "\<And>i b sid. mget (w_fw_bind w) i = Some b \<Longrightarrow> sid \<in> set (bind_ids b) \<Longrightarrow> sid \<noteq> FW_SCOPE_NONE \<Longrightarrow>
      mget (w_fw_scopes w') sid = mget (w_fw_scopes w) sid"
  shows "seen w' i = seen w i" and "fw_safe w \<Longrightarrow> fw_safe w'"
  using assms by (auto simp: seen_def only_scopes_def fw_safe_def map_option_case split: option.split)

lemma adopt_ok:
  assumes "fw_safe (fc_w c)"
  defines "c' \<equiv> fst (adopt_fw_classifier c)"
  shows "fw_inv c'" and "seen (fc_w c') i = seen (fc_w c) i" and "only_scopes (fc_w c) (fc_w c')"
    and "fc_ifaces_meta c' = fc_ifaces_meta c"
    and "mget (w_fw_scopes (fc_w c')) sid = Some s \<Longrightarrow> mget (w_fw_scopes (fc_w c)) sid = Some s"
    and "snd (adopt_fw_classifier c) = None \<Longrightarrow> \<not> fc_fw_partial c' \<and> no_leak (fc_w c')"
proof -
  define part where "part = (wk_error (fw_bind_entries (fc_w c)) \<noteq> None)"
  define es where "es = wk_entries (fw_bind_entries (fc_w c))"
  define binds where "binds = fold (\<lambda>(i, b). mput i b) es []"
  define refs where "refs = fold (\<lambda>(_, b). fold add_ref (bind_ids b)) binds []"
  define ids where "ids = wk_entries (fw_scope_ids (fc_w c))"
  define w' where "w' = (if part then fc_w c else fold (\<lambda>sid w. if mget refs sid \<noteq> None then w else fw_scope_delete sid w) ids (fc_w c))"
  have c': "c' = c\<lparr>fc_w := w', fc_fw_binds := binds, fc_fw_scope_refs := refs, fc_fw_partial := part\<rparr>"
    by (simp add: c'_def adopt_fw_classifier_def Let_def set_w_def part_def es_def binds_def refs_def ids_def w'_def)
  have wf: "mwf (w_fw_bind (fc_w c))" "mwf (w_fw_scopes (fc_w c))" using assms(1) by (auto simp: fw_safe_def)
  have es: "mwf es" "mget es i = Some b \<Longrightarrow> mget (w_fw_bind (fc_w c)) i = Some b" "\<not> part \<Longrightarrow> es = w_fw_bind (fc_w c)" for i b
    using wf by (auto simp: es_def part_def fw_bind_entries_def walk_def mwf_take dest: mget_take split: option.splits)
  have binds: "mwf binds" "mget binds i = mget es i" for i
    using mget_fold_put [OF es(1), of "[]" i] by (auto simp: binds_def mwf_fold_put split: option.split)
  have refs: "refs_as refs (uses binds)" using count_refs [OF refs_as_empty, of binds] by (simp add: refs_def)
  have w': "only_scopes (fc_w c) w'"
    "mget (w_fw_scopes w') s = (if \<not> part \<and> s \<in> set ids \<and> mget refs s = None then None else mget (w_fw_scopes (fc_w c)) s)" for s
    using fold_delete_unless [of "fc_w c" "\<lambda>sid. mget refs sid \<noteq> None" ids] by (auto simp: w'_def)
  have kept: "mget (w_fw_scopes w') sid = mget (w_fw_scopes (fc_w c)) sid"
    if "mget (w_fw_bind (fc_w c)) i = Some b" "sid \<in> set (bind_ids b)" "sid \<noteq> FW_SCOPE_NONE" for i b sid
  proof (cases part)
    case False
    then have "mget binds i = Some b" using that(1) es(3) binds(2) by simp
    then have "0 < uses binds sid" using uses_pos_get [OF binds(1)] that(2) by auto
    then have "mget refs sid \<noteq> None" using refs that(3) by (simp add: refs_as_def)
    then show ?thesis unfolding w'(2) by auto
  qed (simp add: w'(2))
  have "seen w' i = seen (fc_w c) i" by (rule seen_cong(1) [OF w'(1)]) (rule kept)
  then show "seen (fc_w c') i = seen (fc_w c) i" by (simp add: c')
  show "only_scopes (fc_w c) (fc_w c')" using w'(1) by (simp add: c')
  show "fc_ifaces_meta c' = fc_ifaces_meta c" by (simp add: c')
  show "mget (w_fw_scopes (fc_w c')) sid = Some s \<Longrightarrow> mget (w_fw_scopes (fc_w c)) sid = Some s"
    by (simp add: c' w'(2) split: if_splits)
  have bind: "w_fw_bind w' = w_fw_bind (fc_w c)" using w'(1) by (simp add: only_scopes_def)
  have "fw_safe w'" by (rule seen_cong(2) [OF w'(1) _ assms(1)]) (rule kept)
  moreover have "\<forall>i b. mget binds i = Some b \<longrightarrow> mget (w_fw_bind (fc_w c)) i = Some b" using es(2) by (simp add: binds(2))
  moreover have "\<not> part \<longrightarrow> (\<forall>i. mget (w_fw_bind (fc_w c)) i = mget binds i)" using es(3) by (simp add: binds(2))
  ultimately show "fw_inv c'" using binds(1) refs by (simp add: fw_inv_def c' bind)
  assume none: "snd (adopt_fw_classifier c) = None"
  then have np: "\<not> part" and all: "ids = mkeys (w_fw_scopes (fc_w c))"
    by (auto simp: adopt_fw_classifier_def Let_def part_def ids_def fw_scope_ids_def walk_def split: option.splits)
  have "sid \<noteq> FW_SCOPE_NONE \<and> 0 < uses (w_fw_bind (fc_w c)) sid" if "mget (w_fw_scopes w') sid \<noteq> None" for sid
  proof -
    have "mget refs sid \<noteq> None" using that np all mkeys_iff [of sid "w_fw_scopes (fc_w c)"] by (auto simp: w'(2) split: if_splits)
    then have "sid \<noteq> FW_SCOPE_NONE" "0 < uses binds sid" using refs by (auto simp: refs_as_def split: if_splits)
    then show ?thesis using uses_pos_get [OF binds(1)] uses_pos_get [OF wf(1)] binds(2) es(3) [OF np] by auto
  qed
  then show "\<not> fc_fw_partial c' \<and> no_leak (fc_w c')" using np bind by (simp add: c' no_leak_def)
qed

lemma heal_ok:
  assumes "fw_inv c"
  shows "fw_inv (fw_heal c)" and "seen (fc_w (fw_heal c)) i = seen (fc_w c) i" and "only_scopes (fc_w c) (fc_w (fw_heal c))"
    and "fc_ifaces_meta (fw_heal c) = fc_ifaces_meta c"
    and "mget (w_fw_scopes (fc_w (fw_heal c))) sid = Some s \<Longrightarrow> mget (w_fw_scopes (fc_w c)) sid = Some s"
proof -
  have safe: "fw_safe (fc_w c)" using assms by (simp add: fw_inv_def)
  note a = adopt_ok [OF safe]
  show "fw_inv (fw_heal c)" using a(1) assms by (simp add: fw_heal_def)
  show "seen (fc_w (fw_heal c)) i = seen (fc_w c) i" using a(2) by (simp add: fw_heal_def)
  show "only_scopes (fc_w c) (fc_w (fw_heal c))" using a(3) by (simp add: fw_heal_def)
  show "fc_ifaces_meta (fw_heal c) = fc_ifaces_meta c" using a(4) by (simp add: fw_heal_def)
  show "mget (w_fw_scopes (fc_w (fw_heal c))) sid = Some s \<Longrightarrow> mget (w_fw_scopes (fc_w c)) sid = Some s"
    using a(5) by (simp add: fw_heal_def split: if_splits)
qed

section \<open>Binding\<close>

lemma set_w_simps [simp]: "fc_w (set_w w c) = w" "fc_fw_scope_refs (set_w w c) = fc_fw_scope_refs c" "fc_fw_binds (set_w w c) = fc_fw_binds c"
    "fc_fw_partial (set_w w c) = fc_fw_partial c" "fc_ifaces_meta (set_w w c) = fc_ifaces_meta c" "set_w w (set_w w' c) = set_w w c"
  by (simp_all add: set_w_def)

definition same_core :: "FwCore \<Rightarrow> FwCore \<Rightarrow> bool" where
  "same_core c c' \<longleftrightarrow> fc_fw_scope_refs c' = fc_fw_scope_refs c \<and> fc_fw_binds c' = fc_fw_binds c
     \<and> fc_fw_partial c' = fc_fw_partial c \<and> fc_ifaces_meta c' = fc_ifaces_meta c"

lemma same_core_simps [simp]: "same_core c c" "same_core (set_w w c) c' = same_core c c'" "same_core c (set_w w c') = same_core c c'"
  by (simp_all add: same_core_def)

lemma create_scopes_spec:
  "create_scopes ss created c = (c', cr, e) \<Longrightarrow>
    e = None \<and> same_core c c' \<and> only_scopes (fc_w c) (fc_w c') \<and> set created \<subseteq> set cr
    \<and> (\<forall>s \<in> set ss. mget (fc_fw_scope_refs c) (sc_id s) \<noteq> None \<or> sc_id s \<in> set cr)
    \<and> (\<forall>sid. sid \<in> set cr \<longrightarrow> sid \<notin> set created \<longrightarrow>
          mget (fc_fw_scope_refs c) sid = None \<and> (\<exists>s \<in> set ss. sc_id s = sid \<and> mget (w_fw_scopes (fc_w c')) sid = Some s))
    \<and> (\<forall>sid. sid \<notin> set cr \<or> sid \<in> set created \<longrightarrow> mget (w_fw_scopes (fc_w c')) sid = mget (w_fw_scopes (fc_w c)) sid)"
proof (induction ss created c rule: create_scopes.induct)
  case (1 created c)
  then show ?case by simp
next
  case (2 s ss created c)
  let ?w = "fst (fw_scope_create s (fc_w c))"
  show ?case
  proof (cases "mget (fc_fw_scope_refs c) (sc_id s) \<noteq> None \<or> sc_id s \<in> set created")
    case True
    then have "create_scopes ss created c = (c', cr, e)" using "2.prems" by simp
    from "2.IH"(1) [OF True this] True show ?thesis by auto
  next
    case False
    have fc: "fw_scope_create s (fc_w c) = (?w, None)" by (simp add: fw_scope_create_def)
    have "create_scopes ss (created @ [sc_id s]) (set_w ?w c) = (c', cr, e)"
      using "2.prems" False by (subst (asm) create_scopes.simps, subst (asm) fc) simp
    from "2.IH"(2) [OF False fc [symmetric] refl this, unfolded set_w_simps same_core_simps]
    have IH: "e = None" "same_core c c'" "only_scopes ?w (fc_w c')" "set (created @ [sc_id s]) \<subseteq> set cr"
      "\<forall>t \<in> set ss. mget (fc_fw_scope_refs c) (sc_id t) \<noteq> None \<or> sc_id t \<in> set cr"
      "\<forall>sid. sid \<in> set cr \<longrightarrow> sid \<notin> set (created @ [sc_id s]) \<longrightarrow>
          mget (fc_fw_scope_refs c) sid = None \<and> (\<exists>t \<in> set ss. sc_id t = sid \<and> mget (w_fw_scopes (fc_w c')) sid = Some t)"
      "\<forall>sid. sid \<notin> set cr \<or> sid \<in> set (created @ [sc_id s]) \<longrightarrow> mget (w_fw_scopes (fc_w c')) sid = mget (w_fw_scopes ?w) sid"
      by blast+
    have "only_scopes (fc_w c) ?w" by (simp add: only_scopes_def fw_scope_create_def)
    moreover have "mget (w_fw_scopes ?w) sid = (if sid = sc_id s then Some s else mget (w_fw_scopes (fc_w c)) sid)" for sid
      by (simp add: fw_scope_create_def)
    ultimately show ?thesis using IH False only_scopes_trans by auto
  qed
qed

lemma discard_spec:
  "same_core c (fw_discard_scopes ids c) \<and> only_scopes (fc_w c) (fc_w (fw_discard_scopes ids c))
    \<and> (\<forall>s. mget (w_fw_scopes (fc_w (fw_discard_scopes ids c))) s = (if \<not> fc_fw_partial c \<and> s \<in> set ids then None else mget (w_fw_scopes (fc_w c)) s))"
  using fold_delete_unless [of "fc_w c" "\<lambda>_. False" ids] by (auto simp: fw_discard_scopes_def)

text \<open>The last references of the binding that was replaced or removed go with their scopes.\<close>

lemma release_opt:
  assumes "refs_as (fc_fw_scope_refs c) (\<lambda>sid. uses (fc_fw_binds c) sid + old_uses old sid)"
    and "mwf (fc_fw_binds c)" and "\<And>i. mget (fc_fw_binds c) i \<noteq> None \<Longrightarrow> ifindex_ok i"
  defines "c' \<equiv> (case old of None \<Rightarrow> c | Some prev \<Rightarrow> fw_release_scopes prev c)"
  shows "refs_as (fc_fw_scope_refs c') (uses (fc_fw_binds c)) \<and> fc_fw_binds c' = fc_fw_binds c \<and> fc_fw_partial c' = fc_fw_partial c
    \<and> fc_ifaces_meta c' = fc_ifaces_meta c \<and> only_scopes (fc_w c) (fc_w c')
    \<and> (\<forall>sid. mget (w_fw_scopes (fc_w c')) sid =
        (if sid \<noteq> FW_SCOPE_NONE \<and> old_uses old sid > 0 \<and> uses (fc_fw_binds c) sid = 0 \<and> \<not> fc_fw_partial c then None
         else mget (w_fw_scopes (fc_w c)) sid))"
proof (cases old)
  case None
  then show ?thesis using assms(1) by (simp add: c'_def)
next
  case (Some b)
  let ?f = "\<lambda>sid. uses (fc_fw_binds c) sid + count_list (bind_ids b) sid"
  have refs: "refs_as (fc_fw_scope_refs c) ?f" using assms(1) Some by simp
  have "?f sid \<le> 2 ^ 32" for sid
    using uses_bound [OF assms(2,3), of sid] count_bind_le [of b sid] by linarith
  then have le: "count_list (bind_ids b) sid \<le> ?f sid \<and> ?f sid \<le> 2 ^ 32" for sid by simp
  have c': "c' = fw_release_scopes b c" by (simp add: c'_def Some)
  note r = release_as [OF refs le, folded c']
  have fields: "fc_fw_binds c' = fc_fw_binds c" "fc_fw_partial c' = fc_fw_partial c" "fc_ifaces_meta c' = fc_ifaces_meta c"
    by (subst conjunct1 [OF conjunct2 [OF r]]; simp)+
  have eq: "(\<lambda>sid. ?f sid - count_list (bind_ids b) sid) = uses (fc_fw_binds c)" by auto
  have mem: "sid \<in> set (bind_ids b) \<and> ?f sid = count_list (bind_ids b) sid \<longleftrightarrow> old_uses old sid > 0 \<and> uses (fc_fw_binds c) sid = 0" for sid
    using Some count_list_0_iff [of "bind_ids b" sid] by auto
  have scopes: "mget (w_fw_scopes (fc_w c')) sid =
      (if sid \<noteq> FW_SCOPE_NONE \<and> (sid \<in> set (bind_ids b) \<and> ?f sid = count_list (bind_ids b) sid) \<and> \<not> fc_fw_partial c then None
       else mget (w_fw_scopes (fc_w c)) sid)" for sid
    using r by simp
  have "refs_as (fc_fw_scope_refs c') (uses (fc_fw_binds c))" "only_scopes (fc_w c) (fc_w c')" using r unfolding eq by blast+
  with fields show ?thesis unfolding scopes mem by auto
qed

text \<open>A core whose new binding is written, before the old one is released.\<close>

lemma bind_inv:
  assumes h: "fw_inv h" and i: "ifindex_ok i"
    and c1: "create_scopes ss [] h = (c1, created, None)"
    and ids: "\<And>sid. sid \<in> set (bind_ids bind) \<Longrightarrow> sid \<noteq> FW_SCOPE_NONE \<Longrightarrow> \<exists>s \<in> set ss. sc_id s = sid"
    and c2: "fc_fw_binds c2 = mput i bind (fc_fw_binds h)" "fc_fw_scope_refs c2 = fold add_ref (bind_ids bind) (fc_fw_scope_refs h)"
      "fc_fw_partial c2 = fc_fw_partial h" "w_fw_bind (fc_w c2) = mput i bind (w_fw_bind (fc_w h))" "w_fw_scopes (fc_w c2) = w_fw_scopes (fc_w c1)"
  defines "c3 \<equiv> (case mget (fc_fw_binds h) i of None \<Rightarrow> c2 | Some prev \<Rightarrow> fw_release_scopes prev c2)"
  shows "fw_inv c3" and "w_fw_bind (fc_w c3) = mput i bind (w_fw_bind (fc_w h))" and "fc_ifaces_meta c3 = fc_ifaces_meta c2"
    and "fc_fw_partial c3 = fc_fw_partial h"
    and "mget (w_fw_scopes (fc_w c3)) sid = Some x \<Longrightarrow> mget (w_fw_scopes (fc_w h)) sid = Some x \<or> x \<in> set ss \<and> sc_id x = sid"
    and "\<not> fc_fw_partial h \<Longrightarrow> no_leak (fc_w h) \<Longrightarrow> (\<And>s. s \<in> set ss \<Longrightarrow> sc_id s \<noteq> FW_SCOPE_NONE \<and> sc_id s \<in> set (bind_ids bind)) \<Longrightarrow> no_leak (fc_w c3)"
proof -
  note spec = create_scopes_spec [OF c1]
  let ?old = "mget (fc_fw_binds h) i" and ?B = "mput i bind (fc_fw_binds h)"
  have hi: "fw_safe (fc_w h)" "mwf (fc_fw_binds h)" "refs_as (fc_fw_scope_refs h) (uses (fc_fw_binds h))"
    "\<And>j b. mget (fc_fw_binds h) j = Some b \<Longrightarrow> mget (w_fw_bind (fc_w h)) j = Some b"
    "\<not> fc_fw_partial h \<Longrightarrow> mget (w_fw_bind (fc_w h)) j = mget (fc_fw_binds h) j" for j
    using h by (auto simp: fw_inv_def)
  have wfw: "mwf (w_fw_bind (fc_w h))" "mwf (w_fw_scopes (fc_w h))" using hi(1) by (auto simp: fw_safe_def)
  have B: "mwf ?B" "\<And>j. mget ?B j \<noteq> None \<Longrightarrow> ifindex_ok j"
    using hi i by (auto simp: fw_safe_def split: if_splits)
  have fun_eq: "(\<lambda>sid. uses (fc_fw_binds h) sid + count_list (bind_ids bind) sid) = (\<lambda>sid. uses ?B sid + old_uses ?old sid)"
    using uses_put [of i bind "fc_fw_binds h"] by (simp add: fun_eq_iff)
  have refs2: "refs_as (fc_fw_scope_refs c2) (\<lambda>sid. uses (fc_fw_binds c2) sid + old_uses ?old sid)"
    using fold_add_ref [OF hi(3), of "bind_ids bind"] by (simp add: c2 fun_eq)
  note rel = release_opt [OF refs2, unfolded c2, OF B, folded c3_def]
  show bind3: "w_fw_bind (fc_w c3) = mput i bind (w_fw_bind (fc_w h))" using rel c2 by (simp add: only_scopes_def)
  show "fc_ifaces_meta c3 = fc_ifaces_meta c2" "fc_fw_partial c3 = fc_fw_partial h" using rel c2 by simp_all
  have sc3: "mget (w_fw_scopes (fc_w c3)) sid = (if sid \<noteq> FW_SCOPE_NONE \<and> old_uses ?old sid > 0 \<and> uses ?B sid = 0 \<and> \<not> fc_fw_partial h then None
      else mget (w_fw_scopes (fc_w c1)) sid)" for sid using rel c2 by simp
  have sc1: "sid \<in> set created \<Longrightarrow> \<exists>s \<in> set ss. sc_id s = sid \<and> mget (w_fw_scopes (fc_w c1)) sid = Some s"
    "sid \<notin> set created \<Longrightarrow> mget (w_fw_scopes (fc_w c1)) sid = mget (w_fw_scopes (fc_w h)) sid" for sid
    using spec by auto
  have some1: "mget (w_fw_scopes (fc_w h)) sid \<noteq> None \<Longrightarrow> mget (w_fw_scopes (fc_w c1)) sid \<noteq> None" for sid
    using sc1 [of sid] by (cases "sid \<in> set created") auto
  show "mget (w_fw_scopes (fc_w c3)) sid = Some x \<Longrightarrow> mget (w_fw_scopes (fc_w h)) sid = Some x \<or> x \<in> set ss \<and> sc_id x = sid" for sid x
    using sc1 [of sid] by (cases "sid \<in> set created") (auto simp: sc3 split: if_splits)
  have live: "mget (w_fw_scopes (fc_w c3)) sid \<noteq> None"
    if "mget (mput i bind (w_fw_bind (fc_w h))) j = Some b" "sid \<in> set (bind_ids b)" "sid \<noteq> FW_SCOPE_NONE" for j b sid
  proof -
    note bound = that
    have one: "mget (w_fw_scopes (fc_w c1)) sid \<noteq> None"
    proof (cases "j = i")
      case True
      then obtain s where s: "s \<in> set ss" "sc_id s = sid" using ids [of sid] bound by auto
      show ?thesis
      proof (cases "sid \<in> set created")
        case False
        then have "mget (fc_fw_scope_refs h) sid \<noteq> None" using spec s by auto
        then have "0 < uses (fc_fw_binds h) sid" using hi(3) by (auto simp: refs_as_def split: if_splits)
        then obtain k b' where "mget (fc_fw_binds h) k = Some b'" "sid \<in> set (bind_ids b')" using uses_pos_get [OF hi(2)] by auto
        then have "mget (w_fw_bind (fc_w h)) k = Some b'" "sid \<in> set (bind_ids b')" using hi(4) by auto
        then have "mget (w_fw_scopes (fc_w h)) sid \<noteq> None" using hi(1) bound(3) unfolding fw_safe_def by blast
        then show ?thesis by (rule some1)
      qed (use sc1 in auto)
    next
      case False
      then have "mget (w_fw_scopes (fc_w h)) sid \<noteq> None" using that hi(1) by (auto simp: fw_safe_def)
      then show ?thesis by (rule some1)
    qed
    have "\<not> fc_fw_partial h \<Longrightarrow> 0 < uses ?B sid"
      using that hi(5) uses_pos_get [OF B(1), of sid] by (metis mget_put)
    then show ?thesis using one by (auto simp: sc3)
  qed
  have "mwf (w_fw_scopes (fc_w c3))" using rel c2 spec wfw(2) by (simp add: only_scopes_def)
  then have "fw_safe (fc_w c3)" using live hi(1) i wfw(1) by (auto simp: fw_safe_def bind3 split: if_splits)
  then show "fw_inv c3" using rel B(1) hi(4,5) c2 by (auto simp: fw_inv_def bind3)
  show "no_leak (fc_w c3)" if np: "\<not> fc_fw_partial h" and nl: "no_leak (fc_w h)"
    and ss: "\<And>s. s \<in> set ss \<Longrightarrow> sc_id s \<noteq> FW_SCOPE_NONE \<and> sc_id s \<in> set (bind_ids bind)"
  proof -
    have same: "uses (mput i bind (w_fw_bind (fc_w h))) sid > 0 \<longleftrightarrow> uses ?B sid > 0" for sid
      using uses_pos_get [OF B(1)] uses_pos_get [OF mwf_put [OF wfw(1)]] hi(5) [OF np] by simp
    have "sid \<noteq> FW_SCOPE_NONE \<and> uses ?B sid > 0" if some: "mget (w_fw_scopes (fc_w c3)) sid \<noteq> None" for sid
    proof (cases "sid \<in> set created")
      case True
      then obtain s where "s \<in> set ss" "sc_id s = sid" using sc1(1) by blast
      then have "sid \<noteq> FW_SCOPE_NONE" "sid \<in> set (bind_ids bind)" using ss by auto
      then show ?thesis using uses_pos_get [OF B(1)] by (metis mget_put)
    next
      case False
      then have "mget (w_fw_scopes (fc_w h)) sid \<noteq> None" using some sc1(2) by (auto simp: sc3 split: if_splits)
      then have ne: "sid \<noteq> FW_SCOPE_NONE" and "0 < uses (w_fw_bind (fc_w h)) sid" using nl by (auto simp: no_leak_def)
      then have "0 < uses (fc_fw_binds h) sid" using uses_pos_get [OF hi(2)] uses_pos_get [OF wfw(1)] hi(5) [OF np] by simp
      then have "0 < uses ?B sid + old_uses ?old sid" using uses_put [of i bind "fc_fw_binds h" sid] by linarith
      then show ?thesis using some ne np by (auto simp: sc3 split: if_splits)
    qed
    then show ?thesis by (simp add: no_leak_def bind3 same)
  qed
qed

text \<open>A failed binding write discards what was created for it.\<close>

lemma discard_inv:
  assumes h: "fw_inv h" and c1: "create_scopes ss [] h = (c1, created, None)"
  defines "c3 \<equiv> fw_discard_scopes created c1"
  shows "fw_inv c3" and "w_fw_bind (fc_w c3) = w_fw_bind (fc_w h)" and "fc_ifaces_meta c3 = fc_ifaces_meta h"
    and "fc_fw_partial c3 = fc_fw_partial h"
    and "mget (w_fw_scopes (fc_w c3)) sid = Some x \<Longrightarrow> mget (w_fw_scopes (fc_w h)) sid = Some x \<or> x \<in> set ss \<and> sc_id x = sid"
    and "\<not> fc_fw_partial h \<Longrightarrow> no_leak (fc_w h) \<Longrightarrow> no_leak (fc_w c3)"
proof -
  note spec = create_scopes_spec [OF c1] and dis = discard_spec [of c1 created, folded c3_def]
  have same: "fc_fw_scope_refs c3 = fc_fw_scope_refs h" "fc_fw_binds c3 = fc_fw_binds h" "fc_fw_partial c3 = fc_fw_partial h"
    "fc_ifaces_meta c3 = fc_ifaces_meta h" "fc_fw_partial c1 = fc_fw_partial h" using spec dis by (auto simp: same_core_def)
  then show "fc_ifaces_meta c3 = fc_ifaces_meta h" "fc_fw_partial c3 = fc_fw_partial h" by simp_all
  show bind3: "w_fw_bind (fc_w c3) = w_fw_bind (fc_w h)" using spec dis by (auto simp: only_scopes_def)
  have sc3: "mget (w_fw_scopes (fc_w c3)) sid = (if \<not> fc_fw_partial h \<and> sid \<in> set created then None else mget (w_fw_scopes (fc_w c1)) sid)" for sid
    using dis same by simp
  have sc1: "sid \<in> set created \<Longrightarrow> mget (fc_fw_scope_refs h) sid = None \<and> (\<exists>s \<in> set ss. sc_id s = sid \<and> mget (w_fw_scopes (fc_w c1)) sid = Some s)"
    "sid \<notin> set created \<Longrightarrow> mget (w_fw_scopes (fc_w c1)) sid = mget (w_fw_scopes (fc_w h)) sid" for sid
    using spec by auto
  show "mget (w_fw_scopes (fc_w c3)) sid = Some x \<Longrightarrow> mget (w_fw_scopes (fc_w h)) sid = Some x \<or> x \<in> set ss \<and> sc_id x = sid" for sid x
    using sc1 [of sid] by (cases "sid \<in> set created") (auto simp: sc3 split: if_splits)
  have hi: "fw_safe (fc_w h)" "mwf (fc_fw_binds h)" "refs_as (fc_fw_scope_refs h) (uses (fc_fw_binds h))"
    "\<not> fc_fw_partial h \<Longrightarrow> mget (w_fw_bind (fc_w h)) j = mget (fc_fw_binds h) j" for j
    using h by (auto simp: fw_inv_def)
  have live: "mget (w_fw_scopes (fc_w c3)) sid \<noteq> None"
    if "mget (w_fw_bind (fc_w h)) j = Some b" "sid \<in> set (bind_ids b)" "sid \<noteq> FW_SCOPE_NONE" for j b sid
  proof -
    have "mget (w_fw_scopes (fc_w h)) sid \<noteq> None" using that hi(1) unfolding fw_safe_def by blast
    then have one: "mget (w_fw_scopes (fc_w c1)) sid \<noteq> None" using sc1 [of sid] by (cases "sid \<in> set created") auto
    have "sid \<notin> set created" if "\<not> fc_fw_partial h"
    proof -
      have "mget (fc_fw_binds h) j = Some b" using hi(4) [OF that] \<open>mget (w_fw_bind (fc_w h)) j = Some b\<close> by simp
      then have "0 < uses (fc_fw_binds h) sid" using uses_pos_get [OF hi(2)] \<open>sid \<in> set (bind_ids b)\<close> by auto
      then show ?thesis using hi(3) sc1(1) [of sid] \<open>sid \<noteq> FW_SCOPE_NONE\<close> by (auto simp: refs_as_def)
    qed
    then show ?thesis using one by (auto simp: sc3)
  qed
  have "mwf (w_fw_scopes (fc_w c3))" using spec dis hi(1) by (simp add: only_scopes_def fw_safe_def)
  then have "fw_safe (fc_w c3)" using live hi(1) unfolding fw_safe_def bind3 by blast
  then show "fw_inv c3" using h by (simp add: fw_inv_def bind3 same)
  show "no_leak (fc_w c3)" if "\<not> fc_fw_partial h" "no_leak (fc_w h)"
    using that sc1(2) by (auto simp: no_leak_def bind3 sc3)
qed

lemma bind_scopes_ok:
  assumes inv: "fw_inv c" and i: "ifindex_ok i" and res: "fw_bind_scopes i ing eg c = (c', e)"
  defines "ss \<equiv> opt_list ing @ opt_list eg"
  shows "fw_inv c'" and "fc_ifaces_meta c' = fc_ifaces_meta c"
    and "mget (w_fw_bind (fc_w c')) j =
      (if j = i \<and> e = None then Some \<lparr>fb_ingress_scope = scope_ref ing, fb_egress_scope = scope_ref eg\<rparr> else mget (w_fw_bind (fc_w c)) j)"
    and "mget (w_fw_scopes (fc_w c')) sid = Some x \<Longrightarrow> mget (w_fw_scopes (fc_w c)) sid = Some x \<or> x \<in> set ss \<and> sc_id x = sid"
    and "\<not> fc_fw_partial c \<Longrightarrow> no_leak (fc_w c) \<Longrightarrow> (\<And>s. s \<in> set ss \<Longrightarrow> sc_id s \<noteq> FW_SCOPE_NONE) \<Longrightarrow> \<not> fc_fw_partial c' \<and> no_leak (fc_w c')"
proof -
  define h where "h = fw_heal c"
  let ?bind = "\<lparr>fb_ingress_scope = scope_ref ing, fb_egress_scope = scope_ref eg\<rparr>"
  note heal = heal_ok [OF inv, folded h_def]
  have hb: "w_fw_bind (fc_w h) = w_fw_bind (fc_w c)" using heal(3) by (simp add: only_scopes_def)
  have np: "h = c" if "\<not> fc_fw_partial c" using that by (simp add: h_def fw_heal_def)
  have ids: "\<exists>s \<in> set ss. sc_id s = sid" if "sid \<in> set (bind_ids ?bind)" "sid \<noteq> FW_SCOPE_NONE" for sid
    using that by (auto simp: bind_ids_def scope_ref_def ss_def opt_list_def split: option.splits)
  have mem: "sc_id s \<in> set (bind_ids ?bind)" if "s \<in> set ss" for s
    using that by (auto simp: bind_ids_def scope_ref_def ss_def opt_list_def split: option.splits)
  show "fw_inv c'" and "fc_ifaces_meta c' = fc_ifaces_meta c"
    and "mget (w_fw_bind (fc_w c')) j = (if j = i \<and> e = None then Some ?bind else mget (w_fw_bind (fc_w c)) j)"
    and "mget (w_fw_scopes (fc_w c')) sid = Some x \<Longrightarrow> mget (w_fw_scopes (fc_w c)) sid = Some x \<or> x \<in> set ss \<and> sc_id x = sid"
    and "\<not> fc_fw_partial c \<Longrightarrow> no_leak (fc_w c) \<Longrightarrow> (\<And>s. s \<in> set ss \<Longrightarrow> sc_id s \<noteq> FW_SCOPE_NONE) \<Longrightarrow> \<not> fc_fw_partial c' \<and> no_leak (fc_w c')"
  proof (atomize (full), goal_cases)
    case 1
    show ?case
    proof (cases "mget (fc_fw_binds h) i = Some ?bind")
      case True
      then have "c' = h" "e = None" using res by (auto simp: fw_bind_scopes_def Let_def h_def)
      moreover have "mget (w_fw_bind (fc_w c)) i = Some ?bind" using True heal(1) hb by (auto simp: fw_inv_def)
      ultimately show ?thesis using heal np hb by auto
    next
      case False
      obtain c1 created e1 where c1: "create_scopes ss [] h = (c1, created, e1)" by (cases "create_scopes ss [] h") auto
      then have e1: "e1 = None" using create_scopes_spec by blast
      note c1 = c1 [unfolded e1] and spec = create_scopes_spec [OF c1]
      have fault: "w_fw_bind_fault (fc_w c1) = w_fw_bind_fault (fc_w h)" and b1: "w_fw_bind (fc_w c1) = w_fw_bind (fc_w h)"
        and same: "same_core h c1" using spec by (auto simp: only_scopes_def)
      show ?thesis
      proof (cases "w_fw_bind_fault (fc_w h)")
        case True
        have "c' = fw_discard_scopes created c1" "e \<noteq> None"
          using res False True fault c1 by (auto simp: fw_bind_scopes_def Let_def h_def [symmetric] ss_def [symmetric] fw_bind_upsert_def set_w_def)
        note d = discard_inv [OF heal(1) c1, folded this(1)] and e = this(2)
        have "mget (w_fw_scopes (fc_w c')) sid = Some x \<longrightarrow> mget (w_fw_scopes (fc_w c)) sid = Some x \<or> x \<in> set ss \<and> sc_id x = sid"
          using d(5) [of sid x] heal(5) [of sid x] by blast
        moreover have "\<not> fc_fw_partial c \<longrightarrow> no_leak (fc_w c) \<longrightarrow> \<not> fc_fw_partial c' \<and> no_leak (fc_w c')" using d(4,6) np by auto
        ultimately show ?thesis using d(1,2,3) e hb heal(4) by auto
      next
        case nf: False
        let ?w = "(fc_w c1)\<lparr>w_fw_bind_writes := w_fw_bind_writes (fc_w c1) + 1, w_fw_bind := mput i ?bind (w_fw_bind (fc_w c1)), w_fw_epoch := w_fw_epoch (fc_w c1) + 1\<rparr>"
        let ?c2 = "c1\<lparr>fc_fw_binds := mput i ?bind (fc_fw_binds c1), fc_fw_scope_refs := fold add_ref (bind_ids ?bind) (fc_fw_scope_refs c1), fc_w := ?w\<rparr>"
        have c': "c' = (case mget (fc_fw_binds h) i of None \<Rightarrow> ?c2 | Some prev \<Rightarrow> fw_release_scopes prev ?c2)" "e = None"
          using res False nf fault c1
          by (auto simp: fw_bind_scopes_def Let_def h_def [symmetric] ss_def [symmetric] fw_bind_upsert_def fw_epoch_bump_def set_w_def
              split: option.split)
        have c2: "fc_fw_binds ?c2 = mput i ?bind (fc_fw_binds h)" "fc_fw_scope_refs ?c2 = fold add_ref (bind_ids ?bind) (fc_fw_scope_refs h)"
          "fc_fw_partial ?c2 = fc_fw_partial h" "w_fw_bind (fc_w ?c2) = mput i ?bind (w_fw_bind (fc_w h))" "w_fw_scopes (fc_w ?c2) = w_fw_scopes (fc_w c1)"
          "fc_ifaces_meta ?c2 = fc_ifaces_meta h"
          using same b1 by (simp_all add: same_core_def)
        note b = bind_inv [OF heal(1) i c1 ids c2(1-5), folded c'(1)]
        have "mget (w_fw_scopes (fc_w c')) sid = Some x \<longrightarrow> mget (w_fw_scopes (fc_w c)) sid = Some x \<or> x \<in> set ss \<and> sc_id x = sid"
          using b(5) [of sid x] heal(5) [of sid x] by blast
        moreover have "\<not> fc_fw_partial c \<longrightarrow> no_leak (fc_w c) \<longrightarrow> (\<forall>s. s \<in> set ss \<longrightarrow> sc_id s \<noteq> FW_SCOPE_NONE) \<longrightarrow> \<not> fc_fw_partial c' \<and> no_leak (fc_w c')"
          using b(4,6) np mem by auto
        ultimately show ?thesis using b(1,2,3) c'(2) c2(6) hb heal(4) by simp
      qed
    qed
  qed
qed

section \<open>Removal\<close>

lemma remove_ok:
  fixes i :: u32
  assumes inv: "fw_inv c"
  defines "c' \<equiv> remove_fw_rules i c"
  shows "fw_inv c'" and "fc_ifaces_meta c' = fc_ifaces_meta c"
    and "j \<noteq> i \<Longrightarrow> mget (w_fw_bind (fc_w c')) j = mget (w_fw_bind (fc_w c)) j"
    and "\<not> fc_fw_partial c \<Longrightarrow> mget (w_fw_bind (fc_w c')) i = None"
    and "mget (w_fw_scopes (fc_w c')) sid = Some x \<Longrightarrow> mget (w_fw_scopes (fc_w c)) sid = Some x"
    and "\<not> fc_fw_partial c \<Longrightarrow> no_leak (fc_w c) \<Longrightarrow> \<not> fc_fw_partial c' \<and> no_leak (fc_w c')"
proof -
  define h where "h = fw_heal c"
  note heal = heal_ok [OF inv, folded h_def]
  have hb: "w_fw_bind (fc_w h) = w_fw_bind (fc_w c)" using heal(3) by (simp add: only_scopes_def)
  have np: "h = c" if "\<not> fc_fw_partial c" using that by (simp add: h_def fw_heal_def)
  have hi: "fw_safe (fc_w h)" "mwf (fc_fw_binds h)" "refs_as (fc_fw_scope_refs h) (uses (fc_fw_binds h))"
    "\<And>j b. mget (fc_fw_binds h) j = Some b \<Longrightarrow> mget (w_fw_bind (fc_w h)) j = Some b"
    "\<not> fc_fw_partial h \<Longrightarrow> mget (w_fw_bind (fc_w h)) j = mget (fc_fw_binds h) j" for j
    using heal(1) by (auto simp: fw_inv_def)
  have wfw: "mwf (w_fw_bind (fc_w h))" using hi(1) by (simp add: fw_safe_def)
  show "fw_inv c'" and "fc_ifaces_meta c' = fc_ifaces_meta c"
    and "j \<noteq> i \<Longrightarrow> mget (w_fw_bind (fc_w c')) j = mget (w_fw_bind (fc_w c)) j"
    and "\<not> fc_fw_partial c \<Longrightarrow> mget (w_fw_bind (fc_w c')) i = None"
    and "mget (w_fw_scopes (fc_w c')) sid = Some x \<Longrightarrow> mget (w_fw_scopes (fc_w c)) sid = Some x"
    and "\<not> fc_fw_partial c \<Longrightarrow> no_leak (fc_w c) \<Longrightarrow> \<not> fc_fw_partial c' \<and> no_leak (fc_w c')"
  proof (atomize (full), goal_cases)
    case 1
    show ?case
    proof (cases "mget (fc_fw_binds h) i")
      case None
      then have "c' = h" by (simp add: c'_def remove_fw_rules_def Let_def h_def)
      then show ?thesis using heal np hb None hi(5) [of i] by auto
    next
      case (Some b)
      let ?B = "mdel i (fc_fw_binds h)"
      define c2 where "c2 = h\<lparr>fc_fw_binds := ?B, fc_w := (fc_w h)\<lparr>w_fw_bind := mdel i (w_fw_bind (fc_w h)), w_fw_epoch := w_fw_epoch (fc_w h) + 1\<rparr>\<rparr>"
      have c': "c' = (case Some b of None \<Rightarrow> c2 | Some prev \<Rightarrow> fw_release_scopes prev c2)" using Some
        by (simp add: c'_def c2_def remove_fw_rules_def Let_def h_def [symmetric] fw_bind_remove_def fw_epoch_bump_def set_w_def)
      have B: "mwf ?B" "\<And>j. mget ?B j \<noteq> None \<Longrightarrow> ifindex_ok j"
        using hi(1,2,4) by (auto simp: fw_safe_def split: if_splits)
      have "uses (fc_fw_binds h) = (\<lambda>sid. uses ?B sid + old_uses (Some b) sid)"
        using uses_del [OF hi(2), of i] Some by (simp add: fun_eq_iff)
      then have refs2: "refs_as (fc_fw_scope_refs c2) (\<lambda>sid. uses (fc_fw_binds c2) sid + old_uses (Some b) sid)"
        using hi(3) by (simp add: c2_def)
      have B2: "fc_fw_binds c2 = ?B" by (simp add: c2_def)
      note rel = release_opt [OF refs2, unfolded B2, OF B, folded c']
      have bind3: "w_fw_bind (fc_w c') = mdel i (w_fw_bind (fc_w h))" using rel by (simp add: only_scopes_def c2_def)
      have part: "fc_fw_partial c' = fc_fw_partial h" and meta: "fc_ifaces_meta c' = fc_ifaces_meta h" using rel by (auto simp: c2_def)
      have sc3: "mget (w_fw_scopes (fc_w c')) sid = (if sid \<noteq> FW_SCOPE_NONE \<and> old_uses (Some b) sid > 0 \<and> uses ?B sid = 0 \<and> \<not> fc_fw_partial h then None
          else mget (w_fw_scopes (fc_w h)) sid)" for sid
      proof -
        have "w_fw_scopes (fc_w c2) = w_fw_scopes (fc_w h)" "fc_fw_partial c2 = fc_fw_partial h" by (simp_all add: c2_def)
        then show ?thesis using rel by metis
      qed
      have live: "mget (w_fw_scopes (fc_w c')) sid \<noteq> None"
        if "mget (mdel i (w_fw_bind (fc_w h))) j = Some b'" "sid \<in> set (bind_ids b')" "sid \<noteq> FW_SCOPE_NONE" for j b' sid
      proof -
        have j: "j \<noteq> i" "mget (w_fw_bind (fc_w h)) j = Some b'" using that(1) by (auto split: if_splits)
        then have some: "mget (w_fw_scopes (fc_w h)) sid \<noteq> None" using that(2,3) hi(1) unfolding fw_safe_def by blast
        have "0 < uses ?B sid" if "\<not> fc_fw_partial h"
        proof -
          have "mget ?B j = Some b'" using j hi(5) [OF that] by simp
          then show ?thesis using uses_pos_get [OF B(1)] \<open>sid \<in> set (bind_ids b')\<close> by blast
        qed
        then show ?thesis using some by (auto simp: sc3)
      qed
      have "mwf (w_fw_scopes (fc_w c'))" using rel hi(1) by (simp add: only_scopes_def fw_safe_def c2_def)
      moreover have "\<forall>j b. mget (mdel i (w_fw_bind (fc_w h))) j = Some b \<longrightarrow> ifindex_ok j" using hi(1) by (auto simp: fw_safe_def split: if_splits)
      ultimately have "fw_safe (fc_w c')" using live wfw unfolding fw_safe_def bind3 by (auto simp del: mget_del)
      then have "fw_inv c'" using rel B(1) hi(4,5) B2 part by (auto simp: fw_inv_def bind3)
      moreover have "mget (w_fw_scopes (fc_w c')) sid = Some x \<longrightarrow> mget (w_fw_scopes (fc_w c)) sid = Some x"
        using heal(5) [of sid x] by (auto simp: sc3 split: if_splits)
      moreover have "no_leak (fc_w c')" if "\<not> fc_fw_partial c" "no_leak (fc_w c)"
      proof -
        note hc = np [OF that(1)]
        have same: "uses (mdel i (w_fw_bind (fc_w h))) sid > 0 \<longleftrightarrow> uses ?B sid > 0" for sid
          using uses_pos_get [OF B(1)] uses_pos_get [OF mwf_del [OF wfw]] hi(5) that(1) hc by simp
        have "sid \<noteq> FW_SCOPE_NONE \<and> uses ?B sid > 0" if some: "mget (w_fw_scopes (fc_w c')) sid \<noteq> None" for sid
        proof -
          have "mget (w_fw_scopes (fc_w h)) sid \<noteq> None" using some by (auto simp: sc3 split: if_splits)
          then have ne: "sid \<noteq> FW_SCOPE_NONE" and "0 < uses (w_fw_bind (fc_w h)) sid" using \<open>no_leak (fc_w c)\<close> hc by (auto simp: no_leak_def)
          then have "0 < uses (fc_fw_binds h) sid" using uses_pos_get [OF hi(2)] uses_pos_get [OF wfw] hi(5) \<open>\<not> fc_fw_partial c\<close> hc by simp
          then have "0 < uses ?B sid + old_uses (Some b) sid" using uses_del [OF hi(2), of i sid] Some by simp
          then show ?thesis using some ne \<open>\<not> fc_fw_partial c\<close> hc unfolding sc3 by (auto split: if_splits)
        qed
        then show ?thesis by (simp add: no_leak_def bind3 same)
      qed
      ultimately show ?thesis using bind3 hb meta heal(4) part np by auto
    qed
  qed
qed

end
