(* ===== verification/Fw_Manage.thy ===== *)
theory Fw_Manage
  imports Fw_Control_Inv
begin

text \<open>
  Runs of the firewall control core and what the datapath decides under them: replaces, removals,
  restarts with adopt, injected write failures and cut walks, in any order.
\<close>

section \<open>Runs\<close>

datatype FwOp =
    Attach "byte list" IfaceMeta
  | Forget "byte list"
  | Replace "byte list" "(byte list \<times> FwRule) list" "(byte list \<times> FwRule) list"
  | Detach u32
  | Restart
  | BindFault bool
  | WalkCut "(string, nat) gomap"

definition fw_exec :: "FwOp \<Rightarrow> FwCore \<Rightarrow> FwCore" where
  "fw_exec op c = (case op of
     Attach sid m \<Rightarrow> register_iface_meta sid m c
   | Forget sid \<Rightarrow> forget_iface_meta sid c
   | Replace sid v4 v6 \<Rightarrow> fst (replace_interface_fw sid v4 v6 c)
   | Detach i \<Rightarrow> remove_fw_rules i c
   | Restart \<Rightarrow> fst (adopt_fw_classifier (core_new (fc_w c)))
   | BindFault f \<Rightarrow> set_w ((fc_w c)\<lparr>w_fw_bind_fault := f\<rparr>) c
   | WalkCut cuts \<Rightarrow> set_w ((fc_w c)\<lparr>w_walk_cut := cuts\<rparr>) c)"

definition empty_maps :: FwWriter where
  "empty_maps = \<lparr>w_fw_bind = [], w_fw_scopes = [], w_fw_scope_creates = 0, w_fw_bind_writes = 0, w_fw_bind_fault = False,
     w_fw_epoch = 0, w_walk_cut = []\<rparr>"

definition fw_run :: "FwOp list \<Rightarrow> FwCore" where
  "fw_run ops = fold fw_exec ops (core_new empty_maps)"

text \<open>Interfaces are attached with the index the kernel gave them.\<close>

definition op_ok :: "FwOp \<Rightarrow> bool" where
  "op_ok op = (case op of Attach sid m \<Rightarrow> ifindex_ok (im_ifindex m) | _ \<Rightarrow> True)"

text \<open>No two different scopes in play have the same content id.\<close>

definition no_collision :: "FwWriter \<Rightarrow> Scope list \<Rightarrow> bool" where
  "no_collision w ss \<longleftrightarrow> list_all (\<lambda>s. (case mget (w_fw_scopes w) (sc_id s) of None \<Rightarrow> True | Some x \<Rightarrow> x = s)
     \<and> list_all (\<lambda>t. sc_id t = sc_id s \<longrightarrow> t = s) ss) ss"

definition collision_free :: "FwCore \<Rightarrow> (byte list \<times> FwRule) list \<Rightarrow> (byte list \<times> FwRule) list \<Rightarrow> bool" where
  "collision_free c v4 v6 = (case compile_iface (map snd v4) (map snd v6) of
     Inl _ \<Rightarrow> True
   | Inr (ingress, egress) \<Rightarrow> no_collision (fc_w c) (opt_list ingress @ opt_list egress))"

section \<open>The invariant of every run\<close>

definition metas_ok :: "FwCore \<Rightarrow> bool" where
  "metas_ok c \<longleftrightarrow> (\<forall>sid m. mget (fc_ifaces_meta c) sid = Some m \<longrightarrow> ifindex_ok (im_ifindex m))"

lemma replace_cases:
  assumes "replace_interface_fw sid v4 v6 c = (c', e)"
  obtains "c' = c" "e \<noteq> None"
  | m ing eg where "mget (fc_ifaces_meta c) sid = Some m" "compile_iface (map snd v4) (map snd v6) = Inr (ing, eg)"
    "fw_bind_scopes (im_ifindex m) ing eg c = (c', e)"
  using assms by (auto simp: replace_interface_fw_def fw_ifindex_def split: option.splits sum.splits)

lemma compile_iface_ids:
  assumes "compile_iface v4 v6 = Inr (ing, eg)" and "s \<in> set (opt_list ing @ opt_list eg)"
  shows "sc_id s \<noteq> FW_SCOPE_NONE"
  using assms scope_id_nonzero
  by (auto simp: compile_iface_def compile_scope_def opt_list_def split: sum.splits option.splits if_splits)

lemma replace_inv:
  assumes "fw_inv c" and "metas_ok c" and "replace_interface_fw sid v4 v6 c = (c', e)"
  shows "fw_inv c'" and "metas_ok c'"
    and "\<not> fc_fw_partial c \<Longrightarrow> no_leak (fc_w c) \<Longrightarrow> \<not> fc_fw_partial c' \<and> no_leak (fc_w c')"
  using assms(3)
proof (atomize (full), cases rule: replace_cases)
  case 1
  then show "fw_inv c' \<and> metas_ok c' \<and> (\<not> fc_fw_partial c \<longrightarrow> no_leak (fc_w c) \<longrightarrow> \<not> fc_fw_partial c' \<and> no_leak (fc_w c'))"
    using assms by simp
next
  case (2 m ing eg)
  have i: "ifindex_ok (im_ifindex m)" using 2(1) assms(2) by (auto simp: metas_ok_def)
  note b = bind_scopes_ok [OF assms(1) i 2(3)]
  show "fw_inv c' \<and> metas_ok c' \<and> (\<not> fc_fw_partial c \<longrightarrow> no_leak (fc_w c) \<longrightarrow> \<not> fc_fw_partial c' \<and> no_leak (fc_w c'))"
    using b(1,2,5) compile_iface_ids [OF 2(2)] assms(2) by (auto simp: metas_ok_def)
qed

lemma empty_inv: "fw_inv (core_new empty_maps)" "metas_ok (core_new empty_maps)" "no_leak (fc_w (core_new empty_maps))"
  by (auto simp: core_new_def empty_maps_def fw_inv_def fw_safe_def metas_ok_def no_leak_def refs_as_def)

lemma exec_inv:
  assumes "fw_inv c" and "metas_ok c" and "op_ok op"
  shows "fw_inv (fw_exec op c)" and "metas_ok (fw_exec op c)"
proof (atomize (full), cases op)
  case (Replace sid v4 v6)
  obtain c' e where r: "replace_interface_fw sid v4 v6 c = (c', e)" by fastforce
  then show "fw_inv (fw_exec op c) \<and> metas_ok (fw_exec op c)"
    using replace_inv [OF assms(1,2) r] Replace by (simp add: fw_exec_def)
next
  case (Detach i)
  then show "fw_inv (fw_exec op c) \<and> metas_ok (fw_exec op c)"
    using remove_ok [OF assms(1)] assms(2) by (auto simp: fw_exec_def metas_ok_def)
next
  case Restart
  have "fw_safe (fc_w (core_new (fc_w c)))" using assms(1) by (simp add: core_new_def fw_inv_def)
  then show "fw_inv (fw_exec op c) \<and> metas_ok (fw_exec op c)"
    using adopt_ok [of "core_new (fc_w c)"] Restart by (auto simp: fw_exec_def metas_ok_def core_new_def)
qed (use assms in \<open>auto simp: fw_exec_def op_ok_def metas_ok_def fw_inv_def fw_safe_def register_iface_meta_def forget_iface_meta_def split: if_splits\<close>)

lemma run_inv: "list_all op_ok ops \<Longrightarrow> fw_inv (fw_run ops) \<and> metas_ok (fw_run ops)"
proof (induction ops rule: rev_induct)
  case (snoc op ops)
  then show ?case using exec_inv [of "fw_run ops" op] by (simp add: fw_run_def)
qed (simp add: fw_run_def empty_inv)

section \<open>What the datapath sees\<close>

lemma no_collision_iff:
  "no_collision w ss \<longleftrightarrow> (\<forall>s \<in> set ss. (\<forall>x. mget (w_fw_scopes w) (sc_id s) = Some x \<longrightarrow> x = s) \<and> (\<forall>t \<in> set ss. sc_id t = sc_id s \<longrightarrow> t = s))"
  by (auto simp: no_collision_def list_all_iff split: option.split)

lemma replace_seen:
  assumes inv: "fw_inv c" "metas_ok c" and free: "collision_free c v4 v6" and res: "replace_interface_fw sid v4 v6 c = (c', e)"
    and other: "e = None \<longrightarrow> map_option im_ifindex (mget (fc_ifaces_meta c) sid) \<noteq> Some j"
  shows "seen (fc_w c') j = seen (fc_w c) j"
  using res
proof (cases rule: replace_cases)
  case (2 m ing eg)
  have i: "ifindex_ok (im_ifindex m)" using 2(1) inv(2) by (auto simp: metas_ok_def)
  note b = bind_scopes_ok [OF inv(1) i 2(3)]
  have nc: "no_collision (fc_w c) (opt_list ing @ opt_list eg)" using free 2(2) by (simp add: collision_free_def)
  have bind: "mget (w_fw_bind (fc_w c')) j = mget (w_fw_bind (fc_w c)) j" using b(3) [of j] other 2(1) by auto
  have "mget (w_fw_scopes (fc_w c')) k = mget (w_fw_scopes (fc_w c)) k"
    if "mget (w_fw_bind (fc_w c)) j = Some bd" "k \<in> set (bind_ids bd)" "k \<noteq> FW_SCOPE_NONE" for bd k
  proof -
    have "mget (w_fw_scopes (fc_w c)) k \<noteq> None" using that inv(1) unfolding fw_inv_def fw_safe_def by blast
    then obtain x where x: "mget (w_fw_scopes (fc_w c)) k = Some x" by auto
    have "mget (w_fw_scopes (fc_w c')) k \<noteq> None" using that b(1) bind unfolding fw_inv_def fw_safe_def by metis
    then obtain y where y: "mget (w_fw_scopes (fc_w c')) k = Some y" by auto
    from b(4) [OF y] x nc have "x = y" unfolding no_collision_iff by auto
    then show ?thesis using x y by simp
  qed
  then show ?thesis using bind by (auto simp: seen_def map_option_case split: option.split)
qed simp

lemma replace_bound:
  assumes inv: "fw_inv c" "metas_ok c" and free: "collision_free c v4 v6" and res: "replace_interface_fw sid v4 v6 c = (c', None)"
  obtains m ing eg where "mget (fc_ifaces_meta c) sid = Some m" "compile_iface (map snd v4) (map snd v6) = Inr (ing, eg)"
    "bound_to (maps_of (fc_w c')) (im_ifindex m) FW_DIR_INGRESS ing" "bound_to (maps_of (fc_w c')) (im_ifindex m) FW_DIR_EGRESS eg"
  using res
proof (cases rule: replace_cases)
  case (2 m ing eg)
  have i: "ifindex_ok (im_ifindex m)" using 2(1) inv(2) by (auto simp: metas_ok_def)
  note b = bind_scopes_ok [OF inv(1) i 2(3)]
  let ?ss = "opt_list ing @ opt_list eg" and ?bind = "\<lparr>fb_ingress_scope = scope_ref ing, fb_egress_scope = scope_ref eg\<rparr>"
  have nc: "no_collision (fc_w c) ?ss" using free 2(2) by (simp add: collision_free_def)
  have bind: "mget (w_fw_bind (fc_w c')) (im_ifindex m) = Some ?bind" using b(3) [of "im_ifindex m"] by simp
  have held: "mget (w_fw_scopes (fc_w c')) (sc_id s) = Some s" if "s \<in> set ?ss" for s
  proof -
    have "sc_id s \<in> set (bind_ids ?bind)" using that by (auto simp: bind_ids_def scope_ref_def opt_list_def split: option.splits)
    then have "mget (w_fw_scopes (fc_w c')) (sc_id s) \<noteq> None"
      using b(1) bind compile_iface_ids [OF 2(2) that] unfolding fw_inv_def fw_safe_def by blast
    then obtain y where y: "mget (w_fw_scopes (fc_w c')) (sc_id s) = Some y" by auto
    from b(4) [OF y] nc that have "y = s" unfolding no_collision_iff by auto
    then show ?thesis using y by simp
  qed
  have dirs: "FW_DIR_INGRESS \<noteq> FW_DIR_EGRESS" by (simp add: FW_DIR_INGRESS_def FW_DIR_EGRESS_def)
  have shown: "shows_scope (maps_of (fc_w c')) s" if "s \<in> set ?ss" for s
    using held [OF that] by (simp add: shows_scope_def maps_of_def)
  have "bound_to (maps_of (fc_w c')) (im_ifindex m) FW_DIR_INGRESS ing" "bound_to (maps_of (fc_w c')) (im_ifindex m) FW_DIR_EGRESS eg"
    using bind dirs shown by (auto simp: bound_to_def maps_of_def bind_scope_def scope_ref_def opt_list_def split: option.split)
  then show thesis using 2(1,2) by (intro that)
qed simp

text \<open>An operation that is neither a successful replace nor a removal of the interface.\<close>

definition spares :: "u32 \<Rightarrow> FwOp \<Rightarrow> FwCore \<Rightarrow> bool" where
  "spares i op c = (case op of
     Replace sid v4 v6 \<Rightarrow> collision_free c v4 v6
       \<and> (snd (replace_interface_fw sid v4 v6 c) = None \<longrightarrow> map_option im_ifindex (mget (fc_ifaces_meta c) sid) \<noteq> Some i)
   | Detach j \<Rightarrow> j \<noteq> i
   | _ \<Rightarrow> True)"

lemma exec_seen:
  assumes inv: "fw_inv c" "metas_ok c" and sp: "spares i op c"
  shows "seen (fc_w (fw_exec op c)) i = seen (fc_w c) i"
proof (cases op)
  case (Replace sid v4 v6)
  obtain c' e where r: "replace_interface_fw sid v4 v6 c = (c', e)" by fastforce
  then have "e = None \<longrightarrow> map_option im_ifindex (mget (fc_ifaces_meta c) sid) \<noteq> Some i" "collision_free c v4 v6"
    using sp Replace by (auto simp: spares_def)
  then show ?thesis using replace_seen [OF inv _ r] r Replace by (simp add: fw_exec_def)
next
  case (Detach j)
  then have "j \<noteq> i" using sp by (simp add: spares_def)
  note r = remove_ok [OF inv(1), where i = j]
  have bind: "mget (w_fw_bind (fc_w (remove_fw_rules j c))) i = mget (w_fw_bind (fc_w c)) i" using r(3) \<open>j \<noteq> i\<close> by simp
  have "mget (w_fw_scopes (fc_w (remove_fw_rules j c))) k = mget (w_fw_scopes (fc_w c)) k"
    if "mget (w_fw_bind (fc_w c)) i = Some bd" "k \<in> set (bind_ids bd)" "k \<noteq> FW_SCOPE_NONE" for bd k
  proof -
    have "mget (w_fw_scopes (fc_w (remove_fw_rules j c))) k \<noteq> None" using that r(1) bind unfolding fw_inv_def fw_safe_def by metis
    then show ?thesis using r(5) by (metis not_None_eq)
  qed
  then show ?thesis using bind Detach by (auto simp: fw_exec_def seen_def map_option_case split: option.split)
next
  case Restart
  have "fw_safe (fc_w (core_new (fc_w c)))" using inv(1) by (simp add: core_new_def fw_inv_def)
  then show ?thesis using adopt_ok(2) [of "core_new (fc_w c)" i] Restart by (simp add: fw_exec_def core_new_def)
qed (simp_all add: fw_exec_def seen_def register_iface_meta_def forget_iface_meta_def cong: if_cong)

definition is_cut :: "FwOp \<Rightarrow> bool" where
  "is_cut op = (case op of WalkCut _ \<Rightarrow> True | _ \<Rightarrow> False)"

text \<open>Only a cut sets the walks to be cut.\<close>

lemma walk_cut_release [simp]: "w_walk_cut (fc_w (fw_release_scopes b c)) = w_walk_cut (fc_w c)"
  by (simp add: fw_release_scopes_def bind_ids_def release_one_def Let_def fw_scope_delete_def split: option.split)

lemma walk_cut_adopt [simp]: "w_walk_cut (fc_w (fst (adopt_fw_classifier c))) = w_walk_cut (fc_w c)"
proof -
  have "w_walk_cut (fold (\<lambda>sid w. if P sid then w else fw_scope_delete sid w) ids w) = w_walk_cut w" for P ids w
    using fold_delete_unless [of w P ids] by (simp add: only_scopes_def)
  then show ?thesis by (simp add: adopt_fw_classifier_def Let_def)
qed

lemma walk_cut_heal [simp]: "w_walk_cut (fc_w (fw_heal c)) = w_walk_cut (fc_w c)"
  by (simp add: fw_heal_def)

lemma walk_cut_create: "create_scopes ss [] c = (c', cr, e) \<Longrightarrow> e = None \<and> w_walk_cut (fc_w c') = w_walk_cut (fc_w c)"
  using create_scopes_spec [of ss "[]" c c' cr e] by (simp add: only_scopes_def)

lemma walk_cut_bind: "w_walk_cut (fc_w (fst (fw_bind_scopes i ing eg c))) = w_walk_cut (fc_w c)"
proof -
  have "w_walk_cut (fc_w (fw_discard_scopes ids c)) = w_walk_cut (fc_w c)" for ids c
    using discard_spec [of c ids] by (simp add: only_scopes_def)
  then show ?thesis
    using walk_cut_create [of "opt_list ing @ opt_list eg" "fw_heal c"]
    by (auto simp: fw_bind_scopes_def Let_def fw_bind_upsert_def fw_epoch_bump_def split: option.splits prod.splits)
qed

lemma walk_cut_exec: "\<not> is_cut op \<Longrightarrow> w_walk_cut (fc_w (fw_exec op c)) = w_walk_cut (fc_w c)"
proof (cases op)
  case (Replace sid v4 v6)
  then show ?thesis using walk_cut_bind
    by (auto simp: fw_exec_def replace_interface_fw_def split: sum.splits)
qed (auto simp: is_cut_def fw_exec_def register_iface_meta_def forget_iface_meta_def remove_fw_rules_def Let_def fw_bind_remove_def
      fw_epoch_bump_def core_new_def split: option.split)

lemma exec_tight:
  assumes "fw_inv c" and "metas_ok c" and "op_ok op" and "\<not> is_cut op"
    and "\<not> fc_fw_partial c \<and> no_leak (fc_w c) \<and> w_walk_cut (fc_w c) = []"
  shows "\<not> fc_fw_partial (fw_exec op c) \<and> no_leak (fc_w (fw_exec op c)) \<and> w_walk_cut (fc_w (fw_exec op c)) = []"
proof -
  have w: "w_walk_cut (fc_w (fw_exec op c)) = []" using walk_cut_exec [OF assms(4)] assms(5) by simp
  have "\<not> fc_fw_partial (fw_exec op c) \<and> no_leak (fc_w (fw_exec op c))"
  proof (cases op)
    case (Replace sid v4 v6)
    obtain c' e where r: "replace_interface_fw sid v4 v6 c = (c', e)" by fastforce
    then show ?thesis using replace_inv(3) [OF assms(1,2) r] assms(5) Replace by (simp add: fw_exec_def)
  next
    case (Detach i)
    then show ?thesis using remove_ok(6) [OF assms(1)] assms(5) by (simp add: fw_exec_def)
  next
    case Restart
    let ?c = "core_new (fc_w c)"
    have "fw_safe (fc_w ?c)" using assms(1) by (simp add: core_new_def fw_inv_def)
    moreover have "snd (adopt_fw_classifier ?c) = None"
    proof -
      have "wk_error (fw_bind_entries w) = None" "wk_error (fw_scope_ids w) = None" if "w_walk_cut w = []" for w
        using that by (simp_all add: fw_bind_entries_def fw_scope_ids_def walk_def)
      then show ?thesis using assms(5) by (simp add: adopt_fw_classifier_def Let_def core_new_def)
    qed
    ultimately show ?thesis using adopt_ok(6) [of ?c] Restart by (simp add: fw_exec_def)
  qed (use assms in \<open>simp_all add: fw_exec_def no_leak_def is_cut_def register_iface_meta_def forget_iface_meta_def\<close>)
  with w show ?thesis by blast
qed

lemma uncut_run:
  "list_all op_ok ops \<Longrightarrow> list_all (\<lambda>op. \<not> is_cut op) ops \<Longrightarrow>
    \<not> fc_fw_partial (fw_run ops) \<and> no_leak (fc_w (fw_run ops)) \<and> w_walk_cut (fc_w (fw_run ops)) = []"
proof (induction ops rule: rev_induct)
  case Nil
  have "fc_fw_partial (core_new empty_maps) = False" "w_walk_cut (fc_w (core_new empty_maps)) = []" by (simp_all add: core_new_def empty_maps_def)
  then show ?case using empty_inv(3) by (simp add: fw_run_def)
next
  case (snoc op ops)
  then show ?case using exec_tight [of "fw_run ops" op] run_inv [of ops] by (simp add: fw_run_def)
qed

section \<open>Concrete rules and packets\<close>

text \<open>Concrete rules: web from 10.1.0.0/16 and everything else of TCP refused.\<close>

definition base_rule :: FwRule where
  "base_rule = \<lparr>fr_src_ip = [0, 0, 0, 0], fr_src_mask = [0, 0, 0, 0], fr_dst_ip = [0, 0, 0, 0], fr_dst_mask = [0, 0, 0, 0],
     fr_src_port_min = 0, fr_src_port_max = 65535, fr_dst_port_min = 0, fr_dst_port_max = 65535, fr_icmp_type = 0xffff, fr_icmp_code = 0xffff,
     fr_proto = 0, fr_action = FW_ACTION_ACCEPT, fr_direction = FW_DIR_INGRESS, fr_enabled = 1\<rparr>"

definition web_rules :: "(byte list \<times> FwRule) list" where
  "web_rules =
     [([1], base_rule\<lparr>fr_src_ip := [10, 1, 0, 0], fr_src_mask := [255, 255, 0, 0], fr_proto := 6, fr_dst_port_min := 80, fr_dst_port_max := 81\<rparr>),
      ([2], base_rule\<lparr>fr_proto := 6, fr_action := FW_ACTION_DROP\<rparr>)]"

definition an_iface :: "u32 \<Rightarrow> IfaceMeta" where
  "an_iface i = \<lparr>im_vni = 7, im_ipv4 = [10, 0, 0, 2], im_ipv6 = [], im_underlay = [], im_ifindex = i\<rparr>"

definition web_packet :: Pkt where
  "web_packet = [0x45, 0, 0, 40, 0, 0, 0, 0, 64, 6, 0, 0, 10, 1, 2, 3, 10, 0, 0, 2, 0x9c, 0x40, 0, 80, 0, 0]"

definition web_ops :: "FwOp list" where
  "web_ops = [Attach [97] (an_iface 5)]"

lemma web_replaced: "snd (replace_interface_fw [97] web_rules [] (fw_run web_ops)) = None"
  by code_simp

lemma web_no_collision: "collision_free (fw_run web_ops) web_rules []"
  by code_simp

lemma web_verdict: "first_match web_packet 0 (map snd web_rules) FW_DIR_INGRESS = FW_ACTION_ACCEPT"
  by code_simp

lemma web_wf: "rules_wf 4 (map snd web_rules)" "rules_wf 16 []" "header4 web_packet 0"
  by (simp_all add: rules_wf_def web_rules_def base_rule_def rule_wf_def header4_def web_packet_def)

lemma web_ops_ok: "list_all op_ok web_ops" "mget (fc_ifaces_meta (fw_run web_ops)) [97] = Some (an_iface 5)"
  by (simp_all add: web_ops_def op_ok_def ifindex_ok_def an_iface_def fw_run_def fw_exec_def register_iface_meta_def)

section \<open>Properties\<close>

text \<open>
  C1: After a successful replace of an interface's rules, in any run of the control core, the compiled
  classifier the datapath evaluates gives every IPv4 packet with a whole header, and every IPv6 packet
  with a whole header and a readable ICMPv6 type, the verdict of the first rule of that direction that
  matches it, and a drop where none does; provided no two scopes in play share a content id.
\<close>

theorem replaced_firewall_is_first_match:
  assumes "list_all op_ok ops" and "mget (fc_ifaces_meta (fw_run ops)) iface = Some m"
    and "collision_free (fw_run ops) v4 v6" and "replace_interface_fw iface v4 v6 (fw_run ops) = (c, None)"
    and "rules_wf 4 (map snd v4)" and "rules_wf 16 (map snd v6)" and "dir = FW_DIR_INGRESS \<or> dir = FW_DIR_EGRESS"
  shows "(header4 pkt off \<longrightarrow> fw_classify pkt (maps_of (fc_w c)) off (im_ifindex m) dir =
      (if first_match pkt off (map snd v4) dir = FW_ACTION_ACCEPT then FW_ACTION_ACCEPT else FW_ACTION_DROP))
    \<and> (header6 pkt off \<longrightarrow> fw_classify6 pkt (maps_of (fc_w c)) off (im_ifindex m) dir =
      (if first_match6 pkt off (map snd v6) dir = FW_ACTION_ACCEPT then FW_ACTION_ACCEPT else FW_ACTION_DROP))"
proof -
  have inv: "fw_inv (fw_run ops)" "metas_ok (fw_run ops)" using run_inv [OF assms(1)] by auto
  obtain m' ing eg where "mget (fc_ifaces_meta (fw_run ops)) iface = Some m'"
    and iface: "compile_iface (map snd v4) (map snd v6) = Inr (ing, eg)"
    and "bound_to (maps_of (fc_w c)) (im_ifindex m') FW_DIR_INGRESS ing" "bound_to (maps_of (fc_w c)) (im_ifindex m') FW_DIR_EGRESS eg"
    using replace_bound [OF inv assms(3,4)] by blast
  then have b: "bound_to (maps_of (fc_w c)) (im_ifindex m) FW_DIR_INGRESS ing" "bound_to (maps_of (fc_w c)) (im_ifindex m) FW_DIR_EGRESS eg"
    using assms(2) by simp_all
  from iface have "compile_scope FW_DIR_INGRESS (map snd v4) (map snd v6) = Inr ing" "compile_scope FW_DIR_EGRESS (map snd v4) (map snd v6) = Inr eg"
    by (auto simp: compile_iface_def split: sum.splits)
  with b assms(5,6,7) classify_first_match show ?thesis by blast
qed

theorem replaced_firewall_is_first_match_witness:
  "\<exists>c. replace_interface_fw [97] web_rules [] (fw_run web_ops) = (c, None)
    \<and> fw_classify web_packet (maps_of (fc_w c)) 0 5 FW_DIR_INGRESS = FW_ACTION_ACCEPT"
proof -
  obtain c where c: "replace_interface_fw [97] web_rules [] (fw_run web_ops) = (c, None)"
    using web_replaced by (metis prod.collapse)
  have "fw_classify web_packet (maps_of (fc_w c)) 0 (im_ifindex (an_iface 5)) FW_DIR_INGRESS = FW_ACTION_ACCEPT"
    using replaced_firewall_is_first_match [OF web_ops_ok web_no_collision c web_wf(1), of FW_DIR_INGRESS web_packet 0] web_wf web_verdict by simp
  then show ?thesis using c by (simp add: an_iface_def)
qed

text \<open>
  C5: In every run, with failing binding writes and walks cut short included, an operation that is
  neither a successful replace nor the removal of an interface changes no verdict of that interface: not
  a refused or failed replace of its own rules, not another interface's change, not a restart and adopt.
\<close>

theorem other_operations_keep_verdicts:
  assumes "list_all op_ok ops" and "spares i op (fw_run ops)"
  shows "fw_classify pkt (maps_of (fc_w (fw_exec op (fw_run ops)))) off i dir = fw_classify pkt (maps_of (fc_w (fw_run ops))) off i dir
    \<and> fw_classify6 pkt (maps_of (fc_w (fw_exec op (fw_run ops)))) off i dir = fw_classify6 pkt (maps_of (fc_w (fw_run ops))) off i dir"
  using run_inv [OF assms(1)] exec_seen [OF _ _ assms(2)] classify_seen by blast

definition cut_ops :: "FwOp list" where
  "cut_ops = web_ops @ [Replace [97] web_rules [], WalkCut [(''FW_BIND'', 0)]]"

lemma cut_ops_ok: "list_all op_ok cut_ops"
  using web_ops_ok(1) by (simp add: cut_ops_def op_ok_def)

theorem other_operations_keep_verdicts_witness:
  "fw_classify web_packet (maps_of (fc_w (fw_exec Restart (fw_run cut_ops)))) 0 5 FW_DIR_INGRESS =
     fw_classify web_packet (maps_of (fc_w (fw_run cut_ops))) 0 5 FW_DIR_INGRESS"
proof -
  have "spares 5 Restart (fw_run cut_ops)" by (simp add: spares_def)
  from other_operations_keep_verdicts [OF cut_ops_ok this] show ?thesis by blast
qed

text \<open>
  C6: In every run a binding points only at scopes that are there, and without cut walks the scopes
  that are there are exactly those a binding points at: none is deleted early and none is leaked.
\<close>

theorem scopes_follow_bindings:
  assumes "list_all op_ok ops"
  defines "w \<equiv> fc_w (fw_run ops)"
  defines "used \<equiv> {sid. sid \<noteq> FW_SCOPE_NONE \<and> (\<exists>i b. mget (w_fw_bind w) i = Some b \<and> sid \<in> set (bind_ids b))}"
  shows "used \<subseteq> set (mkeys (w_fw_scopes w)) \<and> (list_all (\<lambda>op. \<not> is_cut op) ops \<longrightarrow> set (mkeys (w_fw_scopes w)) = used)"
proof -
  have safe: "fw_safe w" using run_inv [OF assms(1)] by (simp add: fw_inv_def w_def)
  then have wf: "mwf (w_fw_bind w)" and sub: "used \<subseteq> set (mkeys (w_fw_scopes w))" by (auto simp: fw_safe_def used_def mkeys_iff)
  have "set (mkeys (w_fw_scopes w)) \<subseteq> used" if "list_all (\<lambda>op. \<not> is_cut op) ops"
  proof
    fix sid assume "sid \<in> set (mkeys (w_fw_scopes w))"
    then have "sid \<noteq> FW_SCOPE_NONE \<and> 0 < uses (w_fw_bind w) sid"
      using uncut_run [OF assms(1) that] by (simp add: no_leak_def w_def [symmetric] mkeys_iff)
    then show "sid \<in> used" using uses_pos_get [OF wf] by (simp add: used_def)
  qed
  with sub show ?thesis by blast
qed

theorem scopes_follow_bindings_witness:
  "{sid. sid \<noteq> FW_SCOPE_NONE \<and> (\<exists>i b. mget (w_fw_bind (fc_w (fw_run web_ops))) i = Some b \<and> sid \<in> set (bind_ids b))}
     = set (mkeys (w_fw_scopes (fc_w (fw_run web_ops))))"
  using scopes_follow_bindings [OF web_ops_ok(1)] by (simp add: web_ops_def is_cut_def)

text \<open>
  Removing the rules of an interface whose binding a cut adopt did not read leaves the binding in
  force: the datapath still accepts what it accepted.
\<close>

lemma cut_detach_keeps_binding:
  "mget (w_fw_bind (fc_w (fw_exec (Detach 5) (fw_exec Restart (fw_run cut_ops))))) 5 = mget (w_fw_bind (fc_w (fw_run cut_ops))) 5"
  by code_simp

section \<open>Packets that are cut short\<close>

text \<open>
  An IPv4 packet that ends in its destination address, sent to a guest, and an ICMPv6 packet without
  its type: the classifier accepts what the first match refuses.
\<close>

definition one_scope :: "Scope \<Rightarrow> FwWriter" where
  "one_scope s = empty_maps\<lparr>w_fw_bind := [(5, \<lparr>fb_ingress_scope = sc_id s, fb_egress_scope = FW_SCOPE_NONE\<rparr>)], w_fw_scopes := [(sc_id s, s)]\<rparr>"

definition diverges :: "FwRule list \<Rightarrow> FwRule list \<Rightarrow> Pkt \<Rightarrow> bool" where
  "diverges v4 v6 pkt = (case compile_scope FW_DIR_INGRESS v4 v6 of
     Inr (Some s) \<Rightarrow>
       (if v6 = [] then fw_classify pkt (maps_of (one_scope s)) 0 5 FW_DIR_INGRESS = FW_ACTION_ACCEPT \<and> first_match pkt 0 v4 FW_DIR_INGRESS = FW_ACTION_DROP
        else fw_classify6 pkt (maps_of (one_scope s)) 0 5 FW_DIR_INGRESS = FW_ACTION_ACCEPT \<and> first_match6 pkt 0 v6 FW_DIR_INGRESS = FW_ACTION_DROP)
   | _ \<Rightarrow> False)"

lemma short_ipv4_diverges: "diverges [base_rule] [] (take 18 web_packet)"
  by code_simp

definition icmp6_rule :: FwRule where
  "icmp6_rule = base_rule\<lparr>fr_src_ip := replicate 16 0, fr_src_mask := replicate 16 0, fr_dst_ip := replicate 16 0, fr_dst_mask := replicate 16 0,
     fr_proto := 58, fr_icmp_type := 255\<rparr>"

lemma short_icmp6_diverges: "diverges [] [icmp6_rule] ([0x60, 0, 0, 0, 0, 0, 58, 64] @ replicate 32 1)"
  by code_simp

end
