(* ===== verification/Natowner.thy ===== *)
theory Natowner
  imports Fw_Control_Inv
begin

text \<open>
  Neighbor NAT: which node owns a port block of a shared NAT address. The block lists of the control
  core (\<^verbatim>\<open>flowplane-control/src/nat.rs\<close>), the prefixes a block is stored as
  (\<^verbatim>\<open>flowplane-control/src/natowner.rs\<close>), the owner tries of the in-memory writer with their injected
  faults (\<^verbatim>\<open>flowplane-control/src/mem.rs\<close>) and the lookup the datapath makes in them
  (\<^verbatim>\<open>flowplane-sim/src/maps.rs\<close>, \<^verbatim>\<open>flowplane-core/src/nat.rs\<close>).

  The source has each function twice, for IPv4 and for IPv6, with the same body over addresses of
  4 and of 16 bytes. Here an address is a byte list and the body is written once, over one family's
  state; \<open>ab\<close> is the number of bits of an address, 32 or 128.
\<close>

section \<open>Blocks and their prefixes\<close>

record NatOwnerKey =
  ok_nat_ip :: "byte list"
  ok_port :: "byte list"

record NatOwner =
  no_underlay :: "byte list"
  no_vni :: u32
  no_port_min :: u16
  no_port_max :: u16

record NeighborNatEntry =
  nb_underlay :: "byte list"
  nb_nat_ip :: "byte list"
  nb_vni :: u32
  nb_port_min :: u16
  nb_port_max :: u16

definition NAT_OWNERS_MAX :: nat where "NAT_OWNERS_MAX = 65536"

definition NAT_OWNER_ADDR_BITS4 :: nat where "NAT_OWNER_ADDR_BITS4 = 32"

definition NAT_OWNER_ADDR_BITS6 :: nat where "NAT_OWNER_ADDR_BITS6 = 128"

type_synonym owner_key = "nat \<times> NatOwnerKey"

definition block_owner :: "NeighborNatEntry \<Rightarrow> NatOwner" where
  "block_owner b = \<lparr>no_underlay = nb_underlay b, no_vni = nb_vni b, no_port_min = nb_port_min b, no_port_max = nb_port_max b\<rparr>"

definition owner_prefixes :: "nat \<Rightarrow> NeighborNatEntry \<Rightarrow> (owner_key \<times> NatOwner) list" where
  "owner_prefixes ab b =
     (if nb_port_min b \<ge> nb_port_max b then []
      else map (\<lambda>(port, bits). ((ab + bits, \<lparr>ok_nat_ip = nb_nat_ip b, ok_port = to_be_bytes port\<rparr>), block_owner b))
             (port_prefixes (nb_port_min b) (nb_port_max b - 1)))"

text \<open>\<^verbatim>\<open>Map\<close> carries the error of the map write; its text is not modelled.\<close>

datatype NeighborNatError = EmptyRange | Overlap | Full nat nat | NatMap

section \<open>One family's maps and lists\<close>

record NatFam =
  nf_owners :: "(owner_key, NatOwner) gomap"
  nf_upsert_fault :: "owner_key option"
  nf_remove_fault :: "owner_key option"
  nf_walk_cut :: "nat option"
  nf_blocks :: "(byte list \<times> u16, NeighborNatEntry) gomap"
  nf_count :: nat

text \<open>A write of the owner trie returns whether it succeeded.\<close>

definition nat_owner_upsert :: "owner_key \<Rightarrow> NatOwner \<Rightarrow> NatFam \<Rightarrow> NatFam \<times> bool" where
  "nat_owner_upsert k v f =
     (if nf_upsert_fault f = Some k then (f, False) else (f\<lparr>nf_owners := mput k v (nf_owners f)\<rparr>, True))"

definition nat_owner_remove :: "owner_key \<Rightarrow> NatFam \<Rightarrow> NatFam \<times> bool" where
  "nat_owner_remove k f =
     (if nf_remove_fault f = Some k then (f, False) else (f\<lparr>nf_owners := mdel k (nf_owners f)\<rparr>, True))"

definition nat_owner_entries :: "NatFam \<Rightarrow> (owner_key \<times> NatOwner) list \<times> bool" where
  "nat_owner_entries f = (case nf_walk_cut f of
     Some n \<Rightarrow> (take n (nf_owners f), True)
   | None \<Rightarrow> (nf_owners f, False))"

text \<open>A \<^verbatim>\<open>BTreeMap\<close> visits its entries by ascending key.\<close>

definition btree :: "('k :: linorder, 'v) gomap \<Rightarrow> ('k \<times> 'v) list" where
  "btree m = sort_key fst m"

definition next_back :: "('k :: linorder, 'v) gomap \<Rightarrow> 'k \<Rightarrow> ('k \<times> 'v) option" where
  "next_back m k = (case filter (\<lambda>(k', _). k' \<le> k) (btree m) of [] \<Rightarrow> None | xs \<Rightarrow> Some (last xs))"

definition next_from :: "('k :: linorder, 'v) gomap \<Rightarrow> 'k \<Rightarrow> ('k \<times> 'v) option" where
  "next_from m k = (case filter (\<lambda>(k', _). k \<le> k') (btree m) of [] \<Rightarrow> None | x # _ \<Rightarrow> Some x)"

section \<open>Adding, refreshing and deleting a block\<close>

definition overlaps :: "byte list \<Rightarrow> u16 \<Rightarrow> u16 \<Rightarrow> NatFam \<Rightarrow> bool" where
  "overlaps nat_ip lo hi f =
     ((case next_back (nf_blocks f) (nat_ip, lo) of
         Some ((ip, _), b) \<Rightarrow> ip = nat_ip \<and> nb_port_max b > lo
       | None \<Rightarrow> False)
      \<or> (case next_from (nf_blocks f) (nat_ip, lo) of
           Some ((ip, start), _) \<Rightarrow> ip = nat_ip \<and> start < hi
         | None \<Rightarrow> False))"

text \<open>Write entries in order until one fails: what was written before it, or everything.\<close>

fun write_prefixes :: "(owner_key \<times> NatOwner) list \<Rightarrow> (owner_key \<times> NatOwner) list \<Rightarrow> NatFam \<Rightarrow> NatFam \<times> (owner_key \<times> NatOwner) list option" where
  "write_prefixes done [] f = (f, None)"
| "write_prefixes done ((k, ow) # es) f = (case nat_owner_upsert k ow f of
     (f, True) \<Rightarrow> write_prefixes (done @ [(k, ow)]) es f
   | (f, False) \<Rightarrow> (f, Some done))"

text \<open>Try to remove every entry; whether one removal failed.\<close>

fun remove_prefixes :: "(owner_key \<times> NatOwner) list \<Rightarrow> NatFam \<times> bool \<Rightarrow> NatFam \<times> bool" where
  "remove_prefixes [] s = s"
| "remove_prefixes ((k, _) # es) (f, failed) = (case nat_owner_remove k f of (f, ok) \<Rightarrow> remove_prefixes es (f, failed \<or> \<not> ok))"

definition block_key :: "NeighborNatEntry \<Rightarrow> byte list \<times> u16" where
  "block_key b = (nb_nat_ip b, nb_port_min b)"

definition list_block :: "nat \<Rightarrow> NeighborNatEntry \<Rightarrow> NatFam \<Rightarrow> NatFam" where
  "list_block n b f = f\<lparr>nf_count := nf_count f + n, nf_blocks := mput (block_key b) b (nf_blocks f)\<rparr>"

definition store_block :: "nat \<Rightarrow> NeighborNatEntry \<Rightarrow> NatFam \<Rightarrow> NeighborNatError option \<times> NatFam" where
  "store_block ab b f =
     (let entries = owner_prefixes ab b in
      if nf_count f + length entries > NAT_OWNERS_MAX then (Some (Full (length entries) NAT_OWNERS_MAX), f)
      else (case write_prefixes [] entries f of
              (f, None) \<Rightarrow> (None, list_block (length entries) b f)
            | (f, Some written) \<Rightarrow> (case remove_prefixes written (f, False) of
                (f, stranded) \<Rightarrow> (Some NatMap, if stranded then list_block (length entries) b f else f))))"

definition the_block :: "u32 \<Rightarrow> byte list \<Rightarrow> u16 \<Rightarrow> u16 \<Rightarrow> byte list \<Rightarrow> NeighborNatEntry" where
  "the_block vni nat_ip port_min port_max underlay =
     \<lparr>nb_underlay = underlay, nb_nat_ip = nat_ip, nb_vni = vni, nb_port_min = port_min, nb_port_max = port_max\<rparr>"

definition add_block :: "nat \<Rightarrow> u32 \<Rightarrow> byte list \<Rightarrow> u16 \<Rightarrow> u16 \<Rightarrow> byte list \<Rightarrow> NatFam \<Rightarrow> NeighborNatError option \<times> NatFam" where
  "add_block ab vni nat_ip port_min port_max underlay f =
     (if port_min \<ge> port_max then (Some EmptyRange, f)
      else if overlaps nat_ip port_min port_max f then (Some Overlap, f)
      else store_block ab (the_block vni nat_ip port_min port_max underlay) f)"

definition upsert_block :: "nat \<Rightarrow> u32 \<Rightarrow> byte list \<Rightarrow> u16 \<Rightarrow> u16 \<Rightarrow> byte list \<Rightarrow> NatFam \<Rightarrow> NeighborNatError option \<times> NatFam" where
  "upsert_block ab vni nat_ip port_min port_max underlay f =
     (if port_min \<ge> port_max then (Some EmptyRange, f)
      else let key = (nat_ip, port_min);
               listed = (map_option nb_port_max (mget (nf_blocks f) key) = Some port_max)
           in if \<not> listed then add_block ab vni nat_ip port_min port_max underlay f
              else let b = the_block vni nat_ip port_min port_max underlay
                   in (case write_prefixes [] (owner_prefixes ab b) f of
                         (f, Some _) \<Rightarrow> (Some NatMap, f)
                       | (f, None) \<Rightarrow> (None, f\<lparr>nf_blocks := mput key b (nf_blocks f)\<rparr>)))"

definition del_block :: "nat \<Rightarrow> u32 \<Rightarrow> byte list \<Rightarrow> u16 \<Rightarrow> u16 \<Rightarrow> NatFam \<Rightarrow> (NeighborNatError + bool) \<times> NatFam" where
  "del_block ab vni nat_ip port_min port_max f =
     (let key = (nat_ip, port_min) in
      case mget (nf_blocks f) key of
        None \<Rightarrow> (Inr False, f)
      | Some b \<Rightarrow>
          if nb_vni b \<noteq> vni \<or> nb_port_max b \<noteq> port_max then (Inr False, f)
          else let entries = owner_prefixes ab b in
               (case remove_prefixes entries (f, False) of
                  (f, True) \<Rightarrow> (Inl NatMap, f)
                | (f, False) \<Rightarrow> (Inr True, f\<lparr>nf_blocks := mdel key (nf_blocks f), nf_count := nf_count f - length entries\<rparr>)))"

section \<open>Replacing the whole set\<close>

record ReplaceCounts =
  rc_added :: u32
  rc_kept :: u32
  rc_removed :: u32

type_synonym block_id = "u32 \<times> byte list \<times> u16 \<times> u16 \<times> byte list"

definition id_of :: "NeighborNatEntry \<Rightarrow> block_id" where
  "id_of b = (nb_vni b, nb_nat_ip b, nb_port_min b, nb_port_max b, nb_underlay b)"

fun windows_overlap :: "(byte list \<times> u16 \<times> u16) list \<Rightarrow> bool" where
  "windows_overlap ((ip, lo, hi) # (ip', lo', hi') # rs) = ((ip = ip' \<and> lo' < hi) \<or> windows_overlap ((ip', lo', hi') # rs))"
| "windows_overlap _ = False"

fun scan_block_set :: "(byte list \<times> u16 \<times> u16 \<times> nat) list \<Rightarrow> (byte list \<times> u16 \<times> u16) list \<times> nat \<Rightarrow> ((byte list \<times> u16 \<times> u16) list \<times> nat) option" where
  "scan_block_set [] acc = Some acc"
| "scan_block_set ((ip, lo, hi, n) # bs) (ranges, needed) =
     (if lo \<ge> hi then None else scan_block_set bs (ranges @ [(ip, lo, hi)], needed + n))"

definition check_block_set :: "(byte list \<times> u16 \<times> u16 \<times> nat) list \<Rightarrow> NeighborNatError option" where
  "check_block_set blocks = (case scan_block_set blocks ([], 0) of
     None \<Rightarrow> Some EmptyRange
   | Some (ranges, needed) \<Rightarrow>
       if needed > NAT_OWNERS_MAX then Some (Full needed NAT_OWNERS_MAX)
       else if windows_overlap (sort ranges) then Some Overlap
       else None)"

definition prefix_count :: "u16 \<Rightarrow> u16 \<Rightarrow> nat" where
  "prefix_count lo hi = (if lo \<ge> hi then 0 else port_prefix_count lo (hi - 1))"

definition block_items :: "NeighborNatEntry list \<Rightarrow> (byte list \<times> u16 \<times> u16 \<times> nat) list" where
  "block_items v = map (\<lambda>b. (nb_nat_ip b, nb_port_min b, nb_port_max b, prefix_count (nb_port_min b) (nb_port_max b))) v"

definition stale_blocks :: "NeighborNatEntry list \<Rightarrow> NatFam \<Rightarrow> NeighborNatEntry list" where
  "stale_blocks v f = filter (\<lambda>b. id_of b \<notin> set (map id_of v)) (map snd (btree (nf_blocks f)))"

fun del_stale :: "nat \<Rightarrow> NeighborNatEntry list \<Rightarrow> NatFam \<Rightarrow> ReplaceCounts \<Rightarrow> NeighborNatError option \<times> NatFam \<times> ReplaceCounts" where
  "del_stale ab [] f n = (None, f, n)"
| "del_stale ab (b # bs) f n = (case del_block ab (nb_vni b) (nb_nat_ip b) (nb_port_min b) (nb_port_max b) f of
     (Inl e, f) \<Rightarrow> (Some e, f, n)
   | (Inr _, f) \<Rightarrow> del_stale ab bs f (n\<lparr>rc_removed := rc_removed n + 1\<rparr>))"

fun add_new :: "nat \<Rightarrow> block_id list \<Rightarrow> NeighborNatEntry list \<Rightarrow> NatFam \<Rightarrow> ReplaceCounts \<Rightarrow> NeighborNatError option \<times> NatFam \<times> ReplaceCounts" where
  "add_new ab have_ids [] f n = (None, f, n)"
| "add_new ab have_ids (b # bs) f n =
     (if id_of b \<in> set have_ids then add_new ab have_ids bs f (n\<lparr>rc_kept := rc_kept n + 1\<rparr>)
      else (case store_block ab b f of
              (Some e, f) \<Rightarrow> (Some e, f, n)
            | (None, f) \<Rightarrow> add_new ab have_ids bs f (n\<lparr>rc_added := rc_added n + 1\<rparr>)))"

definition listed_ids :: "NatFam \<Rightarrow> block_id list" where
  "listed_ids f = map (\<lambda>(_, b). id_of b) (nf_blocks f)"

section \<open>Adopting the tries after a restart\<close>

definition owned_block :: "NatOwnerKey \<Rightarrow> NatOwner \<Rightarrow> NeighborNatEntry" where
  "owned_block key ow = the_block (no_vni ow) (ok_nat_ip key) (no_port_min ow) (no_port_max ow) (no_underlay ow)"

definition rebuild_blocks :: "(owner_key \<times> NatOwner) list \<Rightarrow> (byte list \<times> u16, NeighborNatEntry) gomap" where
  "rebuild_blocks walked =
     fold (\<lambda>((_, key), ow) m. mput (block_key (owned_block key ow)) (owned_block key ow) m) walked []"

fun retain_blocks :: "(byte list \<times> u16) option \<Rightarrow> ((byte list \<times> u16) \<times> NeighborNatEntry) list \<Rightarrow> ((byte list \<times> u16) \<times> NeighborNatEntry) list" where
  "retain_blocks prev [] = []"
| "retain_blocks prev (((ip, start), b) # bs) =
     (if (case prev of Some (p_ip, p_max) \<Rightarrow> p_ip = ip \<and> start < p_max | None \<Rightarrow> False) then retain_blocks prev bs
      else ((ip, start), b) # retain_blocks (Some (ip, nb_port_max b)) bs)"

definition rewrite_block :: "nat \<Rightarrow> NeighborNatEntry \<Rightarrow> NatFam \<Rightarrow> NatFam" where
  "rewrite_block ab b f =
     (let entries = owner_prefixes ab b;
          f = f\<lparr>nf_count := nf_count f + length entries\<rparr>
      in fold (\<lambda>(k, ow) f. fst (nat_owner_upsert k ow f)) entries f)"

definition sweep_owners :: "nat \<Rightarrow> (owner_key \<times> NatOwner) list \<Rightarrow> NatFam \<Rightarrow> NatFam" where
  "sweep_owners ab walked f =
     (let owned = concat (map (\<lambda>(_, b). map fst (owner_prefixes ab b)) (nf_blocks f))
      in fold (\<lambda>(k, _) f. if k \<in> set owned then f else fst (nat_owner_remove k f)) walked f)"

definition adopt_fam :: "nat \<Rightarrow> NatFam \<Rightarrow> bool \<times> NatFam" where
  "adopt_fam ab f = (case nat_owner_entries f of (walked, error) \<Rightarrow>
     (let v = retain_blocks None (btree (rebuild_blocks walked));
          f = fold (rewrite_block ab) (map snd v) (f\<lparr>nf_count := 0\<rparr>);
          f = f\<lparr>nf_blocks := v\<rparr>
      in (error, if error then f else sweep_owners ab walked f)))"

section \<open>Both families\<close>

record NatCore =
  nc_v4 :: NatFam
  nc_v6 :: NatFam

definition on_v4 :: "(NatFam \<Rightarrow> 'r \<times> NatFam) \<Rightarrow> NatCore \<Rightarrow> 'r \<times> NatCore" where
  "on_v4 op c = (case op (nc_v4 c) of (r, f) \<Rightarrow> (r, c\<lparr>nc_v4 := f\<rparr>))"

definition on_v6 :: "(NatFam \<Rightarrow> 'r \<times> NatFam) \<Rightarrow> NatCore \<Rightarrow> 'r \<times> NatCore" where
  "on_v6 op c = (case op (nc_v6 c) of (r, f) \<Rightarrow> (r, c\<lparr>nc_v6 := f\<rparr>))"

definition add_neighbor_nat :: "u32 \<Rightarrow> byte list \<Rightarrow> u16 \<Rightarrow> u16 \<Rightarrow> byte list \<Rightarrow> NatCore \<Rightarrow> NeighborNatError option \<times> NatCore" where
  "add_neighbor_nat vni nat_ip lo hi underlay = on_v4 (add_block NAT_OWNER_ADDR_BITS4 vni nat_ip lo hi underlay)"

definition upsert_neighbor_nat :: "u32 \<Rightarrow> byte list \<Rightarrow> u16 \<Rightarrow> u16 \<Rightarrow> byte list \<Rightarrow> NatCore \<Rightarrow> NeighborNatError option \<times> NatCore" where
  "upsert_neighbor_nat vni nat_ip lo hi underlay = on_v4 (upsert_block NAT_OWNER_ADDR_BITS4 vni nat_ip lo hi underlay)"

definition del_neighbor_nat :: "u32 \<Rightarrow> byte list \<Rightarrow> u16 \<Rightarrow> u16 \<Rightarrow> NatCore \<Rightarrow> (NeighborNatError + bool) \<times> NatCore" where
  "del_neighbor_nat vni nat_ip lo hi = on_v4 (del_block NAT_OWNER_ADDR_BITS4 vni nat_ip lo hi)"

definition add_neighbor_nat6 :: "u32 \<Rightarrow> byte list \<Rightarrow> u16 \<Rightarrow> u16 \<Rightarrow> byte list \<Rightarrow> NatCore \<Rightarrow> NeighborNatError option \<times> NatCore" where
  "add_neighbor_nat6 vni nat_ip lo hi underlay = on_v6 (add_block NAT_OWNER_ADDR_BITS6 vni nat_ip lo hi underlay)"

definition upsert_neighbor_nat6 :: "u32 \<Rightarrow> byte list \<Rightarrow> u16 \<Rightarrow> u16 \<Rightarrow> byte list \<Rightarrow> NatCore \<Rightarrow> NeighborNatError option \<times> NatCore" where
  "upsert_neighbor_nat6 vni nat_ip lo hi underlay = on_v6 (upsert_block NAT_OWNER_ADDR_BITS6 vni nat_ip lo hi underlay)"

definition del_neighbor_nat6 :: "u32 \<Rightarrow> byte list \<Rightarrow> u16 \<Rightarrow> u16 \<Rightarrow> NatCore \<Rightarrow> (NeighborNatError + bool) \<times> NatCore" where
  "del_neighbor_nat6 vni nat_ip lo hi = on_v6 (del_block NAT_OWNER_ADDR_BITS6 vni nat_ip lo hi)"

definition no_counts :: ReplaceCounts where
  "no_counts = \<lparr>rc_added = 0, rc_kept = 0, rc_removed = 0\<rparr>"

definition replace_neighbor_nats ::
  "NeighborNatEntry list \<Rightarrow> NeighborNatEntry list \<Rightarrow> NatCore \<Rightarrow> (NeighborNatError + ReplaceCounts) \<times> NatCore" where
  "replace_neighbor_nats v4 v6 c =
     (case check_block_set (block_items v4) of Some e \<Rightarrow> (Inl e, c) | None \<Rightarrow>
      case check_block_set (block_items v6) of Some e \<Rightarrow> (Inl e, c) | None \<Rightarrow>
      (case del_stale NAT_OWNER_ADDR_BITS4 (stale_blocks v4 (nc_v4 c)) (nc_v4 c) no_counts of
         (Some e, f4, n) \<Rightarrow> (Inl e, c\<lparr>nc_v4 := f4\<rparr>)
       | (None, f4, n) \<Rightarrow>
      (case del_stale NAT_OWNER_ADDR_BITS6 (stale_blocks v6 (nc_v6 c)) (nc_v6 c) n of
         (Some e, f6, n) \<Rightarrow> (Inl e, c\<lparr>nc_v4 := f4, nc_v6 := f6\<rparr>)
       | (None, f6, n) \<Rightarrow>
      (case add_new NAT_OWNER_ADDR_BITS4 (listed_ids f4) v4 f4 n of
         (Some e, f4, n) \<Rightarrow> (Inl e, c\<lparr>nc_v4 := f4, nc_v6 := f6\<rparr>)
       | (None, f4, n) \<Rightarrow>
      (case add_new NAT_OWNER_ADDR_BITS6 (listed_ids f6) v6 f6 n of
         (Some e, f6, n) \<Rightarrow> (Inl e, c\<lparr>nc_v4 := f4, nc_v6 := f6\<rparr>)
       | (None, f6, n) \<Rightarrow> (Inr n, c\<lparr>nc_v4 := f4, nc_v6 := f6\<rparr>))))))"

definition adopt_nat_owners :: "NatCore \<Rightarrow> bool \<times> NatCore" where
  "adopt_nat_owners c = (case on_v4 (adopt_fam NAT_OWNER_ADDR_BITS4) c of (error4, c) \<Rightarrow>
     case on_v6 (adopt_fam NAT_OWNER_ADDR_BITS6) c of (error6, c) \<Rightarrow> (error4 \<or> error6, c))"

section \<open>The datapath's lookup\<close>

definition owner_key_bytes :: "NatOwnerKey \<Rightarrow> byte list" where
  "owner_key_bytes k = ok_nat_ip k @ ok_port k"

definition nat_owner :: "(owner_key, NatOwner) gomap \<Rightarrow> byte list \<Rightarrow> u16 \<Rightarrow> NatOwner option" where
  "nat_owner owners nat_ip port =
     (let key = owner_key_bytes \<lparr>ok_nat_ip = nat_ip, ok_port = to_be_bytes port\<rparr>
      in map_option snd (max_by_key (\<lambda>((plen, _), _). plen)
           (filter (\<lambda>((plen, k), _). prefix_match (owner_key_bytes k) key plen) owners)))"

definition neighbor_nat_owner :: "(owner_key, NatOwner) gomap \<Rightarrow> u32 \<Rightarrow> byte list \<Rightarrow> u16 \<Rightarrow> byte list option" where
  "neighbor_nat_owner owners vni dst dport = (case nat_owner owners dst dport of
     Some ow \<Rightarrow> if no_vni ow = vni then Some (no_underlay ow) else None
   | None \<Rightarrow> None)"

end
