(* ===== verification/Natowner_Inv.thy ===== *)
theory Natowner_Inv
  imports Natowner
begin

text \<open>
  The invariant of one family's neighbor-NAT state and its proof for every operation: listed blocks
  never reach into each other and every prefix of the trie belongs to a listed block
  (\<open>nat_inv\<close>); when no write fails, the trie holds exactly the prefixes of the listed blocks
  (\<open>nat_exact\<close>).
\<close>

section \<open>Ordered maps\<close>

lemma btree_set [simp]: "set (btree m) = set m"
  by (simp add: btree_def)

lemma btree_sorted: "sorted (map fst (btree m))"
  by (simp add: btree_def)

lemma next_back_None: "next_back m k = None \<Longrightarrow> (k', v) \<in> set m \<Longrightarrow> \<not> k' \<le> k"
  by (auto simp: next_back_def filter_empty_conv split: list.splits)

lemma next_back_Some:
  assumes "next_back m k = Some (k', v)"
  shows "(k', v) \<in> set m" and "k' \<le> k" and "\<And>k'' v'. (k'', v') \<in> set m \<Longrightarrow> k'' \<le> k \<Longrightarrow> k'' \<le> k'"
proof -
  obtain ys where ys: "filter (\<lambda>(k', _). k' \<le> k) (btree m) = ys @ [(k', v)]"
  proof (cases "filter (\<lambda>(k', _). k' \<le> k) (btree m)" rule: rev_cases)
    case (snoc zs z)
    then have "z = (k', v)" using assms by (cases zs) (auto simp: next_back_def)
    then show thesis using that snoc by simp
  qed (use assms in \<open>simp add: next_back_def\<close>)
  then have "(k', v) \<in> set (filter (\<lambda>(k', _). k' \<le> k) (btree m))" by simp
  then show "(k', v) \<in> set m" "k' \<le> k" by auto
  fix k'' v' assume "(k'', v') \<in> set m" "k'' \<le> k"
  then have "(k'', v') \<in> set (filter (\<lambda>(k', _). k' \<le> k) (btree m))" by simp
  then have in_ys: "(k'', v') \<in> set (ys @ [(k', v)])" unfolding ys .
  have "sorted (map fst (ys @ [(k', v)]))" unfolding ys [symmetric] using btree_sorted by (rule sorted_filter)
  then show "k'' \<le> k'" using in_ys by (force simp: sorted_append)
qed

lemma next_from_None: "next_from m k = None \<Longrightarrow> (k', v) \<in> set m \<Longrightarrow> \<not> k \<le> k'"
  by (auto simp: next_from_def filter_empty_conv split: list.splits)

lemma next_from_Some:
  assumes "next_from m k = Some (k', v)"
  shows "(k', v) \<in> set m" and "k \<le> k'" and "\<And>k'' v'. (k'', v') \<in> set m \<Longrightarrow> k \<le> k'' \<Longrightarrow> k' \<le> k''"
proof -
  obtain ys where ys: "filter (\<lambda>(k', _). k \<le> k') (btree m) = (k', v) # ys"
    using assms by (auto simp: next_from_def split: list.splits)
  then have "(k', v) \<in> set (filter (\<lambda>(k', _). k \<le> k') (btree m))" by simp
  then show "(k', v) \<in> set m" "k \<le> k'" by auto
  fix k'' v' assume "(k'', v') \<in> set m" "k \<le> k''"
  then have "(k'', v') \<in> set (filter (\<lambda>(k', _). k \<le> k') (btree m))" by simp
  then have in_ys: "(k'', v') \<in> set ((k', v) # ys)" unfolding ys .
  have "sorted (map fst ((k', v) # ys))" unfolding ys [symmetric] using btree_sorted by (rule sorted_filter)
  then show "k' \<le> k''" using in_ys by force
qed

section \<open>Prefixes of a block\<close>

lemma to_be_bytes_inj: "to_be_bytes a = to_be_bytes b \<Longrightarrow> a = b"
  using port_under_bits [of 16 a b] by (simp add: port_under_def)

lemma owner_prefixes_port:
  assumes "(x, ow) \<in> set (owner_prefixes ab b)"
  obtains port bits where "x = (ab + bits, \<lparr>ok_nat_ip = nb_nat_ip b, ok_port = to_be_bytes port\<rparr>)" and "ow = block_owner b"
    and "(port, bits) \<in> set (port_prefixes (nb_port_min b) (nb_port_max b - 1))"
    and "nb_port_min b \<le> port" and "port < nb_port_max b" and "bits \<le> 16"
proof -
  have lt: "nb_port_min b < nb_port_max b" using assms by (auto simp: owner_prefixes_def split: if_splits)
  obtain port bits where x: "x = (ab + bits, \<lparr>ok_nat_ip = nb_nat_ip b, ok_port = to_be_bytes port\<rparr>)" "ow = block_owner b"
    and pb: "(port, bits) \<in> set (port_prefixes (nb_port_min b) (nb_port_max b - 1))"
    using assms by (auto simp: owner_prefixes_def split: if_splits)
  have "port_under (port, bits) port" by (simp add: port_under_def)
  then have "nb_port_min b \<le> port \<and> port \<le> nb_port_max b - 1"
    using port_prefixes_covers [of "nb_port_min b" "nb_port_max b - 1" port] pb by blast
  moreover have "port < nb_port_max b" if "port \<le> nb_port_max b - 1"
    using that lt by unat_arith
  ultimately show thesis using that x pb port_prefixes_bits by blast
qed

lemma owner_prefixes_owner: "(x, ow) \<in> set (owner_prefixes ab b) \<Longrightarrow> ow = block_owner b"
  by (auto elim: owner_prefixes_port)

lemma owner_prefixes_shared:
  assumes "(x, ow) \<in> set (owner_prefixes ab b)" and "(x, ow') \<in> set (owner_prefixes ab b')"
  obtains port where "nb_nat_ip b = nb_nat_ip b'" and "nb_port_min b \<le> port" and "port < nb_port_max b"
    and "nb_port_min b' \<le> port" and "port < nb_port_max b'"
  using assms by (elim owner_prefixes_port) (auto dest: to_be_bytes_inj)

text \<open>Blocks of one range have the same keys.\<close>

lemma owner_prefixes_keys:
  "nb_nat_ip b = nb_nat_ip b' \<Longrightarrow> nb_port_min b = nb_port_min b' \<Longrightarrow> nb_port_max b = nb_port_max b'
   \<Longrightarrow> map fst (owner_prefixes ab b) = map fst (owner_prefixes ab b')"
  by (simp add: owner_prefixes_def case_prod_beta comp_def)

section \<open>Writes\<close>

definition same_lists :: "NatFam \<Rightarrow> NatFam \<Rightarrow> bool" where
  "same_lists f f' \<longleftrightarrow> nf_upsert_fault f' = nf_upsert_fault f \<and> nf_remove_fault f' = nf_remove_fault f
     \<and> nf_walk_cut f' = nf_walk_cut f \<and> nf_blocks f' = nf_blocks f \<and> nf_count f' = nf_count f"

lemma same_lists_refl: "same_lists f f"
  by (simp add: same_lists_def)

lemma same_lists_trans: "same_lists f g \<Longrightarrow> same_lists g h \<Longrightarrow> same_lists f h"
  by (simp add: same_lists_def)

lemma upsert_same: "same_lists f (fst (nat_owner_upsert k v f))"
  by (simp add: nat_owner_upsert_def same_lists_def)

lemma remove_same: "same_lists f (fst (nat_owner_remove k f))"
  by (simp add: nat_owner_remove_def same_lists_def)

text \<open>
  Entries that all carry one owner: either all are written, or the first one that fails splits them.
\<close>

lemma write_prefixes_ok:
  assumes "\<forall>(k, ow') \<in> set es. ow' = ow" and "mwf (nf_owners f)" and "write_prefixes done es f = (f', r)"
  shows "same_lists f f' \<and> mwf (nf_owners f')
    \<and> (\<exists>es1 es2. es = es1 @ es2 \<and> (r = None \<and> es2 = [] \<or> r = Some (done @ es1) \<and> es2 \<noteq> [] \<and> nf_upsert_fault f = Some (fst (hd es2)))
        \<and> (\<forall>x. mget (nf_owners f') x = (if x \<in> fst ` set es1 then Some ow else mget (nf_owners f) x)))"
  using assms
proof (induction es arbitrary: "done" f)
  case Nil
  then show ?case by (auto simp: same_lists_refl)
next
  case (Cons e es)
  obtain k ow' where e: "e = (k, ow')" by fastforce
  show ?case
  proof (cases "nf_upsert_fault f = Some k")
    case True
    with Cons.prems e have "f' = f" "r = Some done" by (auto simp: nat_owner_upsert_def)
    then show ?thesis using True Cons.prems(2)
      by (intro conjI exI [of _ "[]"] exI [of _ "e # es"]) (auto simp: same_lists_refl e)
  next
    case False
    let ?g = "f\<lparr>nf_owners := mput k ow' (nf_owners f)\<rparr>"
    have ow: "ow' = ow" using Cons.prems(1) e by simp
    have "write_prefixes (done @ [e]) es ?g = (f', r)"
      using Cons.prems(3) False by (simp add: nat_owner_upsert_def e)
    from Cons.IH [OF _ _ this] Cons.prems obtain es1 es2 where
      s: "same_lists ?g f'" "mwf (nf_owners f')" and es: "es = es1 @ es2"
      and r: "r = None \<and> es2 = [] \<or> r = Some ((done @ [e]) @ es1) \<and> es2 \<noteq> [] \<and> nf_upsert_fault ?g = Some (fst (hd es2))"
      and g: "\<forall>x. mget (nf_owners f') x = (if x \<in> fst ` set es1 then Some ow else mget (nf_owners ?g) x)"
      by fastforce
    have "same_lists f f'" using s(1) by (rule same_lists_trans [rotated]) (simp add: same_lists_def)
    moreover have "e # es = (e # es1) @ es2" using es by simp
    moreover have "\<forall>x. mget (nf_owners f') x = (if x \<in> fst ` set (e # es1) then Some ow else mget (nf_owners f) x)"
      using g by (auto simp: e ow)
    ultimately show ?thesis using s(2) r by (intro conjI exI [of _ "e # es1"] exI [of _ es2]) auto
  qed
qed

lemma remove_prefixes_ok:
  assumes "mwf (nf_owners f)" and "remove_prefixes es (f, bad) = (f', bad')"
  shows "same_lists f f' \<and> mwf (nf_owners f') \<and> (bad' \<longleftrightarrow> bad \<or> nf_remove_fault f \<in> Some ` fst ` set es)
    \<and> (\<forall>x. mget (nf_owners f') x = (if x \<in> fst ` set es \<and> nf_remove_fault f \<noteq> Some x then None else mget (nf_owners f) x))"
  using assms
proof (induction es arbitrary: f bad)
  case Nil
  then show ?case by (auto simp: same_lists_refl)
next
  case (Cons e es)
  obtain k ow where e: "e = (k, ow)" by fastforce
  let ?g = "fst (nat_owner_remove k f)"
  have "remove_prefixes es (?g, bad \<or> nf_remove_fault f = Some k) = (f', bad')"
    using Cons.prems(2) by (auto simp: e nat_owner_remove_def)
  moreover have "mwf (nf_owners ?g)" using Cons.prems(1) by (simp add: nat_owner_remove_def)
  ultimately have ih: "same_lists ?g f'" "mwf (nf_owners f')"
    "bad' \<longleftrightarrow> (bad \<or> nf_remove_fault f = Some k) \<or> nf_remove_fault ?g \<in> Some ` fst ` set es"
    "\<forall>x. mget (nf_owners f') x = (if x \<in> fst ` set es \<and> nf_remove_fault ?g \<noteq> Some x then None else mget (nf_owners ?g) x)"
    using Cons.IH by blast+
  have "same_lists f f'" using remove_same ih(1) by (rule same_lists_trans)
  then show ?case using ih(2-) by (auto simp: e nat_owner_remove_def)
qed


text \<open>Writing one block: all of it, or what comes before the prefix whose write fails.\<close>

lemma write_block_ok:
  assumes "mwf (nf_owners f)" and "write_prefixes [] (owner_prefixes ab b) f = (g, w)"
  obtains es1 es2 where "same_lists f g" and "mwf (nf_owners g)" and "owner_prefixes ab b = es1 @ es2"
    and "w = None \<and> es1 = owner_prefixes ab b \<or> w = Some es1 \<and> nf_upsert_fault f \<noteq> None"
    and "\<forall>x. mget (nf_owners g) x = (if x \<in> fst ` set es1 then Some (block_owner b) else mget (nf_owners f) x)"
    and "\<forall>x \<in> fst ` set es1. (x, block_owner b) \<in> set (owner_prefixes ab b)"
proof -
  have all: "\<forall>(k, ow') \<in> set (owner_prefixes ab b). ow' = block_owner b" by (auto dest: owner_prefixes_owner)
  from write_prefixes_ok [OF all assms] obtain es1 es2 where g: "same_lists f g" "mwf (nf_owners g)"
    and es: "owner_prefixes ab b = es1 @ es2"
    and r: "w = None \<and> es2 = [] \<or> w = Some es1 \<and> es2 \<noteq> [] \<and> nf_upsert_fault f = Some (fst (hd es2))"
    and own: "\<forall>x. mget (nf_owners g) x = (if x \<in> fst ` set es1 then Some (block_owner b) else mget (nf_owners f) x)"
    by auto
  have new: "(x, block_owner b) \<in> set (owner_prefixes ab b)" if "x \<in> fst ` set es1" for x
  proof -
    from that obtain ow where "(x, ow) \<in> set es1" by auto
    then have "(x, ow) \<in> set (owner_prefixes ab b)" using es by simp
    then show ?thesis using owner_prefixes_owner by blast
  qed
  have "w = None \<and> es1 = owner_prefixes ab b \<or> w = Some es1 \<and> nf_upsert_fault f \<noteq> None" using r es by auto
  then show thesis by (rule that [OF g es]) (use own new in auto)
qed

section \<open>The invariant\<close>

text \<open>The listed blocks sit under their own keys, and none reaches a later start on its address.\<close>

definition blocks_ok :: "nat \<Rightarrow> (byte list \<times> u16, NeighborNatEntry) gomap \<Rightarrow> bool" where
  "blocks_ok ab m \<longleftrightarrow> mwf m
     \<and> (\<forall>k b. mget m k = Some b \<longrightarrow> block_key b = k \<and> 8 * length (nb_nat_ip b) = ab)
     \<and> (\<forall>ip lo lo' b b'. mget m (ip, lo) = Some b \<longrightarrow> mget m (ip, lo') = Some b' \<longrightarrow> lo < lo' \<longrightarrow> nb_port_max b \<le> lo')"

definition prefixes_of :: "nat \<Rightarrow> NeighborNatEntry option \<Rightarrow> nat" where
  "prefixes_of ab b = (case b of Some b \<Rightarrow> length (owner_prefixes ab b) | None \<Rightarrow> 0)"

definition all_prefixes :: "nat \<Rightarrow> (byte list \<times> u16, NeighborNatEntry) gomap \<Rightarrow> nat" where
  "all_prefixes ab m = (\<Sum>k \<in> set (mkeys m). prefixes_of ab (mget m k))"

definition belongs :: "nat \<Rightarrow> owner_key \<Rightarrow> NatOwner \<Rightarrow> NeighborNatEntry \<Rightarrow> bool" where
  "belongs ab x ow b \<longleftrightarrow> x \<in> fst ` set (owner_prefixes ab b) \<and> no_port_min ow = nb_port_min b \<and> no_port_max ow = nb_port_max b"

definition nat_inv :: "nat \<Rightarrow> NatFam \<Rightarrow> bool" where
  "nat_inv ab f \<longleftrightarrow> mwf (nf_owners f) \<and> blocks_ok ab (nf_blocks f)
     \<and> (\<forall>k b. mget (nf_blocks f) k = Some b \<longrightarrow> nb_port_min b < nb_port_max b)
     \<and> (\<forall>x ow. mget (nf_owners f) x = Some ow \<longrightarrow> (\<exists>k b. mget (nf_blocks f) k = Some b \<and> belongs ab x ow b))
     \<and> nf_count f = all_prefixes ab (nf_blocks f) \<and> nf_count f \<le> NAT_OWNERS_MAX"

definition nat_exact :: "nat \<Rightarrow> NatFam \<Rightarrow> bool" where
  "nat_exact ab f \<longleftrightarrow> (\<forall>x ow. mget (nf_owners f) x = Some ow
     \<longleftrightarrow> (\<exists>k b. mget (nf_blocks f) k = Some b \<and> (x, ow) \<in> set (owner_prefixes ab b)))"

definition no_faults :: "NatFam \<Rightarrow> bool" where
  "no_faults f \<longleftrightarrow> nf_upsert_fault f = None \<and> nf_remove_fault f = None"

lemma belongs_own: "(x, ow) \<in> set (owner_prefixes ab b) \<Longrightarrow> belongs ab x ow b"
  by (frule owner_prefixes_owner) (force simp: belongs_def block_owner_def)

text \<open>Two listed blocks with a prefix in common are one.\<close>

lemma shared_prefix_same:
  assumes ok: "blocks_ok ab m" and b: "mget m k = Some b" and b': "mget m k' = Some b'"
    and x: "x \<in> fst ` set (owner_prefixes ab b)" and x': "x \<in> fst ` set (owner_prefixes ab b')"
  shows "k = k' \<and> b = b'"
proof -
  from x x' obtain ow ow' where "(x, ow) \<in> set (owner_prefixes ab b)" "(x, ow') \<in> set (owner_prefixes ab b')" by force
  then obtain port where p: "nb_nat_ip b = nb_nat_ip b'" "nb_port_min b \<le> port" "port < nb_port_max b"
      "nb_port_min b' \<le> port" "port < nb_port_max b'"
    by (rule owner_prefixes_shared)
  have kk: "block_key b = k" "block_key b' = k'" using ok b b' unfolding blocks_ok_def by blast+
  define ip lo lo' where "ip = nb_nat_ip b'" and "lo = nb_port_min b" and "lo' = nb_port_min b'"
  note m = this
  have k: "k = (ip, lo)" "k' = (ip, lo')" using kk p(1) by (simp_all add: block_key_def m)
  have sep: "\<And>ip lo lo' b b'. mget m (ip, lo) = Some b \<Longrightarrow> mget m (ip, lo') = Some b' \<Longrightarrow> lo < lo' \<Longrightarrow> nb_port_max b \<le> lo'"
    using ok unfolding blocks_ok_def by blast
  have "\<not> lo < lo'" using sep [OF b [unfolded k] b' [unfolded k]] p unfolding m by fastforce
  moreover have "\<not> lo' < lo" using sep [OF b' [unfolded k] b [unfolded k]] p unfolding m by fastforce
  ultimately have "lo = lo'" by simp
  with b b' k show ?thesis by simp
qed

section \<open>Overlap\<close>

text \<open>No listed block of the address starts in the range or reaches into it.\<close>

definition free_range :: "byte list \<Rightarrow> u16 \<Rightarrow> u16 \<Rightarrow> (byte list \<times> u16, NeighborNatEntry) gomap \<Rightarrow> bool" where
  "free_range ip lo hi m \<longleftrightarrow> (\<forall>s b. mget m (ip, s) = Some b \<longrightarrow> s < lo \<and> nb_port_max b \<le> lo \<or> hi \<le> s)"

lemma pair_between: "(ip, a) \<le> k \<Longrightarrow> k \<le> (ip, c) \<Longrightarrow> fst k = ip \<and> a \<le> snd k \<and> snd k \<le> c"
  for ip :: "byte list" and a c :: u16
  by (cases k) (auto simp: less_eq_prod_def)

text \<open>Looking at the two neighbours of the start finds every overlap.\<close>

lemma overlaps_iff:
  assumes ok: "blocks_ok ab (nf_blocks f)" and lt: "lo < hi"
  shows "overlaps ip lo hi f \<longleftrightarrow> \<not> free_range ip lo hi (nf_blocks f)"
proof
  let ?m = "nf_blocks f"
  have wf: "mwf ?m" using ok by (simp add: blocks_ok_def)
  assume "overlaps ip lo hi f"
  then consider s b where "next_back ?m (ip, lo) = Some ((ip, s), b)" "lo < nb_port_max b"
    | s b where "next_from ?m (ip, lo) = Some ((ip, s), b)" "s < hi"
    by (auto simp: overlaps_def split: option.splits)
  then show "\<not> free_range ip lo hi ?m"
  proof cases
    case 1
    from next_back_Some(1,2) [OF 1(1)] wf have "mget ?m (ip, s) = Some b" "s \<le> lo"
      by (simp_all add: mget_iff less_eq_prod_def)
    with 1(2) lt show ?thesis unfolding free_range_def by fastforce
  next
    case 2
    from next_from_Some(1,2) [OF 2(1)] wf have "mget ?m (ip, s) = Some b" "lo \<le> s"
      by (simp_all add: mget_iff less_eq_prod_def)
    with 2(2) show ?thesis unfolding free_range_def by fastforce
  qed
next
  let ?m = "nf_blocks f"
  have wf: "mwf ?m" using ok by (simp add: blocks_ok_def)
  have sep: "\<And>ip lo lo' b b'. mget ?m (ip, lo) = Some b \<Longrightarrow> mget ?m (ip, lo') = Some b' \<Longrightarrow> lo < lo' \<Longrightarrow> nb_port_max b \<le> lo'"
    using ok unfolding blocks_ok_def by blast
  assume "\<not> free_range ip lo hi ?m"
  then obtain s b where b: "mget ?m (ip, s) = Some b" and bad: "\<not> (s < lo \<and> nb_port_max b \<le> lo)" "s < hi"
    by (auto simp: free_range_def)
  have mem: "((ip, s), b) \<in> set ?m" using b by (rule mget_in)
  show "overlaps ip lo hi f"
  proof (cases "lo \<le> s")
    case True
    then have le: "(ip, lo) \<le> (ip, s)" by (simp add: less_eq_prod_def)
    then obtain k c where n: "next_from ?m (ip, lo) = Some (k, c)" using next_from_None mem by fastforce
    have "fst k = ip" "snd k \<le> s" using pair_between [OF next_from_Some(2,3) [OF n]] mem le by auto
    with n bad(2) show ?thesis by (auto simp: overlaps_def split: option.splits)
  next
    case False
    then have le: "(ip, s) \<le> (ip, lo)" by (simp add: less_eq_prod_def)
    then obtain k c where n: "next_back ?m (ip, lo) = Some (k, c)" using next_back_None mem by fastforce
    have k: "fst k = ip" "s \<le> snd k" "snd k \<le> lo" using pair_between [OF next_back_Some(3) [OF n] next_back_Some(2) [OF n]] mem le by auto
    have c: "mget ?m (ip, snd k) = Some c" using next_back_Some(1) [OF n] wf k(1) by (cases k) (simp add: mget_iff)
    have "lo < nb_port_max c"
    proof (cases "s = snd k")
      case True
      with b c bad(1) False show ?thesis by auto
    next
      case False
      with k have "s < snd k" by simp
      with sep [OF b c] k(3) have "nb_port_max b \<le> lo" by simp
      with bad(1) \<open>\<not> lo \<le> s\<close> show ?thesis by simp
    qed
    with n k(1) show ?thesis by (auto simp: overlaps_def split: option.splits)
  qed
qed

section \<open>What the trie holds\<close>

text \<open>The entries a list of blocks stands for.\<close>

definition entry_of :: "nat \<Rightarrow> (byte list \<times> u16, NeighborNatEntry) gomap \<Rightarrow> owner_key \<Rightarrow> NatOwner \<Rightarrow> bool" where
  "entry_of ab m x ow \<longleftrightarrow> (\<exists>k b. mget m k = Some b \<and> (x, ow) \<in> set (owner_prefixes ab b))"

lemma nat_exact_iff: "nat_exact ab f \<longleftrightarrow> (\<forall>x ow. mget (nf_owners f) x = Some ow \<longleftrightarrow> entry_of ab (nf_blocks f) x ow)"
  by (simp add: nat_exact_def entry_of_def)

lemma entry_own: "(x, ow) \<in> set (owner_prefixes ab b) \<longleftrightarrow> x \<in> fst ` set (owner_prefixes ab b) \<and> ow = block_owner b"
proof
  assume "(x, ow) \<in> set (owner_prefixes ab b)"
  then show "x \<in> fst ` set (owner_prefixes ab b) \<and> ow = block_owner b"
    by (intro conjI image_eqI [of x fst "(x, ow)"]) (simp_all add: owner_prefixes_owner)
next
  assume a: "x \<in> fst ` set (owner_prefixes ab b) \<and> ow = block_owner b"
  then obtain ow' where "(x, ow') \<in> set (owner_prefixes ab b)" by force
  with a show "(x, ow) \<in> set (owner_prefixes ab b)" using owner_prefixes_owner by blast
qed

text \<open>Listing a block, in place of one with the same prefixes if its key is taken.\<close>

lemma entry_put:
  assumes ok: "blocks_ok ab (mput k b m)"
    and old: "\<And>b0. mget m k = Some b0 \<Longrightarrow> fst ` set (owner_prefixes ab b0) = fst ` set (owner_prefixes ab b)"
  shows "entry_of ab (mput k b m) x ow
    \<longleftrightarrow> (if x \<in> fst ` set (owner_prefixes ab b) then ow = block_owner b else entry_of ab m x ow)"
proof (cases "x \<in> fst ` set (owner_prefixes ab b)")
  case True
  have "b' = b" if "mget (mput k b m) k' = Some b'" "(x, ow) \<in> set (owner_prefixes ab b')" for k' b'
    using shared_prefix_same [OF ok that(1), of k b x] that(2) True by (simp add: entry_own)
  moreover have "mget (mput k b m) k = Some b" by simp
  ultimately show ?thesis using True unfolding entry_of_def by (metis entry_own)
next
  case False
  have "mget (mput k b m) k' = Some b' \<and> (x, ow) \<in> set (owner_prefixes ab b') \<longleftrightarrow> mget m k' = Some b' \<and> (x, ow) \<in> set (owner_prefixes ab b')" for k' b'
    using False old [of b'] by (cases "k' = k") (auto simp: entry_own)
  with False show ?thesis by (simp add: entry_of_def del: mget_put)
qed

lemma entry_del:
  assumes ok: "blocks_ok ab m" and b: "mget m k = Some b"
  shows "entry_of ab (mdel k m) x ow \<longleftrightarrow> x \<notin> fst ` set (owner_prefixes ab b) \<and> entry_of ab m x ow"
proof -
  have "mget (mdel k m) k' = Some b' \<and> (x, ow) \<in> set (owner_prefixes ab b')
      \<longleftrightarrow> x \<notin> fst ` set (owner_prefixes ab b) \<and> mget m k' = Some b' \<and> (x, ow) \<in> set (owner_prefixes ab b')" for k' b'
    using shared_prefix_same [OF ok _ b, of k' b' x] b by (cases "k' = k") (auto simp: entry_own)
  then show ?thesis unfolding entry_of_def by (simp del: mget_del)
qed

section \<open>Storing a block\<close>

lemma all_prefixes_put:
  assumes "mget m k = None"
  shows "all_prefixes ab (mput k b m) = all_prefixes ab m + length (owner_prefixes ab b)"
proof -
  have "k \<notin> set (mkeys m)" using assms by (simp add: mkeys_iff)
  then show ?thesis
    by (simp add: all_prefixes_def gm.keys_put prefixes_of_def cong: sum.cong_simp) (auto intro!: sum.cong)
qed

lemma blocks_ok_put:
  assumes ok: "blocks_ok ab m" and len: "8 * length (nb_nat_ip b) = ab"
    and free: "free_range (nb_nat_ip b) (nb_port_min b) (nb_port_max b) m" and lt: "nb_port_min b < nb_port_max b"
  shows "blocks_ok ab (mput (block_key b) b m) \<and> mget m (block_key b) = None"
proof -
  have none: "mget m (block_key b) = None"
  proof (rule ccontr)
    assume "mget m (block_key b) \<noteq> None"
    then obtain b' where "mget m (nb_nat_ip b, nb_port_min b) = Some b'" by (auto simp: block_key_def)
    with free lt show False unfolding free_range_def by fastforce
  qed
  have "nb_port_max b1 \<le> lo'" if "mget (mput (block_key b) b m) (ip, lo) = Some b1" "mget (mput (block_key b) b m) (ip, lo') = Some b2" "lo < lo'"
    for ip lo lo' b1 b2
  proof -
    note got = that
    consider "(ip, lo) = block_key b" "b1 = b" "mget m (ip, lo') = Some b2" | "mget m (ip, lo) = Some b1" "(ip, lo') = block_key b"
      | "mget m (ip, lo) = Some b1" "mget m (ip, lo') = Some b2"
      using got by (cases "(ip, lo) = block_key b"; cases "(ip, lo') = block_key b") (auto simp: block_key_def)
    then show ?thesis
    proof cases
      case 1
      with free that(3) show ?thesis unfolding free_range_def block_key_def by fastforce
    next
      case 2
      with free that(3) lt show ?thesis unfolding free_range_def block_key_def by fastforce
    next
      case 3
      with ok that(3) show ?thesis unfolding blocks_ok_def by blast
    qed
  qed
  then show ?thesis using ok len none unfolding blocks_ok_def by (auto split: if_splits)
qed


definition same_faults :: "NatFam \<Rightarrow> NatFam \<Rightarrow> bool" where
  "same_faults f f' \<longleftrightarrow> nf_upsert_fault f' = nf_upsert_fault f \<and> nf_remove_fault f' = nf_remove_fault f \<and> nf_walk_cut f' = nf_walk_cut f"

lemma same_faults_refl: "same_faults f f"
  by (simp add: same_faults_def)

lemma same_faults_trans: "same_faults f g \<Longrightarrow> same_faults g h \<Longrightarrow> same_faults f h"
  by (simp add: same_faults_def)

lemma no_faults_same: "same_faults f f' \<Longrightarrow> no_faults f' = no_faults f"
  by (simp add: same_faults_def no_faults_def)

text \<open>A prefix of a block that fits between the listed ones is in no trie entry.\<close>

lemma free_prefix_absent:
  assumes inv: "nat_inv ab f" and free: "free_range (nb_nat_ip b) (nb_port_min b) (nb_port_max b) (nf_blocks f)"
    and x: "x \<in> fst ` set (owner_prefixes ab b)"
  shows "mget (nf_owners f) x = None"
proof (rule ccontr)
  assume "mget (nf_owners f) x \<noteq> None"
  then obtain ow k b' where b': "mget (nf_blocks f) k = Some b'" "belongs ab x ow b'"
    using inv unfolding nat_inv_def by blast
  from x b'(2) obtain ow1 ow2 where "(x, ow1) \<in> set (owner_prefixes ab b)" "(x, ow2) \<in> set (owner_prefixes ab b')"
    by (force simp: belongs_def)
  then obtain port where p: "nb_nat_ip b = nb_nat_ip b'" "nb_port_min b \<le> port" "port < nb_port_max b"
      "nb_port_min b' \<le> port" "port < nb_port_max b'"
    by (rule owner_prefixes_shared)
  have "k = (nb_nat_ip b, nb_port_min b')"
    using inv b'(1) p(1) unfolding nat_inv_def blocks_ok_def block_key_def by fastforce
  with free b'(1) have "nb_port_min b' < nb_port_min b \<and> nb_port_max b' \<le> nb_port_min b \<or> nb_port_max b \<le> nb_port_min b'"
    unfolding free_range_def by blast
  with p show False by auto
qed

lemma list_block_inv:
  assumes inv: "nat_inv ab f" and len: "8 * length (nb_nat_ip b) = ab" and lt: "nb_port_min b < nb_port_max b"
    and free: "free_range (nb_nat_ip b) (nb_port_min b) (nb_port_max b) (nf_blocks f)"
    and room: "nf_count f + length (owner_prefixes ab b) \<le> NAT_OWNERS_MAX"
    and g: "same_lists f g" "mwf (nf_owners g)"
    and own: "\<And>x ow. mget (nf_owners g) x = Some ow \<Longrightarrow> mget (nf_owners f) x = Some ow \<or> (x, ow) \<in> set (owner_prefixes ab b)"
  shows "nat_inv ab (list_block (length (owner_prefixes ab b)) b g)"
proof -
  let ?m = "nf_blocks f"
  have ok: "blocks_ok ab ?m" using inv by (simp add: nat_inv_def)
  note put = blocks_ok_put [OF ok len free lt]
  have gm: "nf_blocks g = ?m" "nf_count g = nf_count f" using g(1) by (simp_all add: same_lists_def)
  have "\<exists>k b'. mget (mput (block_key b) b ?m) k = Some b' \<and> belongs ab x ow b'" if "mget (nf_owners g) x = Some ow" for x ow
    using own [OF that]
  proof
    assume "mget (nf_owners f) x = Some ow"
    then obtain k b' where b': "mget ?m k = Some b'" "belongs ab x ow b'" using inv unfolding nat_inv_def by blast
    moreover have "k \<noteq> block_key b" using put b'(1) by auto
    ultimately show ?thesis by (intro exI [of _ k] exI [of _ b']) simp
  next
    assume "(x, ow) \<in> set (owner_prefixes ab b)"
    then show ?thesis by (intro exI [of _ "block_key b"] exI [of _ b]) (simp add: belongs_own)
  qed
  then show ?thesis using g(2) put room inv lt by (simp add: nat_inv_def list_block_def gm all_prefixes_put)
qed

text \<open>Undoing a failed write: without a failing removal the trie is what it was.\<close>

lemma undo_block_ok:
  assumes inv: "nat_inv ab f" and free: "free_range (nb_nat_ip b) (nb_port_min b) (nb_port_max b) (nf_blocks f)"
    and g: "same_lists f g" "mwf (nf_owners g)"
    and own: "\<forall>x. mget (nf_owners g) x = (if x \<in> fst ` set es1 then Some (block_owner b) else mget (nf_owners f) x)"
    and es: "owner_prefixes ab b = es1 @ es2" and h: "remove_prefixes es1 (g, False) = (h, stranded)"
  shows "same_lists f h \<and> mwf (nf_owners h)
    \<and> (\<forall>x ow. mget (nf_owners h) x = Some ow \<longrightarrow> mget (nf_owners g) x = Some ow)
    \<and> (\<not> stranded \<longrightarrow> (\<forall>x. mget (nf_owners h) x = mget (nf_owners f) x))"
proof -
  from remove_prefixes_ok [OF g(2) h] have hg: "same_lists g h" "mwf (nf_owners h)"
    and str: "stranded \<longleftrightarrow> nf_remove_fault g \<in> Some ` fst ` set es1"
    and hown: "\<forall>x. mget (nf_owners h) x = (if x \<in> fst ` set es1 \<and> nf_remove_fault g \<noteq> Some x then None else mget (nf_owners g) x)"
    by auto
  have "mget (nf_owners h) x = mget (nf_owners f) x" if "\<not> stranded" for x
  proof (cases "x \<in> fst ` set es1")
    case True
    then have "nf_remove_fault g \<noteq> Some x" using that str by blast
    moreover have "mget (nf_owners f) x = None"
      by (rule free_prefix_absent [OF inv free]) (use True in \<open>simp add: es image_Un\<close>)
    ultimately show ?thesis using True hown by simp
  qed (use hown own in simp)
  then show ?thesis using same_lists_trans [OF g(1) hg(1)] hg(2) hown by (auto split: if_splits)
qed

lemma store_block_inv:
  assumes inv: "nat_inv ab f" and len: "8 * length (nb_nat_ip b) = ab" and lt: "nb_port_min b < nb_port_max b"
    and free: "free_range (nb_nat_ip b) (nb_port_min b) (nb_port_max b) (nf_blocks f)"
    and st: "store_block ab b f = (r, f')"
  shows "nat_inv ab f' \<and> same_faults f f' \<and> (r = None \<longrightarrow> nf_blocks f' = mput (block_key b) b (nf_blocks f))
    \<and> (r \<noteq> None \<longrightarrow> f' = f \<or> \<not> no_faults f) \<and> (no_faults f \<longrightarrow> nat_exact ab f \<longrightarrow> nat_exact ab f')"
proof (cases "nf_count f + length (owner_prefixes ab b) > NAT_OWNERS_MAX")
  case True
  with st inv show ?thesis by (auto simp: store_block_def Let_def same_faults_def)
next
  case False
  let ?es = "owner_prefixes ab b"
  have wf: "mwf (nf_owners f)" and ok: "blocks_ok ab (nf_blocks f)" using inv by (simp_all add: nat_inv_def)
  obtain g w where w: "write_prefixes [] ?es f = (g, w)" by fastforce
  from wf w obtain es1 es2 where g: "same_lists f g" "mwf (nf_owners g)" and es: "?es = es1 @ es2"
    and r: "w = None \<and> es1 = ?es \<or> w = Some es1 \<and> nf_upsert_fault f \<noteq> None"
    and own: "\<forall>x. mget (nf_owners g) x = (if x \<in> fst ` set es1 then Some (block_owner b) else mget (nf_owners f) x)"
    and new: "\<forall>x \<in> fst ` set es1. (x, block_owner b) \<in> set ?es"
    by (rule write_block_ok)
  have list_inv: "nat_inv ab (list_block (length ?es) b h)" if h: "same_lists f h" "mwf (nf_owners h)"
      and sub: "\<And>x ow. mget (nf_owners h) x = Some ow \<Longrightarrow> mget (nf_owners g) x = Some ow" for h
  proof (rule list_block_inv [OF inv len lt free _ h])
    fix x ow assume "mget (nf_owners h) x = Some ow"
    then have "(if x \<in> fst ` set es1 then Some (block_owner b) else mget (nf_owners f) x) = Some ow" using sub own by simp
    then show "mget (nf_owners f) x = Some ow \<or> (x, ow) \<in> set ?es" using bspec [OF new, of x] by (simp split: if_splits)
  qed (use False in simp)
  show ?thesis
  proof (cases w)
    case None
    then have f': "f' = list_block (length ?es) b g" "r = None" and es1: "es1 = ?es"
      using st w False r by (auto simp: store_block_def Let_def)
    note put = blocks_ok_put [OF ok len free lt]
    have fb: "nf_blocks f' = mput (block_key b) b (nf_blocks f)" using g(1) by (simp add: f' list_block_def same_lists_def)
    have "nat_exact ab f'" if "nat_exact ab f"
      using that own es1 put entry_put [of ab "block_key b" b "nf_blocks f"]
      unfolding nat_exact_iff fb by (auto simp: f' list_block_def)
    moreover have "nat_inv ab f'" unfolding f'(1) by (rule list_inv [OF g])
    ultimately show ?thesis using g(1) f'(2) fb by (simp add: f' list_block_def same_lists_def same_faults_def)
  next
    case (Some written)
    with r have written: "written = es1" and up: "nf_upsert_fault f \<noteq> None" by auto
    obtain h stranded where h: "remove_prefixes es1 (g, False) = (h, stranded)" by fastforce
    have f': "r = Some NatMap" "f' = (if stranded then list_block (length ?es) b h else h)"
      using st w False Some written h by (auto simp: store_block_def Let_def)
    from undo_block_ok [OF inv free g own es h] have fh: "same_lists f h" "mwf (nf_owners h)"
      and sub: "\<And>x ow. mget (nf_owners h) x = Some ow \<Longrightarrow> mget (nf_owners g) x = Some ow"
      and undone: "\<not> stranded \<Longrightarrow> \<forall>x. mget (nf_owners h) x = mget (nf_owners f) x" by blast+
    have "nat_inv ab f'"
    proof (cases stranded)
      case True
      then show ?thesis using list_inv [OF fh sub] f' by simp
    next
      case False
      then show ?thesis using f' inv fh undone by (simp add: nat_inv_def same_lists_def)
    qed
    then show ?thesis using up fh f' by (auto simp: no_faults_def same_faults_def same_lists_def list_block_def)
  qed
qed

lemma add_block_inv:
  assumes inv: "nat_inv ab f" and len: "8 * length ip = ab" and add: "add_block ab vni ip lo hi ul f = (r, f')"
  shows "nat_inv ab f' \<and> same_faults f f' \<and> (no_faults f \<longrightarrow> nat_exact ab f \<longrightarrow> nat_exact ab f')"
proof (cases "lo \<ge> hi \<or> overlaps ip lo hi f")
  case True
  with add inv show ?thesis by (auto simp: add_block_def same_faults_refl split: if_splits)
next
  case False
  then have lt: "lo < hi" and ov: "\<not> overlaps ip lo hi f" by auto
  let ?b = "the_block vni ip lo hi ul"
  have "store_block ab ?b f = (r, f')" using add False by (simp add: add_block_def)
  moreover have "free_range ip lo hi (nf_blocks f)"
    using overlaps_iff [OF _ lt] ov inv unfolding nat_inv_def by blast
  ultimately show ?thesis using store_block_inv [OF inv, of ?b] lt len by (simp add: the_block_def)
qed


section \<open>Refreshing and deleting a block\<close>

lemma all_prefixes_swap:
  assumes "mget m k = Some b" and "length (owner_prefixes ab b') = length (owner_prefixes ab b)"
  shows "all_prefixes ab (mput k b' m) = all_prefixes ab m"
proof -
  have "insert k (set (mkeys m)) = set (mkeys m)" using assms(1) by (auto simp: mkeys_iff)
  then show ?thesis using assms by (auto simp: all_prefixes_def gm.keys_put prefixes_of_def intro!: sum.cong)
qed

lemma all_prefixes_del:
  assumes "mget m k = Some b"
  shows "all_prefixes ab (mdel k m) = all_prefixes ab m - length (owner_prefixes ab b)"
proof -
  have "k \<in> set (mkeys m)" using assms by (simp add: mkeys_iff)
  then have "all_prefixes ab m = length (owner_prefixes ab b) + (\<Sum>k' \<in> set (mkeys m) - {k}. prefixes_of ab (mget m k'))"
    by (simp add: all_prefixes_def sum.remove prefixes_of_def assms)
  moreover have "all_prefixes ab (mdel k m) = (\<Sum>k' \<in> set (mkeys m) - {k}. prefixes_of ab (mget m k'))"
    by (auto simp: all_prefixes_def gm.keys_del intro!: sum.cong)
  ultimately show ?thesis by simp
qed

text \<open>Another owner for a listed range: the list stays separated and the prefixes stay owned.\<close>

lemma blocks_ok_swap:
  assumes ok: "blocks_ok ab m" and b0: "mget m k = Some b0"
    and same: "nb_nat_ip b = nb_nat_ip b0" "nb_port_min b = nb_port_min b0" "nb_port_max b = nb_port_max b0"
  shows "blocks_ok ab (mput k b m)"
  unfolding blocks_ok_def
proof (intro conjI allI impI)
  fix ip lo1 lo2 b1 b2
  assume a: "mget (mput k b m) (ip, lo1) = Some b1" "mget (mput k b m) (ip, lo2) = Some b2" "lo1 < lo2"
  obtain c1 where "mget m (ip, lo1) = Some c1" "nb_port_max c1 = nb_port_max b1"
    using a(1) b0 same(3) by (auto split: if_splits)
  moreover obtain c2 where "mget m (ip, lo2) = Some c2" using a(2) b0 by (auto split: if_splits)
  ultimately show "nb_port_max b1 \<le> lo2" using ok a(3) unfolding blocks_ok_def by metis
next
  fix k' b' assume a: "mget (mput k b m) k' = Some b'"
  have "block_key b0 = k" "8 * length (nb_nat_ip b0) = ab" using ok b0 unfolding blocks_ok_def by blast+
  then show "block_key b' = k'" "8 * length (nb_nat_ip b') = ab"
    using a ok same unfolding blocks_ok_def by (cases "k' = k"; auto simp: block_key_def)+
qed (use ok in \<open>simp add: blocks_ok_def\<close>)

lemma refresh_block_inv:
  assumes inv: "nat_inv ab f" and b0: "mget (nf_blocks f) k = Some b0"
    and same: "nb_nat_ip b = nb_nat_ip b0" "nb_port_min b = nb_port_min b0" "nb_port_max b = nb_port_max b0"
    and w: "write_prefixes [] (owner_prefixes ab b) f = (g, w)"
  shows "nat_inv ab (if w = None then g\<lparr>nf_blocks := mput k b (nf_blocks f)\<rparr> else g) \<and> same_lists f g
    \<and> (no_faults f \<longrightarrow> nat_exact ab f \<longrightarrow> w = None \<and> nat_exact ab (g\<lparr>nf_blocks := mput k b (nf_blocks f)\<rparr>))"
proof -
  let ?m = "nf_blocks f" and ?es = "owner_prefixes ab b"
  have wf: "mwf (nf_owners f)" and ok: "blocks_ok ab ?m" using inv by (simp_all add: nat_inv_def)
  note ok' = blocks_ok_swap [OF ok b0 same]
  have keys: "map fst (owner_prefixes ab b0) = map fst ?es" by (rule owner_prefixes_keys) (simp_all add: same)
  have kset: "fst ` set (owner_prefixes ab b0) = fst ` set ?es" by (metis keys set_map)
  have lens: "length ?es = length (owner_prefixes ab b0)" by (metis keys length_map)
  have bel: "belongs ab x ow b \<longleftrightarrow> belongs ab x ow b0" for x ow by (simp add: belongs_def kset same)
  from wf w obtain es1 es2 where g: "same_lists f g" "mwf (nf_owners g)" and es: "?es = es1 @ es2"
    and rw: "w = None \<and> es1 = ?es \<or> w = Some es1 \<and> nf_upsert_fault f \<noteq> None"
    and own: "\<forall>x. mget (nf_owners g) x = (if x \<in> fst ` set es1 then Some (block_owner b) else mget (nf_owners f) x)"
    and new: "\<forall>x \<in> fst ` set es1. (x, block_owner b) \<in> set ?es"
    by (rule write_block_ok)
  have gb: "nf_blocks g = ?m" "nf_count g = nf_count f" using g(1) by (simp_all add: same_lists_def)
  have bg: "\<exists>k b. mget ?m k = Some b \<and> belongs ab x ow b" if "mget (nf_owners g) x = Some ow" for x ow
  proof (cases "x \<in> fst ` set es1")
    case True
    then have "ow = block_owner b" using own that by simp
    then have "belongs ab x ow b0" using belongs_own bspec [OF new True] bel by blast
    with b0 show ?thesis by blast
  next
    case False
    with own that inv show ?thesis unfolding nat_inv_def by simp
  qed
  have swap: "\<exists>k' b'. mget (mput k b ?m) k' = Some b' \<and> belongs ab x ow b'" if "mget ?m k' = Some b'" "belongs ab x ow b'" for x ow k' b'
  proof (cases "k' = k")
    case True
    with that b0 bel [of x ow] show ?thesis by (intro exI [of _ k] exI [of _ b]) simp
  next
    case False
    with that show ?thesis by (intro exI [of _ k'] exI [of _ b']) simp
  qed
  have "\<forall>x ow. mget (nf_owners g) x = Some ow \<longrightarrow> (\<exists>k' b'. mget (mput k b ?m) k' = Some b' \<and> belongs ab x ow b')"
    using bg swap by blast
  then have "nat_inv ab (g\<lparr>nf_blocks := mput k b ?m\<rparr>)"
    using inv g(2) ok' all_prefixes_swap [OF b0 lens] b0 same by (simp add: nat_inv_def gb)
  moreover have "nat_inv ab g" using inv g(2) bg by (simp add: nat_inv_def gb)
  moreover have "nat_exact ab (g\<lparr>nf_blocks := mput k b ?m\<rparr>)" if "nat_exact ab f" "es1 = ?es"
    using that own entry_put [OF ok'] b0 kset unfolding nat_exact_iff by (simp, blast)
  ultimately show ?thesis using g(1) rw by (auto simp: no_faults_def)
qed

lemma upsert_block_inv:
  assumes inv: "nat_inv ab f" and len: "8 * length ip = ab" and up: "upsert_block ab vni ip lo hi ul f = (r, f')"
  shows "nat_inv ab f' \<and> same_faults f f' \<and> (no_faults f \<longrightarrow> nat_exact ab f \<longrightarrow> nat_exact ab f')"
proof (cases "\<not> hi \<le> lo \<and> map_option nb_port_max (mget (nf_blocks f) (ip, lo)) = Some hi")
  case False
  then have "lo \<ge> hi \<and> f' = f \<or> add_block ab vni ip lo hi ul f = (r, f')"
    using up by (cases "hi \<le> lo"; cases "map_option nb_port_max (mget (nf_blocks f) (ip, lo)) = Some hi")
      (simp_all add: upsert_block_def Let_def)
  then show ?thesis using add_block_inv [OF inv len] inv same_faults_refl by blast
next
  case True
  let ?b = "the_block vni ip lo hi ul"
  from True obtain b0 where b0: "mget (nf_blocks f) (ip, lo) = Some b0" "nb_port_max b0 = hi" by auto
  have "block_key b0 = (ip, lo)" using inv b0(1) unfolding nat_inv_def blocks_ok_def by blast
  then have same: "nb_nat_ip ?b = nb_nat_ip b0" "nb_port_min ?b = nb_port_min b0" "nb_port_max ?b = nb_port_max b0"
    by (simp_all add: block_key_def the_block_def b0(2))
  obtain g w where w: "write_prefixes [] (owner_prefixes ab ?b) f = (g, w)" by fastforce
  note ref = refresh_block_inv [OF inv b0(1) same w]
  then have "nf_blocks g = nf_blocks f" by (simp add: same_lists_def)
  then have f': "f' = (if w = None then g\<lparr>nf_blocks := mput (ip, lo) ?b (nf_blocks f)\<rparr> else g)"
    using up w True by (cases w) (simp_all add: upsert_block_def Let_def b0)
  show ?thesis using ref unfolding f' by (auto simp: same_faults_def same_lists_def)
qed

lemma del_block_inv:
  assumes inv: "nat_inv ab f" and del: "del_block ab vni ip lo hi f = (r, f')"
  shows "nat_inv ab f' \<and> same_faults f f' \<and> (no_faults f \<longrightarrow> nat_exact ab f \<longrightarrow> nat_exact ab f')
    \<and> (nf_blocks f' = nf_blocks f \<or> r = Inr True \<and> nf_blocks f' = mdel (ip, lo) (nf_blocks f))
    \<and> (\<forall>b. mget (nf_blocks f) (ip, lo) = Some b \<longrightarrow> nb_vni b = vni \<longrightarrow> nb_port_max b = hi
         \<longrightarrow> r = Inr True \<and> nf_blocks f' = mdel (ip, lo) (nf_blocks f) \<or> r = Inl NatMap \<and> \<not> no_faults f)"
proof (cases "\<exists>b. mget (nf_blocks f) (ip, lo) = Some b \<and> nb_vni b = vni \<and> nb_port_max b = hi")
  case False
  then have "f' = f" using del by (auto simp: del_block_def Let_def split: option.splits if_splits)
  then show ?thesis using inv False by (auto simp: same_faults_refl)
next
  case True
  let ?m = "nf_blocks f"
  from True obtain b where b: "mget ?m (ip, lo) = Some b" "nb_vni b = vni" "nb_port_max b = hi" by blast
  let ?es = "owner_prefixes ab b"
  have wf: "mwf (nf_owners f)" and ok: "blocks_ok ab ?m" using inv by (simp_all add: nat_inv_def)
  obtain g bad where g: "remove_prefixes ?es (f, False) = (g, bad)" by fastforce
  from remove_prefixes_ok [OF wf g] have gs: "same_lists f g" "mwf (nf_owners g)"
    and bad: "bad \<longleftrightarrow> nf_remove_fault f \<in> Some ` fst ` set ?es"
    and own: "\<forall>x. mget (nf_owners g) x = (if x \<in> fst ` set ?es \<and> nf_remove_fault f \<noteq> Some x then None else mget (nf_owners f) x)"
    by auto
  have gb: "nf_blocks g = ?m" "nf_count g = nf_count f" using gs(1) by (simp_all add: same_lists_def)
  show ?thesis
  proof (cases bad)
    case True
    then have "f' = g" "r = Inl NatMap" using del b g by (auto simp: del_block_def Let_def)
    moreover have "nat_inv ab g" using inv gs(2) own by (simp add: nat_inv_def gb)
    moreover have "\<not> no_faults f" using True bad by (auto simp: no_faults_def)
    ultimately show ?thesis using gs(1) gb by (auto simp: same_faults_def same_lists_def)
  next
    case False
    then have f': "f' = g\<lparr>nf_blocks := mdel (ip, lo) ?m, nf_count := nf_count f - length ?es\<rparr>" "r = Inr True"
      using del b g gb by (auto simp: del_block_def Let_def)
    have own': "mget (nf_owners f') x = (if x \<in> fst ` set ?es then None else mget (nf_owners f) x)" for x
      using own False bad by (auto simp: f')
    have ok': "blocks_ok ab (mdel (ip, lo) ?m)"
      using ok unfolding blocks_ok_def by (auto split: if_splits)
    have keep: "k \<noteq> (ip, lo)" if "mget ?m k = Some b'" "x \<in> fst ` set (owner_prefixes ab b')" "x \<notin> fst ` set ?es" for k b' x
      using that b(1) by auto
    have "\<exists>k b'. mget (mdel (ip, lo) ?m) k = Some b' \<and> belongs ab x ow b'" if "mget (nf_owners f') x = Some ow" for x ow
    proof -
      from that own' have x: "x \<notin> fst ` set ?es" "mget (nf_owners f) x = Some ow" by (auto split: if_splits)
      then obtain k b' where kb: "mget ?m k = Some b'" "belongs ab x ow b'" using inv unfolding nat_inv_def by blast
      then have "k \<noteq> (ip, lo)" using keep x(1) unfolding belongs_def by blast
      with kb show ?thesis by (intro exI [of _ k]) simp
    qed
    moreover have "all_prefixes ab (mdel (ip, lo) ?m) = nf_count f - length ?es"
      using all_prefixes_del [OF b(1)] inv by (simp add: nat_inv_def)
    moreover have "nf_count f - length ?es \<le> NAT_OWNERS_MAX" using inv unfolding nat_inv_def by linarith
    ultimately have inv': "nat_inv ab f'" using inv ok' gs(2) by (simp add: nat_inv_def f')
    have "nat_exact ab f'" if "nat_exact ab f"
      using that own' entry_del [OF ok b(1)] unfolding nat_exact_iff by (simp add: f')
    with inv' gs(1) b show ?thesis by (auto simp: f' same_faults_def same_lists_def)
  qed
qed

end
