(* ===== verification/Natowner_Adopt.thy ===== *)
theory Natowner_Adopt
  imports Natowner_Inv
begin

text \<open>
  Adopting the owner tries after a restart: what the rebuilt block list holds, that it never
  overlaps, and what the rewritten and swept trie holds.
\<close>

section \<open>Rebuilding the list\<close>

lemma rebuild_snoc:
  "rebuild_blocks (ws @ [((p, key), ow)]) = mput (block_key (owned_block key ow)) (owned_block key ow) (rebuild_blocks ws)"
  by (simp add: rebuild_blocks_def)

lemma mwf_rebuild [simp]: "mwf (rebuild_blocks ws)"
proof (induction ws rule: rev_induct)
  case (snoc w ws)
  obtain p key ow where "w = ((p, key), ow)" by (metis surj_pair)
  with snoc show ?case by (simp add: rebuild_snoc)
qed (simp add: rebuild_blocks_def)

lemma rebuild_sound:
  "mget (rebuild_blocks ws) k = Some b \<Longrightarrow> \<exists>p key ow. ((p, key), ow) \<in> set ws \<and> b = owned_block key ow \<and> k = block_key b"
proof (induction ws rule: rev_induct)
  case (snoc w ws)
  obtain p key ow where w: "w = ((p, key), ow)" by (metis surj_pair)
  show ?case
  proof (cases "k = block_key (owned_block key ow)")
    case True
    then show ?thesis using snoc.prems by (auto simp: w rebuild_snoc)
  next
    case False
    then show ?thesis using snoc by (fastforce simp: w rebuild_snoc)
  qed
qed (simp add: rebuild_blocks_def)

lemma rebuild_complete:
  "((p, key), ow) \<in> set ws \<Longrightarrow> mget (rebuild_blocks ws) (block_key (owned_block key ow)) \<noteq> None"
proof (induction ws rule: rev_induct)
  case (snoc w ws)
  obtain p' key' ow' where w: "w = ((p', key'), ow')" by (metis surj_pair)
  show ?case using snoc by (auto simp: w rebuild_snoc)
qed simp

section \<open>Dropping overlaps\<close>

definition after_prev :: "(byte list \<times> u16) option \<Rightarrow> byte list \<times> u16 \<Rightarrow> bool" where
  "after_prev prev k = (case prev of Some (p, m) \<Rightarrow> fst k = p \<longrightarrow> m \<le> snd k | None \<Rightarrow> True)"

definition separated :: "((byte list \<times> u16) \<times> NeighborNatEntry) set \<Rightarrow> bool" where
  "separated s \<longleftrightarrow> (\<forall>ip lo lo' b b'. ((ip, lo), b) \<in> s \<longrightarrow> ((ip, lo'), b') \<in> s \<longrightarrow> lo < lo' \<longrightarrow> nb_port_max b \<le> lo')"

lemma retain_cons:
  "retain_blocks prev ((k, b) # bs) =
     (if after_prev prev k then (k, b) # retain_blocks (Some (fst k, nb_port_max b)) bs else retain_blocks prev bs)"
  by (cases k; cases prev) (auto simp: after_prev_def not_le not_less)

declare retain_blocks.simps(2) [simp del]

lemma retain_subset: "set (retain_blocks prev bs) \<subseteq> set bs"
proof (induction bs arbitrary: prev)
  case (Cons x bs)
  then show ?case by (cases x) (auto simp: retain_cons)
qed simp

lemma retain_sorted: "sorted_wrt (<) (map fst bs) \<Longrightarrow> sorted_wrt (<) (map fst (retain_blocks prev bs))"
proof (induction bs arbitrary: prev)
  case (Cons x bs)
  then show ?case using retain_subset [of _ bs] by (cases x) (fastforce simp: retain_cons)
qed simp

text \<open>A block that is kept starts after everything kept before it on its address.\<close>

lemma retain_after:
  assumes "sorted_wrt (<) (map fst bs)" and "case prev of Some (p, _) \<Rightarrow> \<forall>(k, b) \<in> set bs. p \<le> fst k | None \<Rightarrow> True"
    and "(k, b) \<in> set (retain_blocks prev bs)"
  shows "after_prev prev k"
  using assms
proof (induction bs arbitrary: prev)
  case (Cons x bs)
  obtain k0 b0 where x: "x = (k0, b0)" by fastforce
  have later: "k0 < fst y" if "y \<in> set bs" for y using Cons.prems(1) that by (auto simp: x)
  show ?case
  proof (cases "after_prev prev k0")
    case False
    then show ?thesis using Cons.IH [of prev] Cons.prems by (auto simp: x retain_cons split: option.splits)
  next
    case True
    then consider "(k, b) = (k0, b0)" | "(k, b) \<in> set (retain_blocks (Some (fst k0, nb_port_max b0)) bs)"
      using Cons.prems(3) by (auto simp: x retain_cons)
    then show ?thesis
    proof cases
      case 1
      with True show ?thesis by simp
    next
      case 2
      then have "(k, b) \<in> set bs" using retain_subset by blast
      with later have "k0 < k" by fastforce
      then show ?thesis using True Cons.prems(2)
        by (cases k; cases k0) (auto simp: after_prev_def x less_prod_def split: option.splits)
    qed
  qed
qed simp

lemma separated_insert:
  assumes "separated s" and "\<And>lo b. ((fst k, lo), b) \<in> s \<Longrightarrow> nb_port_max c \<le> lo \<and> \<not> lo < snd k"
  shows "separated (insert (k, c) s)"
  unfolding separated_def
proof (intro allI impI)
  fix ip lo lo' b b'
  assume a: "((ip, lo), b) \<in> insert (k, c) s" "((ip, lo'), b') \<in> insert (k, c) s" "lo < lo'"
  then consider "((ip, lo), b) \<in> s" "((ip, lo'), b') \<in> s" | "k = (ip, lo)" "b = c" "((ip, lo'), b') \<in> s"
    | "((ip, lo), b) \<in> s" "k = (ip, lo')" | "k = (ip, lo)" "k = (ip, lo')" by blast
  then show "nb_port_max b \<le> lo'" using assms a(3) unfolding separated_def by cases (blast | fastforce)+
qed

lemma retain_separated:
  assumes "sorted_wrt (<) (map fst bs)"
  shows "separated (set (retain_blocks prev bs))"
  using assms
proof (induction bs arbitrary: prev)
  case (Cons x bs)
  obtain k0 b0 where x: "x = (k0, b0)" by fastforce
  have later: "k0 < k" if "(k, b) \<in> set bs" for k b using Cons.prems that by (force simp: x)
  have ih: "separated (set (retain_blocks p bs))" for p using Cons by (simp add: x)
  show ?case
  proof (cases "after_prev prev k0")
    case True
    let ?rs = "retain_blocks (Some (fst k0, nb_port_max b0)) bs"
    have "nb_port_max b0 \<le> lo" if "((fst k0, lo), b) \<in> set ?rs" for lo b
    proof -
      have "fst k0 \<le> fst k" if "(k, b) \<in> set bs" for k b using later [OF that] by (auto simp: less_prod_def)
      then have "\<forall>(k, b) \<in> set bs. fst k0 \<le> fst k" by blast
      then show ?thesis using retain_after [OF _ _ that] Cons.prems by (simp add: x after_prev_def)
    qed
    moreover have "\<not> lo < snd k0" if "((fst k0, lo), b) \<in> set ?rs" for lo b
    proof -
      have "((fst k0, lo), b) \<in> set bs" using that retain_subset by blast
      then have "k0 < (fst k0, lo)" using later by blast
      then show ?thesis by (cases k0) (auto simp: less_prod_def)
    qed
    ultimately have "separated (insert (k0, b0) (set ?rs))" using ih by (intro separated_insert) blast+
    with True show ?thesis by (simp add: x retain_cons)
  qed (use ih in \<open>simp add: x retain_cons\<close>)
qed (simp add: separated_def)

text \<open>Nothing is dropped from a list without overlaps.\<close>

lemma retain_all:
  assumes "separated (set bs)" and "sorted_wrt (<) (map fst bs)" and "\<forall>(k, b) \<in> set bs. after_prev prev k"
  shows "retain_blocks prev bs = bs"
  using assms
proof (induction bs arbitrary: prev)
  case (Cons x bs)
  obtain k0 b0 where x: "x = (k0, b0)" by fastforce
  have "after_prev (Some (fst k0, nb_port_max b0)) k" if "(k, b) \<in> set bs" for k b
  proof -
    have "k0 < k" using Cons.prems(2) that by (force simp: x)
    then show ?thesis using Cons.prems(1) that unfolding separated_def
      by (cases k; cases k0) (auto simp: after_prev_def x less_prod_def)
  qed
  moreover have "separated (set bs)" using Cons.prems(1) unfolding separated_def by (meson list.set_intros(2))
  ultimately have "retain_blocks (Some (fst k0, nb_port_max b0)) bs = bs"
    using Cons.IH [of "Some (fst k0, nb_port_max b0)"] Cons.prems(2) by (simp add: x) blast
  with Cons.prems(3) show ?case by (simp add: x retain_cons)
qed simp

section \<open>Rewriting and sweeping the trie\<close>

lemma fold_upsert:
  assumes "mwf (nf_owners f)" and "\<forall>(k, ow') \<in> set es. ow' = ow"
  defines "f' \<equiv> fold (\<lambda>(k, ow) f. fst (nat_owner_upsert k ow f)) es f"
  shows "same_lists f f' \<and> mwf (nf_owners f')
    \<and> (\<forall>x. mget (nf_owners f') x = (if x \<in> fst ` set es \<and> nf_upsert_fault f \<noteq> Some x then Some ow else mget (nf_owners f) x))"
  using assms(1,2) unfolding f'_def
proof (induction es arbitrary: f)
  case (Cons e es)
  obtain k ow' where e: "e = (k, ow')" by fastforce
  let ?g = "fst (nat_owner_upsert k ow' f)"
  have ow: "ow' = ow" using Cons.prems(2) e by simp
  have "mwf (nf_owners ?g)" using Cons.prems(1) by (simp add: nat_owner_upsert_def)
  from Cons.IH [OF this] Cons.prems(2) have ih: "same_lists ?g (fold (\<lambda>(k, ow) f. fst (nat_owner_upsert k ow f)) es ?g)"
    "mwf (nf_owners (fold (\<lambda>(k, ow) f. fst (nat_owner_upsert k ow f)) es ?g))"
    "\<forall>x. mget (nf_owners (fold (\<lambda>(k, ow) f. fst (nat_owner_upsert k ow f)) es ?g)) x
      = (if x \<in> fst ` set es \<and> nf_upsert_fault ?g \<noteq> Some x then Some ow else mget (nf_owners ?g) x)"
    by auto
  have fl: "nf_upsert_fault ?g = nf_upsert_fault f" by (simp add: nat_owner_upsert_def)
  have "mget (nf_owners ?g) x = (if x = k \<and> nf_upsert_fault f \<noteq> Some x then Some ow else mget (nf_owners f) x)" for x
    by (auto simp: nat_owner_upsert_def ow)
  then show ?case using ih same_lists_trans [OF upsert_same ih(1)] by (simp add: e fl)
qed (simp add: same_lists_refl)

lemma rewrite_block_ok:
  assumes "mwf (nf_owners f)"
  shows "same_faults f (rewrite_block ab b f) \<and> mwf (nf_owners (rewrite_block ab b f))
    \<and> nf_count (rewrite_block ab b f) = nf_count f + length (owner_prefixes ab b)
    \<and> (\<forall>x. mget (nf_owners (rewrite_block ab b f)) x
         = (if x \<in> fst ` set (owner_prefixes ab b) \<and> nf_upsert_fault f \<noteq> Some x then Some (block_owner b) else mget (nf_owners f) x))"
proof -
  have "\<forall>(k, ow') \<in> set (owner_prefixes ab b). ow' = block_owner b" by (auto dest: owner_prefixes_owner)
  from fold_upsert [OF _ this, of "f\<lparr>nf_count := nf_count f + length (owner_prefixes ab b)\<rparr>"] assms
  show ?thesis by (simp add: rewrite_block_def Let_def same_lists_def same_faults_def)
qed

text \<open>Rewriting a list of blocks that share no prefix.\<close>

lemma rewrite_all_ok:
  assumes "mwf (nf_owners f)" and "\<And>b b' x. b \<in> set bs \<Longrightarrow> b' \<in> set bs \<Longrightarrow> x \<in> fst ` set (owner_prefixes ab b)
      \<Longrightarrow> x \<in> fst ` set (owner_prefixes ab b') \<Longrightarrow> b = b'"
  shows "same_faults f (fold (rewrite_block ab) bs f) \<and> mwf (nf_owners (fold (rewrite_block ab) bs f))
    \<and> nf_count (fold (rewrite_block ab) bs f) = nf_count f + (\<Sum>b \<leftarrow> bs. length (owner_prefixes ab b))
    \<and> (\<forall>x ow. mget (nf_owners (fold (rewrite_block ab) bs f)) x = Some ow
         \<longleftrightarrow> (if nf_upsert_fault f \<noteq> Some x \<and> (\<exists>b \<in> set bs. x \<in> fst ` set (owner_prefixes ab b))
              then \<exists>b \<in> set bs. (x, ow) \<in> set (owner_prefixes ab b) else mget (nf_owners f) x = Some ow))"
  using assms
proof (induction bs arbitrary: f)
  case (Cons b bs)
  let ?g = "rewrite_block ab b f"
  note g = rewrite_block_ok [OF Cons.prems(1), of ab b]
  then have gw: "mwf (nf_owners ?g)" and gf: "nf_upsert_fault ?g = nf_upsert_fault f" by (simp_all add: same_faults_def)
  have ih: "same_faults ?g (fold (rewrite_block ab) bs ?g) \<and> mwf (nf_owners (fold (rewrite_block ab) bs ?g))
    \<and> nf_count (fold (rewrite_block ab) bs ?g) = nf_count ?g + (\<Sum>b \<leftarrow> bs. length (owner_prefixes ab b))
    \<and> (\<forall>x ow. mget (nf_owners (fold (rewrite_block ab) bs ?g)) x = Some ow
         \<longleftrightarrow> (if nf_upsert_fault ?g \<noteq> Some x \<and> (\<exists>b \<in> set bs. x \<in> fst ` set (owner_prefixes ab b))
              then \<exists>b \<in> set bs. (x, ow) \<in> set (owner_prefixes ab b) else mget (nf_owners ?g) x = Some ow))"
    by (rule Cons.IH [OF gw]) (rule Cons.prems(2), simp_all)
  have dis: "b' = b" if "b' \<in> set bs" "x \<in> fst ` set (owner_prefixes ab b')" "x \<in> fst ` set (owner_prefixes ab b)" for b' x
    by (rule Cons.prems(2) [OF _ _ that(2,3)]) (simp_all add: that(1))
  have "mget (nf_owners (fold (rewrite_block ab) (b # bs) f)) x = Some ow
      \<longleftrightarrow> (if nf_upsert_fault f \<noteq> Some x \<and> (\<exists>b \<in> set (b # bs). x \<in> fst ` set (owner_prefixes ab b))
           then \<exists>b \<in> set (b # bs). (x, ow) \<in> set (owner_prefixes ab b) else mget (nf_owners f) x = Some ow)" for x ow
  proof -
    have upd: "mget (nf_owners (fold (rewrite_block ab) (b # bs) f)) x = Some ow
         \<longleftrightarrow> (if nf_upsert_fault f \<noteq> Some x \<and> (\<exists>b \<in> set bs. x \<in> fst ` set (owner_prefixes ab b))
              then \<exists>b \<in> set bs. (x, ow) \<in> set (owner_prefixes ab b) else mget (nf_owners ?g) x = Some ow)"
      using ih gf by simp
    have one: "mget (nf_owners ?g) x = Some ow
         \<longleftrightarrow> (if nf_upsert_fault f \<noteq> Some x \<and> x \<in> fst ` set (owner_prefixes ab b) then (x, ow) \<in> set (owner_prefixes ab b)
              else mget (nf_owners f) x = Some ow)"
      using g by (auto simp: entry_own)
    have both: "(\<exists>b' \<in> set (b # bs). (x, ow) \<in> set (owner_prefixes ab b')) \<longleftrightarrow> (\<exists>b' \<in> set bs. (x, ow) \<in> set (owner_prefixes ab b'))"
      if "\<exists>b' \<in> set bs. x \<in> fst ` set (owner_prefixes ab b')"
      using that dis [of _ x] entry_own [of x ow ab b] by (metis set_ConsD list.set_intros(2))
    have none: "(\<exists>b' \<in> set (b # bs). (x, ow) \<in> set (owner_prefixes ab b')) \<longleftrightarrow> (x, ow) \<in> set (owner_prefixes ab b)"
      if "\<not> (\<exists>b' \<in> set bs. x \<in> fst ` set (owner_prefixes ab b'))"
      using that entry_own [of x ow ab] by (metis set_ConsD list.set_intros(1))
    have ex: "(\<exists>b' \<in> set (b # bs). x \<in> fst ` set (owner_prefixes ab b'))
        \<longleftrightarrow> x \<in> fst ` set (owner_prefixes ab b) \<or> (\<exists>b' \<in> set bs. x \<in> fst ` set (owner_prefixes ab b'))"
      by (metis set_ConsD list.set_intros)
    show ?thesis unfolding upd one ex using both none by presburger
  qed
  moreover have "same_faults f (fold (rewrite_block ab) (b # bs) f)" using g ih same_faults_trans by fastforce
  ultimately show ?case using ih g by simp
qed (simp add: same_faults_refl)

lemma sweep_ok:
  assumes "mwf (nf_owners f)"
  shows "same_lists f (sweep_owners ab ws f) \<and> mwf (nf_owners (sweep_owners ab ws f))
    \<and> (\<forall>x. mget (nf_owners (sweep_owners ab ws f)) x
         = (if x \<in> fst ` set ws \<and> nf_remove_fault f \<noteq> Some x \<and> (\<forall>y \<in> set (nf_blocks f). x \<notin> fst ` set (owner_prefixes ab (snd y)))
            then None else mget (nf_owners f) x))"
proof -
  define owned where "owned = concat (map (\<lambda>(_, b). map fst (owner_prefixes ab b)) (nf_blocks f))"
  have eq: "x \<in> set owned \<longleftrightarrow> \<not> (\<forall>y \<in> set (nf_blocks f). x \<notin> fst ` set (owner_prefixes ab (snd y)))" for x
    by (simp add: owned_def case_prod_beta)
  have "same_lists f f' \<and> mwf (nf_owners f')
      \<and> (\<forall>x. mget (nf_owners f') x = (if x \<in> fst ` set ws \<and> nf_remove_fault f \<noteq> Some x \<and> x \<notin> set owned then None else mget (nf_owners f) x))"
    if "f' = fold (\<lambda>(k, _) f. if k \<in> set owned then f else fst (nat_owner_remove k f)) ws f" for f'
    using assms unfolding that
  proof (induction ws arbitrary: f)
    case (Cons w ws)
    obtain k ow where w: "w = (k, ow)" by fastforce
    let ?g = "if k \<in> set owned then f else fst (nat_owner_remove k f)"
    have "mwf (nf_owners ?g)" using Cons.prems by (simp add: nat_owner_remove_def)
    note ih = Cons.IH [OF this]
    have "same_lists f ?g" by (simp add: same_lists_refl remove_same)
    with ih have "same_lists f (fold (\<lambda>(k, _) f. if k \<in> set owned then f else fst (nat_owner_remove k f)) (w # ws) f)"
      using same_lists_trans [of f ?g] by (simp add: w)
    moreover have "nf_remove_fault ?g = nf_remove_fault f" by (simp add: nat_owner_remove_def)
    moreover have "mget (nf_owners ?g) x = (if x = k \<and> nf_remove_fault f \<noteq> Some x \<and> x \<notin> set owned then None else mget (nf_owners f) x)" for x
      by (auto simp: nat_owner_remove_def)
    ultimately show ?case using ih by (auto simp: w)
  qed (simp add: same_lists_refl)
  from this [OF refl] show ?thesis unfolding sweep_owners_def Let_def owned_def [symmetric] eq not_not .
qed


section \<open>The adopted state\<close>

lemma all_prefixes_list:
  assumes "mwf m"
  shows "all_prefixes ab m = (\<Sum>b \<leftarrow> map snd m. length (owner_prefixes ab b))"
proof -
  have d: "distinct (mkeys m)" using assms by (simp add: mwf_def mkeys_def)
  have "map (\<lambda>k. prefixes_of ab (mget m k)) (mkeys m) = map (\<lambda>b. length (owner_prefixes ab b)) (map snd m)"
    using assms by (auto simp: mkeys_def prefixes_of_def mget_iff [OF assms, symmetric] split: option.splits)
      (metis mget_iff option.distinct(1) option.inject)+
  then show ?thesis using sum_list_distinct_conv_sum_set [OF d] by (metis all_prefixes_def)
qed

definition keys_ok :: "nat \<Rightarrow> (owner_key, NatOwner) gomap \<Rightarrow> bool" where
  "keys_ok ab ws \<longleftrightarrow> (\<forall>x ow. mget ws x = Some ow \<longrightarrow> 8 * length (ok_nat_ip (snd x)) = ab)"

definition adopted :: "NatFam \<Rightarrow> (byte list \<times> u16, NeighborNatEntry) gomap" where
  "adopted f = retain_blocks None (btree (rebuild_blocks (nf_owners f)))"

lemma btree_strict: "mwf m \<Longrightarrow> sorted_wrt (<) (map fst (btree m))"
  unfolding btree_def mwf_def strict_sorted_iff
  by (simp add: distinct_map distinct_sort)

lemma adopted_sorted: "sorted_wrt (<) (map fst (adopted f))"
  unfolding adopted_def by (rule retain_sorted) (simp add: btree_strict)

lemma mwf_adopted: "mwf (adopted f)"
  using adopted_sorted [of f] by (simp add: mwf_def strict_sorted_iff)

lemma adopted_rebuilt: "mget (adopted f) k = Some b \<Longrightarrow> mget (rebuild_blocks (nf_owners f)) k = Some b"
  using retain_subset [of None "btree (rebuild_blocks (nf_owners f))"] mget_iff [OF mwf_adopted, of k b f] mget_iff [OF mwf_rebuild, of k b "nf_owners f"]
  unfolding adopted_def by auto

text \<open>Whatever the trie held, the adopted list has no overlap.\<close>

lemma blocks_ok_adopted:
  assumes "mwf (nf_owners f)" and "keys_ok ab (nf_owners f)"
  shows "blocks_ok ab (adopted f)"
  unfolding blocks_ok_def
proof (intro conjI allI impI)
  fix k b assume "mget (adopted f) k = Some b"
  then obtain p key ow where "((p, key), ow) \<in> set (nf_owners f)" "b = owned_block key ow" "k = block_key b"
    using rebuild_sound adopted_rebuilt by blast
  then show "block_key b = k" "8 * length (nb_nat_ip b) = ab"
    using assms by (auto simp: keys_ok_def mget_iff owned_block_def the_block_def)
next
  fix ip lo lo' b b'
  assume "mget (adopted f) (ip, lo) = Some b" "mget (adopted f) (ip, lo') = Some b'" "lo < lo'"
  moreover have "separated (set (adopted f))"
    unfolding adopted_def by (rule retain_separated) (simp add: btree_strict)
  ultimately show "nb_port_max b \<le> lo'" unfolding separated_def by (blast dest: mget_in)
qed (rule mwf_adopted)

lemma adopt_fam_ok:
  assumes wf: "mwf (nf_owners f)" and keys: "keys_ok ab (nf_owners f)" and cut: "nf_walk_cut f = None"
    and f': "adopt_fam ab f = (err, f')"
  shows "\<not> err \<and> nf_blocks f' = adopted f \<and> mwf (nf_owners f') \<and> same_faults f f' \<and> nf_count f' = all_prefixes ab (adopted f)
    \<and> (\<forall>x ow. mget (nf_owners f') x = Some ow \<longleftrightarrow>
         (if \<exists>k b. mget (adopted f) k = Some b \<and> x \<in> fst ` set (owner_prefixes ab b)
          then if nf_upsert_fault f = Some x then mget (nf_owners f) x = Some ow else entry_of ab (adopted f) x ow
          else nf_remove_fault f = Some x \<and> mget (nf_owners f) x = Some ow))"
proof -
  let ?v = "adopted f" and ?f0 = "f\<lparr>nf_count := 0\<rparr>"
  let ?f1 = "fold (rewrite_block ab) (map snd ?v) ?f0"
  let ?f2 = "?f1\<lparr>nf_blocks := ?v\<rparr>"
  have f'_eq: "f' = sweep_owners ab (nf_owners f) ?f2" "\<not> err"
    using f' cut by (auto simp: adopt_fam_def nat_owner_entries_def Let_def adopted_def)
  note ok = blocks_ok_adopted [OF wf keys]
  have in_v: "b \<in> set (map snd ?v) \<longleftrightarrow> (\<exists>k. mget ?v k = Some b)" for b
    using mget_iff [OF mwf_adopted, of _ _ f] by force
  have dis: "b = b'" if "b \<in> set (map snd ?v)" "b' \<in> set (map snd ?v)" "x \<in> fst ` set (owner_prefixes ab b)"
      "x \<in> fst ` set (owner_prefixes ab b')" for b b' x
    using that(1,2) shared_prefix_same [OF ok _ _ that(3,4)] unfolding in_v by blast
  have listed: "(\<exists>b \<in> set (map snd ?v). P b) \<longleftrightarrow> (\<exists>k b. mget ?v k = Some b \<and> P b)" for P
    unfolding Bex_def in_v by blast
  have f1: "same_faults ?f0 ?f1 \<and> mwf (nf_owners ?f1) \<and> nf_count ?f1 = nf_count ?f0 + (\<Sum>b \<leftarrow> map snd ?v. length (owner_prefixes ab b))
      \<and> (\<forall>x ow. mget (nf_owners ?f1) x = Some ow
         \<longleftrightarrow> (if nf_upsert_fault ?f0 \<noteq> Some x \<and> (\<exists>b \<in> set (map snd ?v). x \<in> fst ` set (owner_prefixes ab b))
              then \<exists>b \<in> set (map snd ?v). (x, ow) \<in> set (owner_prefixes ab b) else mget (nf_owners ?f0) x = Some ow))"
    by (rule rewrite_all_ok) (use wf dis in simp_all)
  then have up: "mget (nf_owners ?f2) x = Some ow \<longleftrightarrow> (if nf_upsert_fault f \<noteq> Some x \<and> (\<exists>k b. mget ?v k = Some b \<and> x \<in> fst ` set (owner_prefixes ab b))
      then entry_of ab ?v x ow else mget (nf_owners f) x = Some ow)" for x ow
    unfolding listed by (simp add: entry_of_def) blast
  have "mwf (nf_owners ?f2)" using f1 by simp
  from sweep_ok [OF this, of ab "nf_owners f"] have sw: "same_lists ?f2 f'" "mwf (nf_owners f')"
    "\<And>x. mget (nf_owners f') x = (if x \<in> fst ` set (nf_owners f) \<and> nf_remove_fault ?f2 \<noteq> Some x \<and> \<not> (\<exists>b \<in> set (map snd ?v). x \<in> fst ` set (owner_prefixes ab b))
       then None else mget (nf_owners ?f2) x)"
    unfolding f'_eq(1) by simp_all
  have walked: "x \<in> fst ` set (nf_owners f) \<longleftrightarrow> mget (nf_owners f) x \<noteq> None" for x
    using mkeys_iff [of x "nf_owners f"] by (simp add: mkeys_def)
  have rf: "nf_remove_fault ?f2 = nf_remove_fault f" using f1 by (simp add: same_faults_def)
  have "mget (nf_owners f') x = Some ow \<longleftrightarrow> (if \<exists>k b. mget ?v k = Some b \<and> x \<in> fst ` set (owner_prefixes ab b)
          then if nf_upsert_fault f = Some x then mget (nf_owners f) x = Some ow else entry_of ab ?v x ow
          else nf_remove_fault f = Some x \<and> mget (nf_owners f) x = Some ow)" for x ow
    unfolding sw(3) listed rf walked using up [of x ow] by (simp split del: if_split split: if_split_asm) auto
  moreover have "nf_count f' = all_prefixes ab ?v" using sw(1) f1 by (simp add: same_lists_def all_prefixes_list [OF mwf_adopted])
  moreover have "nf_blocks f' = ?v" "same_faults f f'" using sw(1) f1 by (simp_all add: same_lists_def same_faults_def)
  ultimately show ?thesis using sw(2) f'_eq(2) by blast
qed


lemma adopt_exact:
  assumes "mwf (nf_owners f)" and "keys_ok ab (nf_owners f)" and "nf_walk_cut f = None" and "no_faults f"
    and "adopt_fam ab f = (err, f')"
  shows "nat_exact ab f'"
proof -
  note ok = adopt_fam_ok [OF assms(1,2,3,5)]
  have "\<exists>k b. mget (adopted f) k = Some b \<and> x \<in> fst ` set (owner_prefixes ab b)" if "entry_of ab (adopted f) x ow" for x ow
    using that unfolding entry_of_def entry_own by blast
  then show ?thesis using ok assms(4) unfolding nat_exact_iff no_faults_def by simp blast
qed

section \<open>A restart of a running dataplane\<close>

lemma belongs_rebuilt:
  assumes "nat_inv ab f" and "mget (nf_owners f) x = Some ow"
  obtains k b0 where "mget (nf_blocks f) k = Some b0" and "belongs ab x ow b0" and "block_key b0 = k"
    and "nb_nat_ip (owned_block (snd x) ow) = nb_nat_ip b0" and "nb_port_min (owned_block (snd x) ow) = nb_port_min b0"
    and "nb_port_max (owned_block (snd x) ow) = nb_port_max b0"
proof -
  obtain k b0 where b0: "mget (nf_blocks f) k = Some b0" "belongs ab x ow b0" using assms unfolding nat_inv_def by blast
  have "block_key b0 = k" using assms(1) b0(1) unfolding nat_inv_def blocks_ok_def by blast
  moreover obtain ow' where "(x, ow') \<in> set (owner_prefixes ab b0)" using b0(2) unfolding belongs_def by force
  then have "ok_nat_ip (snd x) = nb_nat_ip b0" by (auto elim: owner_prefixes_port)
  moreover have "no_port_min ow = nb_port_min b0" "no_port_max ow = nb_port_max b0" using b0(2) by (simp_all add: belongs_def)
  ultimately show thesis using that b0 by (simp add: owned_block_def the_block_def)
qed

lemma inv_keys_ok:
  assumes "nat_inv ab f"
  shows "keys_ok ab (nf_owners f)"
  unfolding keys_ok_def
proof (intro allI impI)
  fix x ow assume "mget (nf_owners f) x = Some ow"
  with assms obtain k b0 where b0: "mget (nf_blocks f) k = Some b0" "nb_nat_ip (owned_block (snd x) ow) = nb_nat_ip b0"
    by (rule belongs_rebuilt)
  then have "8 * length (nb_nat_ip b0) = ab" using assms unfolding nat_inv_def blocks_ok_def by blast
  with b0(2) show "8 * length (ok_nat_ip (snd x)) = ab" by (simp add: owned_block_def the_block_def)
qed

lemma rebuilt_range:
  assumes inv: "nat_inv ab f" and b: "mget (rebuild_blocks (nf_owners f)) k = Some b"
  obtains b0 where "mget (nf_blocks f) k = Some b0" and "block_key b = k"
    and "nb_nat_ip b = nb_nat_ip b0" and "nb_port_min b = nb_port_min b0" and "nb_port_max b = nb_port_max b0"
proof -
  obtain p key ow where w: "((p, key), ow) \<in> set (nf_owners f)" "b = owned_block key ow" "k = block_key b"
    using rebuild_sound [OF b] by blast
  have "mget (nf_owners f) (p, key) = Some ow" using w(1) inv by (simp add: nat_inv_def mget_iff)
  with inv obtain k0 b0 where b0: "mget (nf_blocks f) k0 = Some b0" "block_key b0 = k0"
    "nb_nat_ip b = nb_nat_ip b0" "nb_port_min b = nb_port_min b0" "nb_port_max b = nb_port_max b0"
    by (rule belongs_rebuilt) (simp add: w(2))
  have "block_key b0 = block_key b" using b0(3,4) by (simp add: block_key_def)
  then have "mget (nf_blocks f) k = Some b0" using b0(1,2) w(3) by metis
  then show thesis using that w(3) b0(3-5) by blast
qed

lemma adopted_all:
  assumes inv: "nat_inv ab f"
  shows "mget (adopted f) k = mget (rebuild_blocks (nf_owners f)) k"
proof -
  let ?r = "rebuild_blocks (nf_owners f)"
  have "separated (set (btree ?r))"
    unfolding separated_def btree_set
  proof (intro allI impI)
    fix ip lo lo' b b'
    assume "((ip, lo), b) \<in> set ?r" "((ip, lo'), b') \<in> set ?r" "lo < lo'"
    then have m: "mget ?r (ip, lo) = Some b" "mget ?r (ip, lo') = Some b'" by (simp_all add: mget_iff)
    obtain c where "mget (nf_blocks f) (ip, lo) = Some c" "nb_port_max b = nb_port_max c" using rebuilt_range [OF inv m(1)] by metis
    moreover obtain c' where "mget (nf_blocks f) (ip, lo') = Some c'" using rebuilt_range [OF inv m(2)] by metis
    ultimately show "nb_port_max b \<le> lo'" using inv \<open>lo < lo'\<close> unfolding nat_inv_def blocks_ok_def by metis
  qed
  then have eq: "adopted f = btree ?r"
    unfolding adopted_def by (rule retain_all) (simp_all add: btree_strict after_prev_def)
  have "mget (adopted f) k = Some b \<longleftrightarrow> mget ?r k = Some b" for b
    using mget_iff [OF mwf_adopted, of k b f] mget_iff [OF mwf_rebuild, of k b "nf_owners f"] by (simp add: eq)
  then show ?thesis by (metis not_None_eq)
qed

text \<open>A restart loses the lists and keeps the pinned tries.\<close>

definition forget_lists :: "NatFam \<Rightarrow> NatFam" where
  "forget_lists f = f\<lparr>nf_blocks := [], nf_count := 0\<rparr>"

lemma adopt_forgotten:
  assumes "nat_inv ab f" and "nf_walk_cut f = None" and "adopt_fam ab (forget_lists f) = (err, f')"
  shows "nf_blocks f' = adopted f \<and> mwf (nf_owners f') \<and> same_faults f f' \<and> nf_count f' = all_prefixes ab (adopted f)
    \<and> (\<forall>x ow. mget (nf_owners f') x = Some ow \<longrightarrow> mget (nf_owners f) x = Some ow \<or> entry_of ab (adopted f) x ow)
    \<and> (no_faults f \<longrightarrow> nat_exact ab f')"
proof -
  have g: "nf_owners (forget_lists f) = nf_owners f" "nf_walk_cut (forget_lists f) = None" "no_faults (forget_lists f) = no_faults f"
    "adopted (forget_lists f) = adopted f" "nf_upsert_fault (forget_lists f) = nf_upsert_fault f" "nf_remove_fault (forget_lists f) = nf_remove_fault f"
    using assms(2) by (simp_all add: forget_lists_def no_faults_def adopted_def)
  have wf: "mwf (nf_owners (forget_lists f))" and keys: "keys_ok ab (nf_owners (forget_lists f))"
    using assms(1) inv_keys_ok by (simp_all add: g nat_inv_def)
  have "same_faults f f' = same_faults (forget_lists f) f'" by (simp add: same_faults_def forget_lists_def)
  then show ?thesis using adopt_fam_ok [OF wf keys g(2) assms(3)] adopt_exact [OF wf keys g(2) _ assms(3)]
    unfolding g by presburger
qed

lemma adopt_inv:
  assumes inv: "nat_inv ab f" and cut: "nf_walk_cut f = None" and f': "adopt_fam ab (forget_lists f) = (err, f')"
  shows "nat_inv ab f'"
proof -
  have wf: "mwf (nf_owners f)" using inv by (simp add: nat_inv_def)
  note keys = inv_keys_ok [OF inv]
  note ok = adopt_forgotten [OF inv cut f']
  have range: "\<exists>b0. mget (nf_blocks f) k = Some b0 \<and> nb_nat_ip b = nb_nat_ip b0 \<and> nb_port_min b = nb_port_min b0 \<and> nb_port_max b = nb_port_max b0"
    if "mget (adopted f) k = Some b" for k b
    using rebuilt_range [OF inv] that unfolding adopted_all [OF inv] by metis
  have old: "\<exists>k b. mget (adopted f) k = Some b \<and> belongs ab x ow b" if x: "mget (nf_owners f) x = Some ow" for x ow
  proof -
    let ?b = "owned_block (snd x) ow"
    from inv x obtain k b0 where b0: "mget (nf_blocks f) k = Some b0" "belongs ab x ow b0" "block_key b0 = k"
      "nb_nat_ip ?b = nb_nat_ip b0" "nb_port_min ?b = nb_port_min b0" "nb_port_max ?b = nb_port_max b0"
      by (rule belongs_rebuilt)
    have "((fst x, snd x), ow) \<in> set (nf_owners f)" using x by (simp add: mget_in)
    then obtain b where b: "mget (adopted f) k = Some b" using rebuild_complete b0(3-5) unfolding adopted_all [OF inv] by (fastforce simp: block_key_def)
    from range [OF b] b0(1) have "fst ` set (owner_prefixes ab b) = fst ` set (owner_prefixes ab b0)"
      using owner_prefixes_keys [of b b0 ab] by (metis option.inject set_map)
    then have "belongs ab x ow b" using b0(1,2) range [OF b] by (auto simp: belongs_def)
    with b show ?thesis by blast
  qed
  have owned: "\<exists>k b. mget (adopted f) k = Some b \<and> belongs ab x ow b" if "mget (nf_owners f') x = Some ow" for x ow
  proof -
    have "mget (nf_owners f) x = Some ow \<or> entry_of ab (adopted f) x ow" using ok that by blast
    then show ?thesis using old belongs_own unfolding entry_of_def by blast
  qed
  have "all_prefixes ab (adopted f) \<le> all_prefixes ab (nf_blocks f)"
  proof -
    have same: "prefixes_of ab (mget (adopted f) k) = prefixes_of ab (mget (nf_blocks f) k)" if "k \<in> set (mkeys (adopted f))" for k
    proof -
      obtain b where b: "mget (adopted f) k = Some b" using \<open>k \<in> _\<close> by (auto simp: mkeys_iff)
      from range [OF b] obtain b0 where "mget (nf_blocks f) k = Some b0" "length (owner_prefixes ab b) = length (owner_prefixes ab b0)"
        using owner_prefixes_keys by (metis length_map)
      with b show ?thesis by (simp add: prefixes_of_def)
    qed
    have sub: "set (mkeys (adopted f)) \<subseteq> set (mkeys (nf_blocks f))" using range by (fastforce simp: mkeys_iff)
    have "all_prefixes ab (adopted f) = (\<Sum>k \<in> set (mkeys (adopted f)). prefixes_of ab (mget (nf_blocks f) k))"
      unfolding all_prefixes_def using same by (rule sum.cong [OF refl])
    also have "\<dots> \<le> all_prefixes ab (nf_blocks f)" unfolding all_prefixes_def using sub by (rule sum_mono2 [OF finite_set]) simp
    finally show ?thesis .
  qed
  moreover have "nb_port_min b < nb_port_max b" if "mget (adopted f) k = Some b" for k b
    using range [OF that] inv unfolding nat_inv_def by metis
  ultimately show ?thesis using ok blocks_ok_adopted [OF wf keys] owned inv unfolding nat_inv_def by simp
qed

text \<open>When no write ever failed, the restart brings back the very list that was lost.\<close>

lemma adopt_keeps_list:
  assumes inv: "nat_inv ab f" and ex: "nat_exact ab f"
  shows "mget (adopted f) k = mget (nf_blocks f) k"
proof -
  have sound: "mget (nf_blocks f) k = Some b" if r: "mget (adopted f) k = Some b" for b
  proof -
    obtain p key ow where w: "((p, key), ow) \<in> set (nf_owners f)" "b = owned_block key ow" "k = block_key b"
      using rebuild_sound r unfolding adopted_all [OF inv] by blast
    have "mget (nf_owners f) (p, key) = Some ow" using w(1) inv by (simp add: nat_inv_def mget_iff)
    then obtain k0 b0 where b0: "mget (nf_blocks f) k0 = Some b0" "((p, key), ow) \<in> set (owner_prefixes ab b0)"
      using ex unfolding nat_exact_def by blast
    then have "b = b0" by (auto simp: w(2) owned_block_def the_block_def block_owner_def elim!: owner_prefixes_port)
    moreover have "block_key b0 = k0" using inv b0(1) unfolding nat_inv_def blocks_ok_def by blast
    ultimately show ?thesis using w(3) b0(1) by simp
  qed
  show ?thesis
  proof (cases "mget (nf_blocks f) k")
    case None
    then show ?thesis using sound by (cases "mget (adopted f) k") auto
  next
    case (Some b0)
    then have lt: "nb_port_min b0 < nb_port_max b0" and bk: "block_key b0 = k"
      using inv unfolding nat_inv_def blocks_ok_def by blast+
    have "nb_port_min b0 \<le> nb_port_max b0 - 1" using lt by unat_arith
    then obtain e where "e \<in> set (port_prefixes (nb_port_min b0) (nb_port_max b0 - 1))"
      using port_prefixes_covers [of "nb_port_min b0" "nb_port_max b0 - 1" "nb_port_min b0"] by auto
    then have "owner_prefixes ab b0 \<noteq> []" using lt by (auto simp: owner_prefixes_def not_le)
    then obtain x ow where x: "(x, ow) \<in> set (owner_prefixes ab b0)" by (metis hd_in_set surj_pair)
    then have m: "mget (nf_owners f) x = Some ow" using ex Some unfolding nat_exact_def by blast
    then have "((fst x, snd x), ow) \<in> set (nf_owners f)" by (simp add: mget_in)
    moreover have "block_key (owned_block (snd x) ow) = k"
      using x bk by (auto simp: owned_block_def the_block_def block_owner_def block_key_def elim!: owner_prefixes_port)
    ultimately obtain b where "mget (adopted f) k = Some b" using rebuild_complete unfolding adopted_all [OF inv] by fastforce
    with sound show ?thesis by metis
  qed
qed

end
