(* ===== verification/Natowner_Replace.thy ===== *)
theory Natowner_Replace
  imports Natowner_Adopt
begin

text \<open>
  Replacing the whole set of neighbor-NAT blocks: what the check of the set guarantees, and what
  deleting the stale blocks and storing the new ones leaves.
\<close>

section \<open>The check of a block set\<close>

lemma sorted_wrt_either: "sorted_wrt P xs \<Longrightarrow> x \<in> set xs \<Longrightarrow> y \<in> set xs \<Longrightarrow> x \<noteq> y \<Longrightarrow> P x y \<or> P y x"
  by (induction xs) auto

definition before :: "byte list \<times> u16 \<times> u16 \<Rightarrow> byte list \<times> u16 \<times> u16 \<Rightarrow> bool" where
  "before r r' = (case (r, r') of ((ip, lo, hi), (ip', lo', hi')) \<Rightarrow> ip = ip' \<longrightarrow> hi \<le> lo')"

lemma windows_before:
  assumes "sorted rs" and "\<not> windows_overlap rs"
  shows "sorted_wrt before rs"
  using assms
proof (induction rs rule: windows_overlap.induct)
  case (1 ip lo hi ip' lo' hi' rs)
  have le: "(ip, lo, hi) \<le> (ip', lo', hi')" and ih: "sorted_wrt before ((ip', lo', hi') # rs)"
    using 1 by auto
  have first: "before (ip, lo, hi) (ip', lo', hi')" using "1.prems"(2) by (auto simp: before_def)
  have "before (ip, lo, hi) r" if r: "r \<in> set rs" for r
  proof (cases r)
    case (fields ip2 lo2 hi2)
    have "(ip', lo', hi') \<le> r" using "1.prems"(1) r by auto
    then show ?thesis using le first by (auto simp: before_def fields less_eq_prod_def)
  qed
  with ih first show ?case by simp
qed auto

definition block_range :: "NeighborNatEntry \<Rightarrow> byte list \<times> u16 \<times> u16" where
  "block_range b = (nb_nat_ip b, nb_port_min b, nb_port_max b)"

lemma length_owner_prefixes: "length (owner_prefixes ab b) = prefix_count (nb_port_min b) (nb_port_max b)"
proof -
  have "unat w < 2 ^ 16" for w :: u16 using unsigned_less [of w, where 'a = nat] by simp
  then show ?thesis by (simp add: owner_prefixes_def prefix_count_def port_prefixes_def port_prefix_count_def count_loop_length)
qed

lemma scan_block_items:
  "scan_block_set (block_items v) (rs, n) =
     (if \<forall>b \<in> set v. nb_port_min b < nb_port_max b
      then Some (rs @ map block_range v, n + (\<Sum>b \<leftarrow> v. prefix_count (nb_port_min b) (nb_port_max b))) else None)"
  by (induction v arbitrary: rs n) (auto simp: block_items_def block_range_def not_le)

text \<open>A set of blocks that can be listed together.\<close>

definition block_set_ok :: "nat \<Rightarrow> NeighborNatEntry list \<Rightarrow> bool" where
  "block_set_ok ab v \<longleftrightarrow> distinct v \<and> (\<forall>b \<in> set v. nb_port_min b < nb_port_max b)
     \<and> (\<forall>b \<in> set v. \<forall>b' \<in> set v. b \<noteq> b' \<longrightarrow> nb_nat_ip b = nb_nat_ip b' \<longrightarrow> nb_port_max b \<le> nb_port_min b' \<or> nb_port_max b' \<le> nb_port_min b)
     \<and> (\<Sum>b \<leftarrow> v. length (owner_prefixes ab b)) \<le> NAT_OWNERS_MAX"

lemma check_block_set_ok:
  assumes "check_block_set (block_items v) = None"
  shows "block_set_ok ab v"
proof -
  have lt: "\<forall>b \<in> set v. nb_port_min b < nb_port_max b"
    using assms by (auto simp: check_block_set_def scan_block_items split: if_splits)
  then have "scan_block_set (block_items v) ([], 0) = Some (map block_range v, (\<Sum>b \<leftarrow> v. prefix_count (nb_port_min b) (nb_port_max b)))"
    by (simp add: scan_block_items)
  with assms have sum: "(\<Sum>b \<leftarrow> v. prefix_count (nb_port_min b) (nb_port_max b)) \<le> NAT_OWNERS_MAX"
    and win: "\<not> windows_overlap (sort (map block_range v))"
    by (auto simp: check_block_set_def split: if_splits)
  have bef: "sorted_wrt before (sort (map block_range v))" using win by (simp add: windows_before)
  have irrefl: "\<not> before (block_range b) (block_range b)" if "b \<in> set v" for b
    using lt that by (auto simp: before_def block_range_def not_le)
  have dis: "distinct (sort (map block_range v))"
  proof (rule ccontr)
    assume "\<not> ?thesis"
    then obtain xs ys zs r where "sort (map block_range v) = xs @ [r] @ ys @ [r] @ zs" by (metis not_distinct_decomp)
    with bef have "before r r" "r \<in> set (sort (map block_range v))" by (simp_all add: sorted_wrt_append)
    then show False using irrefl by auto
  qed
  have "nb_port_max b \<le> nb_port_min b' \<or> nb_port_max b' \<le> nb_port_min b"
    if "b \<in> set v" "b' \<in> set v" "b \<noteq> b'" "nb_nat_ip b = nb_nat_ip b'" for b b'
  proof -
    have "block_range b \<noteq> block_range b'" using dis that by (auto simp: distinct_map dest: inj_onD)
    moreover have "block_range b \<in> set (sort (map block_range v))" "block_range b' \<in> set (sort (map block_range v))" using that by auto
    ultimately have "before (block_range b) (block_range b') \<or> before (block_range b') (block_range b)"
      using sorted_wrt_either [OF bef] by blast
    then show ?thesis using that(4) by (auto simp: before_def block_range_def)
  qed
  then show ?thesis using lt sum dis by (auto simp: block_set_ok_def length_owner_prefixes distinct_map)
qed

section \<open>Deleting the stale blocks\<close>

lemma block_key_of_listed: "nat_inv ab f \<Longrightarrow> mget (nf_blocks f) k = Some b \<Longrightarrow> block_key b = k"
  unfolding nat_inv_def blocks_ok_def by blast

lemma del_stale_ok:
  assumes "nat_inv ab f" and "\<forall>b \<in> set bs. mget (nf_blocks f) (block_key b) = Some b" and "distinct (map block_key bs)"
    and "del_stale ab bs f n = (r, f', n')"
  shows "nat_inv ab f' \<and> same_faults f f' \<and> (no_faults f \<longrightarrow> r = None \<and> (nat_exact ab f \<longrightarrow> nat_exact ab f'))
    \<and> (r = None \<longrightarrow> (\<forall>k. mget (nf_blocks f') k = (if k \<in> block_key ` set bs then None else mget (nf_blocks f) k)))"
  using assms
proof (induction bs arbitrary: f n)
  case Nil
  then show ?case by (simp add: same_faults_refl)
next
  case (Cons b bs)
  obtain r1 g where g: "del_block ab (nb_vni b) (nb_nat_ip b) (nb_port_min b) (nb_port_max b) f = (r1, g)" by fastforce
  have "mget (nf_blocks f) (nb_nat_ip b, nb_port_min b) = Some b" using Cons.prems(2) by (simp add: block_key_def)
  with del_block_inv [OF Cons.prems(1) g] have gi: "nat_inv ab g" "same_faults f g" "no_faults f \<longrightarrow> nat_exact ab f \<longrightarrow> nat_exact ab g"
    and out: "r1 = Inr True \<and> nf_blocks g = mdel (block_key b) (nf_blocks f) \<or> r1 = Inl NatMap \<and> \<not> no_faults f"
    unfolding block_key_def by blast+
  show ?case
  proof (cases "r1 = Inr True")
    case True
    then have gb: "nf_blocks g = mdel (block_key b) (nf_blocks f)" using out by simp
    have "nat_inv ab f' \<and> same_faults g f' \<and> (no_faults g \<longrightarrow> r = None \<and> (nat_exact ab g \<longrightarrow> nat_exact ab f'))
      \<and> (r = None \<longrightarrow> (\<forall>k. mget (nf_blocks f') k = (if k \<in> block_key ` set bs then None else mget (nf_blocks g) k)))"
    proof (rule Cons.IH [OF gi(1)])
      have "block_key c \<noteq> block_key b" if "c \<in> set bs" for c using Cons.prems(3) that by (metis distinct.simps(2) image_eqI list.map(2) set_map)
      then show "\<forall>b \<in> set bs. mget (nf_blocks g) (block_key b) = Some b" using Cons.prems(2) by (simp add: gb)
      show "del_stale ab bs g (n\<lparr>rc_removed := rc_removed n + 1\<rparr>) = (r, f', n')" using Cons.prems(4) True g by simp
    qed (use Cons.prems(3) in simp)
    then show ?thesis using gi no_faults_same [OF gi(2)] same_faults_trans [OF gi(2), of f'] by (simp add: gb)
  next
    case False
    with out have "r1 = Inl NatMap" "\<not> no_faults f" by auto
    with Cons.prems(4) g gi show ?thesis by auto
  qed
qed

section \<open>Storing the new blocks\<close>

lemma store_block_succeeds:
  assumes "mwf (nf_owners f)" and "no_faults f" and "nf_count f + length (owner_prefixes ab b) \<le> NAT_OWNERS_MAX"
  shows "fst (store_block ab b f) = None"
proof -
  obtain g w where w: "write_prefixes [] (owner_prefixes ab b) f = (g, w)" by fastforce
  with assms(1) obtain es1 where "w = None \<and> es1 = owner_prefixes ab b \<or> w = Some es1 \<and> nf_upsert_fault f \<noteq> None"
    by (rule write_block_ok)
  then have "w = None" using assms(2) by (auto simp: no_faults_def)
  with w assms(3) show ?thesis by (simp add: store_block_def Let_def)
qed

text \<open>Listed blocks that are all of a set need no more prefixes than the set.\<close>

lemma all_prefixes_le:
  assumes ok: "blocks_ok ab m" and sub: "\<And>k b. mget m k = Some b \<Longrightarrow> b \<in> set v"
  shows "all_prefixes ab m \<le> (\<Sum>b \<in> set v. length (owner_prefixes ab b))"
proof -
  let ?g = "\<lambda>k. the (mget m k)"
  have key: "block_key (?g k) = k" if "k \<in> set (mkeys m)" for k
    using ok that unfolding blocks_ok_def by (auto simp: mkeys_iff)
  have "inj_on ?g (set (mkeys m))" by (rule inj_on_inverseI [of _ block_key]) (rule key)
  then have "(\<Sum>b \<in> ?g ` set (mkeys m). length (owner_prefixes ab b)) = (\<Sum>k \<in> set (mkeys m). length (owner_prefixes ab (?g k)))"
    by (simp add: sum.reindex)
  also have "\<dots> = all_prefixes ab m"
    unfolding all_prefixes_def by (rule sum.cong) (auto simp: mkeys_iff prefixes_of_def)
  finally have "all_prefixes ab m = (\<Sum>b \<in> ?g ` set (mkeys m). length (owner_prefixes ab b))" by simp
  moreover have "?g ` set (mkeys m) \<subseteq> set v" using sub by (auto simp: mkeys_iff)
  ultimately show ?thesis by (simp add: sum_mono2)
qed

text \<open>A block of the set that is not listed overlaps nothing listed and fits the trie.\<close>

lemma set_block_free:
  assumes inv: "nat_inv ab f" and v: "block_set_ok ab v" and sub: "\<forall>k b. mget (nf_blocks f) k = Some b \<longrightarrow> b \<in> set v"
    and b: "b \<in> set v" and none: "mget (nf_blocks f) (block_key b) \<noteq> Some b"
  shows "free_range (nb_nat_ip b) (nb_port_min b) (nb_port_max b) (nf_blocks f)"
  unfolding free_range_def
proof (intro allI impI)
  fix s b' assume m: "mget (nf_blocks f) (nb_nat_ip b, s) = Some b'"
  then have k: "block_key b' = (nb_nat_ip b, s)" by (rule block_key_of_listed [OF inv])
  then have kk: "nb_nat_ip b' = nb_nat_ip b" "nb_port_min b' = s" by (simp_all add: block_key_def)
  have b'v: "b' \<in> set v" using sub m by blast
  moreover have "b' \<noteq> b" using none m k by auto
  ultimately have "nb_port_max b' \<le> nb_port_min b \<or> nb_port_max b \<le> nb_port_min b'"
    using v b kk(1) unfolding block_set_ok_def by blast
  moreover have "s < nb_port_max b'" using v b'v kk(2) unfolding block_set_ok_def by blast
  ultimately show "s < nb_port_min b \<and> nb_port_max b' \<le> nb_port_min b \<or> nb_port_max b \<le> s"
    using kk(2) by auto
qed

lemma set_block_fits:
  assumes inv: "nat_inv ab f" and v: "block_set_ok ab v" and sub: "\<forall>k b. mget (nf_blocks f) k = Some b \<longrightarrow> b \<in> set v"
    and b: "b \<in> set v" and put: "blocks_ok ab (mput (block_key b) b (nf_blocks f))" "mget (nf_blocks f) (block_key b) = None"
  shows "nf_count f + length (owner_prefixes ab b) \<le> NAT_OWNERS_MAX"
proof -
  have "all_prefixes ab (mput (block_key b) b (nf_blocks f)) \<le> (\<Sum>b \<in> set v. length (owner_prefixes ab b))"
    by (rule all_prefixes_le [OF put(1)]) (use sub b in \<open>auto split: if_splits\<close>)
  also have "\<dots> \<le> NAT_OWNERS_MAX" using v sum_list_distinct_conv_sum_set [of v] unfolding block_set_ok_def by metis
  finally show ?thesis using all_prefixes_put [OF put(2)] inv by (simp add: nat_inv_def)
qed

definition new_ok :: "nat \<Rightarrow> NeighborNatEntry list \<Rightarrow> NatFam \<Rightarrow> NeighborNatError option \<Rightarrow> NatFam \<Rightarrow> bool" where
  "new_ok ab bs f r f' \<longleftrightarrow> nat_inv ab f' \<and> same_faults f f' \<and> (no_faults f \<longrightarrow> r = None \<and> (nat_exact ab f \<longrightarrow> nat_exact ab f'))
     \<and> (r = None \<longrightarrow> (\<forall>k b. mget (nf_blocks f') k = Some b \<longleftrightarrow> mget (nf_blocks f) k = Some b \<or> b \<in> set bs \<and> block_key b = k))"

lemma store_new_ok:
  assumes inv: "nat_inv ab f" and v: "block_set_ok ab v" and sub: "\<forall>k b. mget (nf_blocks f) k = Some b \<longrightarrow> b \<in> set v"
    and b: "b \<in> set v" and len: "8 * length (nb_nat_ip b) = ab" and none: "mget (nf_blocks f) (block_key b) \<noteq> Some b"
    and g: "store_block ab b f = (r, g)"
  shows "new_ok ab [b] f r g"
proof -
  have lt: "nb_port_min b < nb_port_max b" using v b by (simp add: block_set_ok_def)
  note free = set_block_free [OF inv v sub b none]
  have ok: "blocks_ok ab (nf_blocks f)" using inv by (simp add: nat_inv_def)
  note put = blocks_ok_put [OF ok len free lt]
  have "r = None" if "no_faults f"
    using store_block_succeeds [OF _ that] set_block_fits [OF inv v sub b] put inv g unfolding nat_inv_def by (metis fst_conv)
  then show ?thesis using store_block_inv [OF inv len lt free g] put by (auto simp: new_ok_def)
qed

lemma new_ok_trans:
  assumes "new_ok ab [b] f None g" and "new_ok ab bs g r f'"
  shows "new_ok ab (b # bs) f r f'"
  using assms no_faults_same [of f g] same_faults_trans [of f g f'] unfolding new_ok_def by auto

lemma add_new_ok:
  assumes "nat_inv ab f" and v: "block_set_ok ab v" and len: "\<forall>b \<in> set v. 8 * length (nb_nat_ip b) = ab"
    and "\<forall>k b. mget (nf_blocks f) k = Some b \<longrightarrow> b \<in> set v" and "set bs \<subseteq> set v" and "distinct bs"
    and "\<forall>b \<in> set bs. id_of b \<in> set hs \<longleftrightarrow> mget (nf_blocks f) (block_key b) = Some b"
    and "add_new ab hs bs f n = (r, f', n')"
  shows "new_ok ab bs f r f'"
  using assms(1,4-)
proof (induction bs arbitrary: f n)
  case Nil
  then show ?case by (simp add: new_ok_def same_faults_refl)
next
  case (Cons b bs)
  have bv: "b \<in> set v" using Cons.prems by simp
  show ?case
  proof (cases "id_of b \<in> set hs")
    case True
    have "new_ok ab bs f r f'" by (rule Cons.IH) (use Cons.prems True in auto)
    moreover have "mget (nf_blocks f) (block_key b) = Some b" using Cons.prems(5) True by simp
    ultimately show ?thesis unfolding new_ok_def by auto
  next
    case False
    obtain r1 g where g: "store_block ab b f = (r1, g)" by fastforce
    have one: "new_ok ab [b] f r1 g"
      by (rule store_new_ok [OF Cons.prems(1) v Cons.prems(2) bv _ _ g]) (use len bv Cons.prems(5) False in simp_all)
    show ?thesis
    proof (cases r1)
      case None
      then have gb: "mget (nf_blocks g) k = Some c \<longleftrightarrow> mget (nf_blocks f) k = Some c \<or> c = b \<and> block_key b = k" for k c
        using one unfolding new_ok_def by auto
      have "new_ok ab bs g r f'"
      proof (rule Cons.IH)
        show "\<forall>b \<in> set bs. id_of b \<in> set hs \<longleftrightarrow> mget (nf_blocks g) (block_key b) = Some b"
          using Cons.prems(4,5) gb by auto
        show "add_new ab hs bs g (n\<lparr>rc_added := rc_added n + 1\<rparr>) = (r, f', n')" using Cons.prems(6) False g None by simp
        show "\<forall>k c. mget (nf_blocks g) k = Some c \<longrightarrow> c \<in> set v" using gb Cons.prems(2) bv by blast
      qed (use Cons.prems one in \<open>auto simp: new_ok_def\<close>)
      then show ?thesis using new_ok_trans one None by blast
    next
      case (Some e)
      then have "f' = g" "r = Some e" using Cons.prems(6) False g by auto
      then show ?thesis using one Some by (simp add: new_ok_def)
    qed
  qed
qed

end
