(* ===== verification/Natowner_Manage.thy ===== *)
theory Natowner_Manage
  imports Natowner_Replace
begin

text \<open>
  What the datapath's lookup of a port's owner answers when the trie holds exactly the prefixes of
  the listed blocks, and what the two halves of a replace do to one family.
\<close>

section \<open>The lookup\<close>

lemma owner_match_iff:
  assumes "8 * length ip = ab" and "8 * length ip' = ab" and "bits \<le> 16"
  shows "prefix_match (owner_key_bytes \<lparr>ok_nat_ip = ip', ok_port = to_be_bytes port'\<rparr>) (owner_key_bytes \<lparr>ok_nat_ip = ip, ok_port = to_be_bytes port\<rparr>) (ab + bits)
    \<longleftrightarrow> ip' = ip \<and> port_under (port', bits) port"
proof -
  have len: "length ip' = length ip" using assms by simp
  have two: "length (to_be_bytes w) = 2" for w by (simp add: to_be_bytes_def)
  have "prefix_match (ip' @ to_be_bytes port') (ip @ to_be_bytes port) (ab + bits)
      \<longleftrightarrow> take (ab + bits) (bits_of (ip' @ to_be_bytes port')) = take (ab + bits) (bits_of (ip @ to_be_bytes port))"
    by (rule prefix_match_bits) (use assms in \<open>simp_all add: two\<close>)
  also have "\<dots> \<longleftrightarrow> bits_of ip' @ take bits (bits_of (to_be_bytes port')) = bits_of ip @ take bits (bits_of (to_be_bytes port))"
    using assms(1,2) by simp
  also have "\<dots> \<longleftrightarrow> ip' = ip \<and> take bits (bits_of (to_be_bytes port')) = take bits (bits_of (to_be_bytes port))"
    using len by (simp add: append_eq_append_conv bits_of_inj)
  finally show ?thesis using port_under_bits [OF assms(3)] by (simp add: owner_key_bytes_def)
qed

text \<open>The listed block a port of an address is in.\<close>

definition holds_port :: "byte list \<Rightarrow> u16 \<Rightarrow> NeighborNatEntry \<Rightarrow> bool" where
  "holds_port ip port b \<longleftrightarrow> nb_nat_ip b = ip \<and> nb_port_min b \<le> port \<and> port < nb_port_max b"

lemma holds_port_unique:
  assumes ok: "blocks_ok ab m" and b: "mget m k = Some b" "holds_port ip port b" and b': "mget m k' = Some b'" "holds_port ip port b'"
  shows "b = b'"
proof -
  have "block_key b = k" "block_key b' = k'" using ok b(1) b'(1) unfolding blocks_ok_def by blast+
  then have k: "k = (ip, nb_port_min b)" "k' = (ip, nb_port_min b')" using b(2) b'(2) by (auto simp: block_key_def holds_port_def)
  have sep: "\<And>lo lo' c c'. mget m (ip, lo) = Some c \<Longrightarrow> mget m (ip, lo') = Some c' \<Longrightarrow> lo < lo' \<Longrightarrow> nb_port_max c \<le> lo'"
    using ok unfolding blocks_ok_def by blast
  have "\<not> nb_port_min b < nb_port_min b'" using sep [OF b(1) [unfolded k] b'(1) [unfolded k]] b(2) b'(2) by (force simp: holds_port_def)
  moreover have "\<not> nb_port_min b' < nb_port_min b" using sep [OF b'(1) [unfolded k] b(1) [unfolded k]] b(2) b'(2) by (force simp: holds_port_def)
  ultimately have "k = k'" using k by simp
  with b(1) b'(1) show ?thesis by simp
qed

lemma ex_map_pair: "(\<exists>x w. (x, w) \<in> set (map g xs) \<and> Q x) \<longleftrightarrow> (\<exists>e \<in> set xs. Q (fst (g e)))"
proof
  assume "\<exists>x w. (x, w) \<in> set (map g xs) \<and> Q x"
  then obtain x w e where "e \<in> set xs" "(x, w) = g e" "Q x" by (auto simp del: split_paired_Ex)
  then show "\<exists>e \<in> set xs. Q (fst (g e))" by (metis fst_conv)
next
  assume "\<exists>e \<in> set xs. Q (fst (g e))"
  then obtain e where "e \<in> set xs" "Q (fst (g e))" by blast
  then have "(fst (g e), snd (g e)) \<in> set (map g xs) \<and> Q (fst (g e))" by simp
  then show "\<exists>x w. (x, w) \<in> set (map g xs) \<and> Q x" by blast
qed

lemma prefix_holds_port:
  assumes len: "8 * length ip = ab" "8 * length (nb_nat_ip b) = ab"
  shows "(\<exists>x ow. (x, ow) \<in> set (owner_prefixes ab b) \<and> prefix_match (owner_key_bytes (snd x)) (owner_key_bytes \<lparr>ok_nat_ip = ip, ok_port = to_be_bytes port\<rparr>) (fst x))
    \<longleftrightarrow> holds_port ip port b"
proof (cases "nb_port_min b < nb_port_max b")
  case False
  then show ?thesis by (auto simp: owner_prefixes_def holds_port_def not_less)
next
  case True
  let ?pp = "port_prefixes (nb_port_min b) (nb_port_max b - 1)"
  have "\<not> nb_port_max b \<le> nb_port_min b" using True by (simp add: not_le)
  then have pf: "owner_prefixes ab b = map (\<lambda>(port, bits). ((ab + bits, \<lparr>ok_nat_ip = nb_nat_ip b, ok_port = to_be_bytes port\<rparr>), block_owner b)) ?pp"
    by (simp add: owner_prefixes_def)
  have m: "prefix_match (owner_key_bytes \<lparr>ok_nat_ip = nb_nat_ip b, ok_port = to_be_bytes p\<rparr>) (owner_key_bytes \<lparr>ok_nat_ip = ip, ok_port = to_be_bytes port\<rparr>) (ab + n)
      \<longleftrightarrow> nb_nat_ip b = ip \<and> port_under (p, n) port" if "(p, n) \<in> set ?pp" for p n
    using owner_match_iff [OF len(1) len(2)] port_prefixes_bits that by blast
  have "(\<exists>x ow. (x, ow) \<in> set (owner_prefixes ab b) \<and> prefix_match (owner_key_bytes (snd x)) (owner_key_bytes \<lparr>ok_nat_ip = ip, ok_port = to_be_bytes port\<rparr>) (fst x))
      \<longleftrightarrow> (\<exists>(p, n) \<in> set ?pp. prefix_match (owner_key_bytes \<lparr>ok_nat_ip = nb_nat_ip b, ok_port = to_be_bytes p\<rparr>) (owner_key_bytes \<lparr>ok_nat_ip = ip, ok_port = to_be_bytes port\<rparr>) (ab + n))"
    unfolding pf ex_map_pair by (simp add: case_prod_beta)
  also have "\<dots> \<longleftrightarrow> nb_nat_ip b = ip \<and> (\<exists>e \<in> set ?pp. port_under e port)" using m by (metis (mono_tags, lifting) case_prodE case_prodI2 prod.collapse split_conv)
  also have "\<dots> \<longleftrightarrow> nb_nat_ip b = ip \<and> nb_port_min b \<le> port \<and> port \<le> nb_port_max b - 1" by (simp add: port_prefixes_covers)
  also have "port \<le> nb_port_max b - 1 \<longleftrightarrow> port < nb_port_max b" using True by unat_arith
  finally show ?thesis by (simp add: holds_port_def)
qed

lemma nat_owner_exact:
  assumes ok: "blocks_ok ab (nf_blocks f)" and wf: "mwf (nf_owners f)" and ex: "nat_exact ab f" and len: "8 * length ip = ab"
  shows "nat_owner (nf_owners f) ip port = Some ow \<longleftrightarrow> (\<exists>k b. mget (nf_blocks f) k = Some b \<and> holds_port ip port b \<and> ow = block_owner b)"
proof -
  let ?key = "owner_key_bytes \<lparr>ok_nat_ip = ip, ok_port = to_be_bytes port\<rparr>"
  let ?ms = "filter (\<lambda>((plen, k), _). prefix_match (owner_key_bytes k) ?key plen) (nf_owners f)"
  have lenb: "8 * length (nb_nat_ip b) = ab" if "mget (nf_blocks f) k = Some b" for k b using ok that unfolding blocks_ok_def by blast
  have mem: "(x, w) \<in> set ?ms \<longleftrightarrow> (\<exists>k b. mget (nf_blocks f) k = Some b \<and> (x, w) \<in> set (owner_prefixes ab b) \<and> prefix_match (owner_key_bytes (snd x)) ?key (fst x))" for x w
    using ex mget_iff [OF wf] unfolding nat_exact_def by (cases x) auto
  have own: "\<exists>k b. mget (nf_blocks f) k = Some b \<and> holds_port ip port b \<and> w = block_owner b" if "(x, w) \<in> set ?ms" for x w
    using that prefix_holds_port [OF len lenb] owner_prefixes_owner unfolding mem by blast
  show ?thesis
  proof
    assume "nat_owner (nf_owners f) ip port = Some ow"
    then obtain x where "max_by_key (\<lambda>((plen, _), _). plen) ?ms = Some (x, ow)" by (auto simp: nat_owner_def Let_def)
    then have "(x, ow) \<in> set ?ms" by (rule max_by_key_Some [THEN conjunct1])
    then show "\<exists>k b. mget (nf_blocks f) k = Some b \<and> holds_port ip port b \<and> ow = block_owner b" by (rule own)
  next
    assume "\<exists>k b. mget (nf_blocks f) k = Some b \<and> holds_port ip port b \<and> ow = block_owner b"
    then obtain k b where b: "mget (nf_blocks f) k = Some b" "holds_port ip port b" "ow = block_owner b" by blast
    then have "?ms \<noteq> []" using prefix_holds_port [OF len lenb [OF b(1)], of port] mem by (metis empty_iff empty_set)
    then obtain y w where y: "max_by_key (\<lambda>((plen, _), _). plen) ?ms = Some (y, w)"
      using max_by_key_None [of "\<lambda>((plen, _), _). plen" ?ms] by (metis option.exhaust surj_pair)
    then have "(y, w) \<in> set ?ms" by (rule max_by_key_Some [THEN conjunct1])
    from own [OF this] obtain k' b' where "mget (nf_blocks f) k' = Some b'" "holds_port ip port b'" "w = block_owner b'" by blast
    then have "w = ow" using holds_port_unique [OF ok _ _ b(1,2)] b(3) by blast
    with y show "nat_owner (nf_owners f) ip port = Some ow" by (simp add: nat_owner_def Let_def)
  qed
qed

section \<open>Replacing both families\<close>

lemma id_of_inj: "id_of b = id_of b' \<Longrightarrow> b = b'"
  by (simp add: id_of_def)

lemma stale_blocks_ok:
  assumes inv: "nat_inv ab f"
  shows "\<forall>b \<in> set (stale_blocks v f). mget (nf_blocks f) (block_key b) = Some b" and "distinct (map block_key (stale_blocks v f))"
proof -
  have wf: "mwf (nf_blocks f)" using inv by (simp add: nat_inv_def blocks_ok_def)
  have key: "block_key (snd y) = fst y" if "y \<in> set (nf_blocks f)" for y
    using block_key_of_listed [OF inv, of "fst y" "snd y"] that mget_iff [OF wf, of "fst y" "snd y"] by simp
  then show "\<forall>b \<in> set (stale_blocks v f). mget (nf_blocks f) (block_key b) = Some b"
    using mget_iff [OF wf] by (fastforce simp: stale_blocks_def)
  have "map block_key (map snd (btree (nf_blocks f))) = map fst (btree (nf_blocks f))" using key by simp
  then have "distinct (map block_key (map snd (btree (nf_blocks f))))" using btree_strict [OF wf] by (metis strict_sorted_iff)
  then show "distinct (map block_key (stale_blocks v f))" unfolding stale_blocks_def by (rule distinct_map_filter)
qed

text \<open>One family: first the stale blocks go, then the new ones come.\<close>

definition fam_rel :: "nat \<Rightarrow> NatFam \<Rightarrow> NatFam \<Rightarrow> bool" where
  "fam_rel ab f f' \<longleftrightarrow> nat_inv ab f' \<and> same_faults f f' \<and> (no_faults f \<longrightarrow> nat_exact ab f \<longrightarrow> nat_exact ab f')"

lemma fam_rel_trans: "fam_rel ab f g \<Longrightarrow> fam_rel ab g h \<Longrightarrow> fam_rel ab f h"
  using no_faults_same [of f g] same_faults_trans [of f g h] by (simp add: fam_rel_def)

lemma fam_rel_refl: "nat_inv ab f \<Longrightarrow> fam_rel ab f f"
  by (simp add: fam_rel_def same_faults_refl)

lemma del_stale_fam:
  assumes "nat_inv ab f" and "del_stale ab (stale_blocks v f) f n = (r, f', n')"
  shows "fam_rel ab f f' \<and> (no_faults f \<longrightarrow> r = None) \<and> (r = None \<longrightarrow> (\<forall>k b. mget (nf_blocks f') k = Some b \<longleftrightarrow> mget (nf_blocks f) k = Some b \<and> b \<in> set v))"
proof -
  note ok = del_stale_ok [OF assms(1) stale_blocks_ok [OF assms(1)] assms(2)]
  have wf: "mwf (nf_blocks f)" using assms(1) by (simp add: nat_inv_def blocks_ok_def)
  have idv: "id_of b \<in> set (map id_of v) \<longleftrightarrow> b \<in> set v" for b using id_of_inj by force
  have stale: "k \<in> block_key ` set (stale_blocks v f) \<longleftrightarrow> b \<notin> set v" if "mget (nf_blocks f) k = Some b" for k b
  proof
    assume "k \<in> block_key ` set (stale_blocks v f)"
    then obtain b' where b': "b' \<in> set (stale_blocks v f)" "k = block_key b'" by blast
    then have "b' = b" using stale_blocks_ok(1) [OF assms(1)] that by fastforce
    with b'(1) show "b \<notin> set v" using idv by (simp add: stale_blocks_def)
  next
    assume "b \<notin> set v"
    then have "b \<in> set (stale_blocks v f)" using idv [of b] mget_in [OF that] by (force simp: stale_blocks_def)
    then show "k \<in> block_key ` set (stale_blocks v f)" using block_key_of_listed [OF assms(1) that] by blast
  qed
  have "mget (nf_blocks f') k = Some b \<longleftrightarrow> mget (nf_blocks f) k = Some b \<and> b \<in> set v" if "r = None" for k b
    using ok that stale [of k b] by auto
  then show ?thesis using ok by (simp add: fam_rel_def)
qed

lemma add_new_fam:
  assumes inv: "nat_inv ab f" and v: "block_set_ok ab v" and len: "\<forall>b \<in> set v. 8 * length (nb_nat_ip b) = ab"
    and sub: "\<forall>k b. mget (nf_blocks f) k = Some b \<longrightarrow> b \<in> set v" and add: "add_new ab (listed_ids f) v f n = (r, f', n')"
  shows "fam_rel ab f f' \<and> (no_faults f \<longrightarrow> r = None) \<and> (r = None \<longrightarrow> (\<forall>k b. mget (nf_blocks f') k = Some b \<longleftrightarrow> b \<in> set v \<and> block_key b = k))"
proof -
  have wf: "mwf (nf_blocks f)" using inv by (simp add: nat_inv_def blocks_ok_def)
  have ids: "id_of b \<in> set (listed_ids f) \<longleftrightarrow> mget (nf_blocks f) (block_key b) = Some b" for b
  proof
    assume "id_of b \<in> set (listed_ids f)"
    then obtain k where "(k, b) \<in> set (nf_blocks f)" using id_of_inj by (fastforce simp: listed_ids_def)
    then show "mget (nf_blocks f) (block_key b) = Some b" using mget_iff [OF wf] block_key_of_listed [OF inv] by metis
  next
    assume "mget (nf_blocks f) (block_key b) = Some b"
    then show "id_of b \<in> set (listed_ids f)" by (force simp: listed_ids_def dest: mget_in)
  qed
  have "distinct v" using v by (simp add: block_set_ok_def)
  from add_new_ok [OF inv v len sub subset_refl this _ add] ids have "new_ok ab v f r f'" by simp
  then show ?thesis using sub block_key_of_listed [OF inv] unfolding new_ok_def fam_rel_def by blast
qed

end
