(* ===== verification/Natowner_Run.thy ===== *)
theory Natowner_Run
  imports Natowner_Manage
begin

text \<open>
  The neighbor-NAT properties: over every run of the operations, for both families at once.
\<close>

section \<open>Runs\<close>

datatype NatOp =
    NAdd u32 "byte list" u16 u16 "byte list"
  | NUpsert u32 "byte list" u16 u16 "byte list"
  | NDel u32 "byte list" u16 u16
  | NAdd6 u32 "byte list" u16 u16 "byte list"
  | NUpsert6 u32 "byte list" u16 u16 "byte list"
  | NDel6 u32 "byte list" u16 u16
  | NReplace "NeighborNatEntry list" "NeighborNatEntry list"
  | NRestart
  | NFault "owner_key option" "owner_key option"
  | NFault6 "owner_key option" "owner_key option"

definition empty_fam :: NatFam where
  "empty_fam = \<lparr>nf_owners = [], nf_upsert_fault = None, nf_remove_fault = None, nf_walk_cut = None, nf_blocks = [], nf_count = 0\<rparr>"

definition nat_new :: NatCore where
  "nat_new = \<lparr>nc_v4 = empty_fam, nc_v6 = empty_fam\<rparr>"

definition set_faults :: "owner_key option \<Rightarrow> owner_key option \<Rightarrow> NatFam \<Rightarrow> NatFam" where
  "set_faults up rm f = f\<lparr>nf_upsert_fault := up, nf_remove_fault := rm\<rparr>"

fun nat_exec :: "NatOp \<Rightarrow> NatCore \<Rightarrow> NatCore" where
  "nat_exec (NAdd vni ip lo hi ul) c = snd (add_neighbor_nat vni ip lo hi ul c)"
| "nat_exec (NUpsert vni ip lo hi ul) c = snd (upsert_neighbor_nat vni ip lo hi ul c)"
| "nat_exec (NDel vni ip lo hi) c = snd (del_neighbor_nat vni ip lo hi c)"
| "nat_exec (NAdd6 vni ip lo hi ul) c = snd (add_neighbor_nat6 vni ip lo hi ul c)"
| "nat_exec (NUpsert6 vni ip lo hi ul) c = snd (upsert_neighbor_nat6 vni ip lo hi ul c)"
| "nat_exec (NDel6 vni ip lo hi) c = snd (del_neighbor_nat6 vni ip lo hi c)"
| "nat_exec (NReplace v4 v6) c = snd (replace_neighbor_nats v4 v6 c)"
| "nat_exec NRestart c = snd (adopt_nat_owners \<lparr>nc_v4 = forget_lists (nc_v4 c), nc_v6 = forget_lists (nc_v6 c)\<rparr>)"
| "nat_exec (NFault up rm) c = c\<lparr>nc_v4 := set_faults up rm (nc_v4 c)\<rparr>"
| "nat_exec (NFault6 up rm) c = c\<lparr>nc_v6 := set_faults up rm (nc_v6 c)\<rparr>"

definition nat_run :: "NatOp list \<Rightarrow> NatCore" where
  "nat_run ops = fold nat_exec ops nat_new"

text \<open>Addresses have the width of their family, as their array types say.\<close>

fun nat_op_ok :: "NatOp \<Rightarrow> bool" where
  "nat_op_ok (NAdd vni ip lo hi ul) = (length ip = 4)"
| "nat_op_ok (NUpsert vni ip lo hi ul) = (length ip = 4)"
| "nat_op_ok (NAdd6 vni ip lo hi ul) = (length ip = 16)"
| "nat_op_ok (NUpsert6 vni ip lo hi ul) = (length ip = 16)"
| "nat_op_ok (NReplace v4 v6) = (list_all (\<lambda>b. length (nb_nat_ip b) = 4) v4 \<and> list_all (\<lambda>b. length (nb_nat_ip b) = 16) v6)"
| "nat_op_ok _ = True"

fun is_fault :: "NatOp \<Rightarrow> bool" where
  "is_fault (NFault up rm) = True"
| "is_fault (NFault6 up rm) = True"
| "is_fault _ = False"

section \<open>Every operation keeps the invariant\<close>

definition core_rel :: "NatCore \<Rightarrow> NatCore \<Rightarrow> bool" where
  "core_rel c c' \<longleftrightarrow> fam_rel 32 (nc_v4 c) (nc_v4 c') \<and> fam_rel 128 (nc_v6 c) (nc_v6 c')"

definition core_inv :: "NatCore \<Rightarrow> bool" where
  "core_inv c \<longleftrightarrow> nat_inv 32 (nc_v4 c) \<and> nat_inv 128 (nc_v6 c) \<and> nf_walk_cut (nc_v4 c) = None \<and> nf_walk_cut (nc_v6 c) = None"

definition core_exact :: "NatCore \<Rightarrow> bool" where
  "core_exact c \<longleftrightarrow> no_faults (nc_v4 c) \<and> no_faults (nc_v6 c) \<and> nat_exact 32 (nc_v4 c) \<and> nat_exact 128 (nc_v6 c)"

lemma fam_inv_rel: "fam_rel ab f f' \<Longrightarrow> nat_inv ab f'"
  by (simp add: fam_rel_def)

lemma core_relD:
  assumes "core_rel c c'"
  shows "core_inv c \<Longrightarrow> core_inv c'" and "core_exact c \<Longrightarrow> core_exact c'"
  using assms no_faults_same [of "nc_v4 c" "nc_v4 c'"] no_faults_same [of "nc_v6 c" "nc_v6 c'"]
  unfolding core_rel_def core_inv_def core_exact_def fam_rel_def by (simp_all add: same_faults_def)

lemma core_rel_v4:
  assumes "core_inv c" and "\<And>r f'. op (nc_v4 c) = (r, f') \<Longrightarrow> fam_rel 32 (nc_v4 c) f'"
  shows "core_rel c (snd (on_v4 op c))"
  using assms(1) assms(2) [of "fst (op (nc_v4 c))" "snd (op (nc_v4 c))"] fam_rel_refl [of 128 "nc_v6 c"]
  by (simp add: core_rel_def on_v4_def core_inv_def case_prod_beta)

lemma core_rel_v6:
  assumes "core_inv c" and "\<And>r f'. op (nc_v6 c) = (r, f') \<Longrightarrow> fam_rel 128 (nc_v6 c) f'"
  shows "core_rel c (snd (on_v6 op c))"
  using assms(1) assms(2) [of "fst (op (nc_v6 c))" "snd (op (nc_v6 c))"] fam_rel_refl [of 32 "nc_v4 c"]
  by (simp add: core_rel_def on_v6_def core_inv_def case_prod_beta)

lemmas nat_bits = NAT_OWNER_ADDR_BITS4_def NAT_OWNER_ADDR_BITS6_def

text \<open>What a replace leaves, and that without faults only its check refuses a set.\<close>

lemma replace_ok:
  assumes inv: "core_inv c" and len: "\<forall>b \<in> set v4. length (nb_nat_ip b) = 4" "\<forall>b \<in> set v6. length (nb_nat_ip b) = 16"
    and res: "replace_neighbor_nats v4 v6 c = (r, c')"
  shows "core_rel c c'
    \<and> (\<forall>n. r = Inr n \<longrightarrow> (\<forall>k b. mget (nf_blocks (nc_v4 c')) k = Some b \<longleftrightarrow> b \<in> set v4 \<and> block_key b = k)
         \<and> (\<forall>k b. mget (nf_blocks (nc_v6 c')) k = Some b \<longleftrightarrow> b \<in> set v6 \<and> block_key b = k))
    \<and> (no_faults (nc_v4 c) \<longrightarrow> no_faults (nc_v6 c) \<longrightarrow> check_block_set (block_items v4) = None \<longrightarrow> check_block_set (block_items v6) = None
         \<longrightarrow> (\<exists>n. r = Inr n))"
proof (cases "check_block_set (block_items v4) = None \<and> check_block_set (block_items v6) = None")
  case False
  then have "c' = c" "\<exists>e. r = Inl e" using res by (auto simp: replace_neighbor_nats_def split: option.splits)
  then show ?thesis using False inv by (auto simp: core_rel_def core_inv_def fam_rel_refl)
next
  case True
  have i4: "nat_inv 32 (nc_v4 c)" and i6: "nat_inv 128 (nc_v6 c)" using inv by (simp_all add: core_inv_def)
  have s4: "block_set_ok 32 v4" and s6: "block_set_ok 128 v6" using True check_block_set_ok by blast+
  have l4: "\<forall>b \<in> set v4. 8 * length (nb_nat_ip b) = 32" and l6: "\<forall>b \<in> set v6. 8 * length (nb_nat_ip b) = 128" using len by simp_all
  obtain r1 f1 n1 where d4: "del_stale 32 (stale_blocks v4 (nc_v4 c)) (nc_v4 c) no_counts = (r1, f1, n1)" by (metis prod_cases3)
  obtain r2 g1 n2 where d6: "del_stale 128 (stale_blocks v6 (nc_v6 c)) (nc_v6 c) n1 = (r2, g1, n2)" by (metis prod_cases3)
  obtain r3 f2 n3 where a4: "add_new 32 (listed_ids f1) v4 f1 n2 = (r3, f2, n3)" by (metis prod_cases3)
  obtain r4 g2 n4 where a6: "add_new 128 (listed_ids g1) v6 g1 n3 = (r4, g2, n4)" by (metis prod_cases3)
  note D4 = del_stale_fam [OF i4 d4] and D6 = del_stale_fam [OF i6 d6]
  have A4: "fam_rel 32 f1 f2 \<and> (no_faults f1 \<longrightarrow> r3 = None) \<and> (r3 = None \<longrightarrow> (\<forall>k b. mget (nf_blocks f2) k = Some b \<longleftrightarrow> b \<in> set v4 \<and> block_key b = k))"
    if "r1 = None" by (rule add_new_fam [OF _ s4 l4 _ a4]) (use D4 that in \<open>auto simp: fam_rel_def\<close>)
  have A6: "fam_rel 128 g1 g2 \<and> (no_faults g1 \<longrightarrow> r4 = None) \<and> (r4 = None \<longrightarrow> (\<forall>k b. mget (nf_blocks g2) k = Some b \<longleftrightarrow> b \<in> set v6 \<and> block_key b = k))"
    if "r2 = None" by (rule add_new_fam [OF _ s6 l6 _ a6]) (use D6 that in \<open>auto simp: fam_rel_def\<close>)
  have nf: "no_faults f1 = no_faults (nc_v4 c)" "no_faults g1 = no_faults (nc_v6 c)"
    using D4 D6 no_faults_same unfolding fam_rel_def by blast+
  have "replace_neighbor_nats v4 v6 c = (case r1 of Some e \<Rightarrow> (Inl e, c\<lparr>nc_v4 := f1\<rparr>) | None \<Rightarrow>
      case r2 of Some e \<Rightarrow> (Inl e, c\<lparr>nc_v4 := f1, nc_v6 := g1\<rparr>) | None \<Rightarrow>
      case r3 of Some e \<Rightarrow> (Inl e, c\<lparr>nc_v4 := f2, nc_v6 := g1\<rparr>) | None \<Rightarrow>
      case r4 of Some e \<Rightarrow> (Inl e, c\<lparr>nc_v4 := f2, nc_v6 := g2\<rparr>) | None \<Rightarrow> (Inr n4, c\<lparr>nc_v4 := f2, nc_v6 := g2\<rparr>))"
    using True by (simp add: replace_neighbor_nats_def nat_bits d4 d6 a4 a6 split: option.split)
  with res have out: "(r, c') = (case r1 of Some e \<Rightarrow> (Inl e, c\<lparr>nc_v4 := f1\<rparr>) | None \<Rightarrow>
      case r2 of Some e \<Rightarrow> (Inl e, c\<lparr>nc_v4 := f1, nc_v6 := g1\<rparr>) | None \<Rightarrow>
      case r3 of Some e \<Rightarrow> (Inl e, c\<lparr>nc_v4 := f2, nc_v6 := g1\<rparr>) | None \<Rightarrow>
      case r4 of Some e \<Rightarrow> (Inl e, c\<lparr>nc_v4 := f2, nc_v6 := g2\<rparr>) | None \<Rightarrow> (Inr n4, c\<lparr>nc_v4 := f2, nc_v6 := g2\<rparr>))" by simp
  have rel4: "fam_rel 32 (nc_v4 c) f1" "r1 = None \<Longrightarrow> fam_rel 32 (nc_v4 c) f2" using D4 A4 fam_rel_trans by blast+
  have rel6: "fam_rel 128 (nc_v6 c) (nc_v6 c)" "fam_rel 128 (nc_v6 c) g1" "r2 = None \<Longrightarrow> fam_rel 128 (nc_v6 c) g2"
    using D6 A6 fam_rel_trans fam_rel_refl [OF i6] by blast+
  have "core_rel c c'" using out rel4 rel6 by (auto simp: core_rel_def split: option.splits)
  moreover have "r1 = None \<and> r2 = None \<and> r3 = None \<and> r4 = None \<and> c' = c\<lparr>nc_v4 := f2, nc_v6 := g2\<rparr>" if "r = Inr n" for n
    using out that by (auto split: option.splits)
  moreover have "r = Inr n4" if "no_faults (nc_v4 c)" "no_faults (nc_v6 c)"
    using out that D4 D6 A4 A6 nf by (auto split: option.splits)
  ultimately show ?thesis using A4 A6 by (simp del: split_paired_All)
qed

lemma adopt_core:
  assumes "core_inv c" and "adopt_nat_owners \<lparr>nc_v4 = forget_lists (nc_v4 c), nc_v6 = forget_lists (nc_v6 c)\<rparr> = (e, c')"
  shows "core_inv c' \<and> (core_exact c \<longrightarrow> core_exact c'
    \<and> (\<forall>k. mget (nf_blocks (nc_v4 c')) k = mget (nf_blocks (nc_v4 c)) k) \<and> (\<forall>k. mget (nf_blocks (nc_v6 c')) k = mget (nf_blocks (nc_v6 c)) k))"
proof -
  obtain e4 f4 where 4: "adopt_fam 32 (forget_lists (nc_v4 c)) = (e4, f4)" by fastforce
  obtain e6 f6 where 6: "adopt_fam 128 (forget_lists (nc_v6 c)) = (e6, f6)" by fastforce
  have c': "c' = \<lparr>nc_v4 = f4, nc_v6 = f6\<rparr>" using assms(2) 4 6 by (simp add: adopt_nat_owners_def on_v4_def on_v6_def nat_bits)
  have i: "nat_inv 32 (nc_v4 c)" "nat_inv 128 (nc_v6 c)" "nf_walk_cut (nc_v4 c) = None" "nf_walk_cut (nc_v6 c) = None"
    using assms(1) by (simp_all add: core_inv_def)
  note a4 = adopt_inv [OF i(1,3) 4] adopt_forgotten [OF i(1,3) 4] and a6 = adopt_inv [OF i(2,4) 6] adopt_forgotten [OF i(2,4) 6]
  have "core_inv c'" using a4 a6 i by (simp add: core_inv_def c' same_faults_def)
  moreover have "core_exact c'" if "core_exact c"
    using that a4 a6 no_faults_same [of "nc_v4 c" f4] no_faults_same [of "nc_v6 c" f6] by (simp add: core_exact_def c')
  moreover have "mget (nf_blocks f4) k = mget (nf_blocks (nc_v4 c)) k" "mget (nf_blocks f6) k = mget (nf_blocks (nc_v6 c)) k" if "core_exact c" for k
    using that a4(2) a6(2) adopt_keeps_list [OF i(1)] adopt_keeps_list [OF i(2)] by (simp_all add: core_exact_def)
  ultimately show ?thesis by (simp add: c')
qed


lemma fam_rel_add: "nat_inv ab f \<Longrightarrow> 8 * length ip = ab \<Longrightarrow> add_block ab vni ip lo hi ul f = (r, f') \<Longrightarrow> fam_rel ab f f'"
  using add_block_inv unfolding fam_rel_def by blast

lemma fam_rel_upsert: "nat_inv ab f \<Longrightarrow> 8 * length ip = ab \<Longrightarrow> upsert_block ab vni ip lo hi ul f = (r, f') \<Longrightarrow> fam_rel ab f f'"
  using upsert_block_inv unfolding fam_rel_def by blast

lemma fam_rel_del: "nat_inv ab f \<Longrightarrow> del_block ab vni ip lo hi f = (r, f') \<Longrightarrow> fam_rel ab f f'"
  using del_block_inv unfolding fam_rel_def by blast

lemma nat_exec_rel:
  assumes inv: "core_inv c" and ok: "nat_op_ok op" and "\<not> is_fault op" and "op \<noteq> NRestart"
  shows "core_rel c (nat_exec op c)"
proof -
  have i: "nat_inv 32 (nc_v4 c)" "nat_inv 128 (nc_v6 c)" using inv by (simp_all add: core_inv_def)
  note v4 = core_rel_v4 [OF inv] and v6 = core_rel_v6 [OF inv]
  show ?thesis
  proof (cases op)
    case (NReplace w4 w6)
    then have "\<forall>b \<in> set w4. length (nb_nat_ip b) = 4" "\<forall>b \<in> set w6. length (nb_nat_ip b) = 16"
      using ok by (simp_all add: list_all_iff)
    from replace_ok [OF inv this] show ?thesis unfolding NReplace nat_exec.simps by (metis prod.collapse)
  qed (use assms fam_rel_add [OF i(1)] fam_rel_add [OF i(2)] fam_rel_upsert [OF i(1)] fam_rel_upsert [OF i(2)]
      fam_rel_del [OF i(1)] fam_rel_del [OF i(2)] in
      \<open>auto simp: add_neighbor_nat_def upsert_neighbor_nat_def del_neighbor_nat_def add_neighbor_nat6_def
        upsert_neighbor_nat6_def del_neighbor_nat6_def nat_bits intro!: v4 v6\<close>)
qed

lemma nat_exec_inv:
  assumes "core_inv c" and "nat_op_ok op"
  shows "core_inv (nat_exec op c) \<and> (core_exact c \<longrightarrow> \<not> is_fault op \<longrightarrow> core_exact (nat_exec op c))"
proof (cases "is_fault op \<or> op = NRestart")
  case False
  then show ?thesis using nat_exec_rel [OF assms] core_relD [of c "nat_exec op c"] assms(1) by blast
next
  case True
  show ?thesis
  proof (cases "op = NRestart")
    case restart: True
    obtain e c' where "adopt_nat_owners \<lparr>nc_v4 = forget_lists (nc_v4 c), nc_v6 = forget_lists (nc_v6 c)\<rparr> = (e, c')" by fastforce
    with adopt_core [OF assms(1) this] restart show ?thesis by simp
  next
    case False
    with True assms show ?thesis by (cases op) (auto simp: core_inv_def nat_inv_def set_faults_def)
  qed
qed

lemma nat_new_ok: "core_inv nat_new \<and> core_exact nat_new"
  by (simp add: core_inv_def core_exact_def nat_inv_def nat_exact_def blocks_ok_def no_faults_def nat_new_def empty_fam_def
      all_prefixes_def mkeys_def)

lemma nat_run_inv:
  assumes "list_all nat_op_ok ops"
  shows "core_inv (nat_run ops) \<and> (\<not> list_ex is_fault ops \<longrightarrow> core_exact (nat_run ops))"
proof -
  have "core_inv (fold nat_exec ops c) \<and> (core_exact c \<longrightarrow> \<not> list_ex is_fault ops \<longrightarrow> core_exact (fold nat_exec ops c))"
    if "core_inv c" for c
    using that assms
  proof (induction ops arbitrary: c)
    case (Cons op ops)
    then show ?case using nat_exec_inv [of c op] by simp
  qed simp
  then show ?thesis using nat_new_ok unfolding nat_run_def by blast
qed

lemma neighbor_owner_exact:
  assumes "nat_inv ab f" and "nat_exact ab f" and "8 * length ip = ab"
  shows "neighbor_nat_owner (nf_owners f) vni ip port = Some ul
    \<longleftrightarrow> (\<exists>k b. mget (nf_blocks f) k = Some b \<and> nb_nat_ip b = ip \<and> nb_port_min b \<le> port \<and> port < nb_port_max b
         \<and> nb_vni b = vni \<and> nb_underlay b = ul)"
proof -
  have *: "nat_owner (nf_owners f) ip port = Some ow \<longleftrightarrow> (\<exists>k b. mget (nf_blocks f) k = Some b \<and> holds_port ip port b \<and> ow = block_owner b)" for ow
    by (rule nat_owner_exact) (use assms in \<open>simp_all add: nat_inv_def\<close>)
  have "neighbor_nat_owner (nf_owners f) vni ip port = Some ul
      \<longleftrightarrow> (\<exists>ow. nat_owner (nf_owners f) ip port = Some ow \<and> no_vni ow = vni \<and> no_underlay ow = ul)"
    by (auto simp: neighbor_nat_owner_def split: option.splits)
  also have "\<dots> \<longleftrightarrow> (\<exists>k b. mget (nf_blocks f) k = Some b \<and> holds_port ip port b \<and> no_vni (block_owner b) = vni \<and> no_underlay (block_owner b) = ul)"
    unfolding * by blast
  finally show ?thesis by (simp add: holds_port_def block_owner_def conj_assoc)
qed

section \<open>Properties\<close>

text \<open>
  C7: In every run of the neighbor-NAT operations of both families, whichever writes and removals
  of the tries fail and however often the dataplane restarts, two listed blocks of one address never
  share a port, every entry of a trie is a prefix of a listed block and names that block's ports, and
  the prefixes accounted for are exactly those of the listed blocks and at most what a trie holds.
\<close>

theorem neighbor_nat_owned:
  assumes "list_all nat_op_ok ops" and "(ab, f) \<in> {(32, nc_v4 (nat_run ops)), (128, nc_v6 (nat_run ops))}"
  shows "(\<forall>k k' b b'. mget (nf_blocks f) k = Some b \<longrightarrow> mget (nf_blocks f) k' = Some b' \<longrightarrow> k \<noteq> k' \<longrightarrow> nb_nat_ip b = nb_nat_ip b'
            \<longrightarrow> nb_port_max b \<le> nb_port_min b' \<or> nb_port_max b' \<le> nb_port_min b)
    \<and> (\<forall>x ow. mget (nf_owners f) x = Some ow \<longrightarrow> (\<exists>k b. mget (nf_blocks f) k = Some b \<and> x \<in> fst ` set (owner_prefixes ab b)
            \<and> no_port_min ow = nb_port_min b \<and> no_port_max ow = nb_port_max b))
    \<and> nf_count f = all_prefixes ab (nf_blocks f) \<and> nf_count f \<le> NAT_OWNERS_MAX"
proof -
  have inv: "nat_inv ab f" using nat_run_inv [OF assms(1)] assms(2) by (auto simp: core_inv_def)
  have "nb_port_max b \<le> nb_port_min b' \<or> nb_port_max b' \<le> nb_port_min b"
    if "mget (nf_blocks f) k = Some b" "mget (nf_blocks f) k' = Some b'" "k \<noteq> k'" "nb_nat_ip b = nb_nat_ip b'" for k k' b b'
  proof -
    have "k = (nb_nat_ip b, nb_port_min b)" "k' = (nb_nat_ip b, nb_port_min b')"
      using block_key_of_listed [OF inv] that by (metis block_key_def)+
    then show ?thesis using inv that unfolding nat_inv_def blocks_ok_def by (metis linorder_neqE prod.inject)
  qed
  then show ?thesis using inv unfolding nat_inv_def belongs_def by blast
qed

text \<open>
  C3: In every run without failing writes, restarts included, the owner the datapath finds for a port
  of a shared NAT address, in the packet's VNI, is the underlay of the listed block of that VNI that
  holds the port, and it finds none when no block does.
\<close>

theorem neighbor_nat_lookup:
  assumes "list_all nat_op_ok ops" and "\<not> list_ex is_fault ops"
  shows "(length ip4 = 4 \<longrightarrow> (neighbor_nat_owner (nf_owners (nc_v4 (nat_run ops))) vni ip4 port = Some ul
            \<longleftrightarrow> (\<exists>k b. mget (nf_blocks (nc_v4 (nat_run ops))) k = Some b \<and> nb_nat_ip b = ip4 \<and> nb_port_min b \<le> port \<and> port < nb_port_max b
                 \<and> nb_vni b = vni \<and> nb_underlay b = ul)))
    \<and> (length ip6 = 16 \<longrightarrow> (neighbor_nat_owner (nf_owners (nc_v6 (nat_run ops))) vni ip6 port = Some ul
            \<longleftrightarrow> (\<exists>k b. mget (nf_blocks (nc_v6 (nat_run ops))) k = Some b \<and> nb_nat_ip b = ip6 \<and> nb_port_min b \<le> port \<and> port < nb_port_max b
                 \<and> nb_vni b = vni \<and> nb_underlay b = ul)))"
proof -
  have "core_inv (nat_run ops)" "core_exact (nat_run ops)" using nat_run_inv assms by blast+
  then have i: "nat_inv 32 (nc_v4 (nat_run ops))" "nat_inv 128 (nc_v6 (nat_run ops))"
    and e: "nat_exact 32 (nc_v4 (nat_run ops))" "nat_exact 128 (nc_v6 (nat_run ops))" by (simp_all add: core_inv_def core_exact_def)
  show ?thesis using neighbor_owner_exact [OF i(1) e(1)] neighbor_owner_exact [OF i(2) e(2)] by simp
qed

text \<open>
  C8: Replacing the whole set. After a run without failing writes the replace is refused exactly when
  a given set holds an empty range, two overlapping blocks or too many prefixes; otherwise the
  listed blocks are exactly the given ones, so the datapath's lookup answers by them, whatever was
  listed before. A refused replace changes nothing.
\<close>

theorem replaced_set_is_listed:
  assumes "list_all nat_op_ok ops" and "\<not> list_ex is_fault ops"
    and "list_all (\<lambda>b. length (nb_nat_ip b) = 4) v4" and "list_all (\<lambda>b. length (nb_nat_ip b) = 16) v6"
    and "replace_neighbor_nats v4 v6 (nat_run ops) = (r, c)"
  shows "((\<exists>n. r = Inr n) \<longleftrightarrow> check_block_set (block_items v4) = None \<and> check_block_set (block_items v6) = None)
    \<and> ((\<exists>e. r = Inl e) \<longrightarrow> c = nat_run ops)
    \<and> ((\<exists>n. r = Inr n) \<longrightarrow>
         (\<forall>vni ip port ul. length ip = 4 \<longrightarrow> (neighbor_nat_owner (nf_owners (nc_v4 c)) vni ip port = Some ul
            \<longleftrightarrow> (\<exists>b \<in> set v4. nb_nat_ip b = ip \<and> nb_port_min b \<le> port \<and> port < nb_port_max b \<and> nb_vni b = vni \<and> nb_underlay b = ul)))
       \<and> (\<forall>vni ip port ul. length ip = 16 \<longrightarrow> (neighbor_nat_owner (nf_owners (nc_v6 c)) vni ip port = Some ul
            \<longleftrightarrow> (\<exists>b \<in> set v6. nb_nat_ip b = ip \<and> nb_port_min b \<le> port \<and> port < nb_port_max b \<and> nb_vni b = vni \<and> nb_underlay b = ul))))"
proof -
  let ?c = "nat_run ops"
  have ci: "core_inv ?c" and ce: "core_exact ?c" using nat_run_inv assms by blast+
  have len: "\<forall>b \<in> set v4. length (nb_nat_ip b) = 4" "\<forall>b \<in> set v6. length (nb_nat_ip b) = 16" using assms(3,4) by (simp_all add: list_all_iff)
  note ok = replace_ok [OF ci len assms(5)]
  then have "core_inv c" "core_exact c" using core_relD ci ce by blast+
  then have i: "nat_inv 32 (nc_v4 c)" "nat_inv 128 (nc_v6 c)" and e: "nat_exact 32 (nc_v4 c)" "nat_exact 128 (nc_v6 c)"
    by (simp_all add: core_inv_def core_exact_def)
  have iff: "(\<exists>n. r = Inr n) \<longleftrightarrow> check_block_set (block_items v4) = None \<and> check_block_set (block_items v6) = None"
  proof
    assume "\<exists>n. r = Inr n"
    then show "check_block_set (block_items v4) = None \<and> check_block_set (block_items v6) = None"
      using assms(5) by (auto simp: replace_neighbor_nats_def split: option.splits)
  qed (use ok ce in \<open>auto simp: core_exact_def\<close>)
  moreover have "c = ?c" if "\<exists>e. r = Inl e"
    using that iff assms(5) by (auto simp: replace_neighbor_nats_def split: option.splits)
  moreover have "(\<exists>k b. mget (nf_blocks (nc_v4 c)) k = Some b \<and> P b) \<longleftrightarrow> (\<exists>b \<in> set v4. P b)"
    "(\<exists>k b. mget (nf_blocks (nc_v6 c)) k = Some b \<and> P b) \<longleftrightarrow> (\<exists>b \<in> set v6. P b)" if "\<exists>n. r = Inr n" for P
    using ok that by blast+
  ultimately show ?thesis using neighbor_owner_exact [OF i(1) e(1)] neighbor_owner_exact [OF i(2) e(2)] by simp
qed

text \<open>
  C9: Adopting a trie after a restart, whatever the trie holds (partial blocks, prefixes of an older
  decomposition, overlapping leftovers): when no write fails, afterwards no two listed blocks share a
  port and the trie holds exactly the prefixes of the listed blocks, each with its block's owner.
\<close>

theorem adopt_any_trie:
  assumes "mwf (nf_owners f)" and "\<forall>x \<in> set (mkeys (nf_owners f)). 8 * length (ok_nat_ip (snd x)) = ab"
    and "nf_walk_cut f = None" and "nf_upsert_fault f = None" and "nf_remove_fault f = None" and "adopt_fam ab f = (err, f')"
  shows "\<not> err \<and> nf_count f' = all_prefixes ab (nf_blocks f')
    \<and> (\<forall>ip lo lo' b b'. mget (nf_blocks f') (ip, lo) = Some b \<longrightarrow> mget (nf_blocks f') (ip, lo') = Some b' \<longrightarrow> lo < lo' \<longrightarrow> nb_port_max b \<le> lo')
    \<and> (\<forall>x ow. mget (nf_owners f') x = Some ow \<longleftrightarrow> (\<exists>k b. mget (nf_blocks f') k = Some b \<and> (x, ow) \<in> set (owner_prefixes ab b)))"
proof -
  have keys: "keys_ok ab (nf_owners f)" using assms(2) by (auto simp: keys_ok_def mkeys_iff)
  have "no_faults f" using assms(4,5) by (simp add: no_faults_def)
  then show ?thesis using adopt_fam_ok [OF assms(1) keys assms(3,6)] adopt_exact [OF assms(1) keys assms(3) _ assms(6)]
      blocks_ok_adopted [OF assms(1) keys]
    unfolding nat_exact_def blocks_ok_def by simp
qed

lemma store_block_other:
  assumes "mwf (nf_owners f)" and "store_block ab b f = (r, f')" and "x \<notin> fst ` set (owner_prefixes ab b)"
  shows "mwf (nf_owners f') \<and> mget (nf_owners f') x = mget (nf_owners f) x"
proof (cases "nf_count f + length (owner_prefixes ab b) > NAT_OWNERS_MAX")
  case True
  with assms show ?thesis by (auto simp: store_block_def Let_def)
next
  case False
  obtain g w where w: "write_prefixes [] (owner_prefixes ab b) f = (g, w)" by fastforce
  from assms(1) w obtain es1 es2 where g: "mwf (nf_owners g)" and es: "owner_prefixes ab b = es1 @ es2"
    and r: "w = None \<and> es1 = owner_prefixes ab b \<or> w = Some es1 \<and> nf_upsert_fault f \<noteq> None"
    and own: "\<forall>x. mget (nf_owners g) x = (if x \<in> fst ` set es1 then Some (block_owner b) else mget (nf_owners f) x)"
    by (rule write_block_ok)
  have x: "x \<notin> fst ` set es1" using assms(3) by (auto simp: es)
  obtain h s where h: "remove_prefixes es1 (g, False) = (h, s)" by fastforce
  have "nf_owners f' = nf_owners g \<or> nf_owners f' = nf_owners h"
    using assms(2) w h r False by (cases s) (auto simp: store_block_def Let_def list_block_def)
  then show ?thesis using own x g remove_prefixes_ok [OF g h] by auto
qed

lemma add_new_other:
  assumes "mwf (nf_owners f)" and "add_new ab hs bs f n = (r, f', n')"
    and "\<forall>b \<in> set bs. id_of b \<in> set hs \<or> x \<notin> fst ` set (owner_prefixes ab b)"
  shows "mget (nf_owners f') x = mget (nf_owners f) x"
  using assms
proof (induction bs arbitrary: f n)
  case (Cons b bs)
  show ?case
  proof (cases "id_of b \<in> set hs")
    case False
    obtain r1 g where g: "store_block ab b f = (r1, g)" by fastforce
    have "mwf (nf_owners g) \<and> mget (nf_owners g) x = mget (nf_owners f) x"
      using store_block_other [OF Cons.prems(1) g, of x] Cons.prems(3) False by simp
    then show ?thesis using Cons.IH [of g] Cons.prems(2,3) False g by (cases r1) auto
  qed (use Cons in auto)
qed simp

lemma del_stale_absent:
  assumes "mwf (nf_owners f)" and "mget (nf_owners f) x = None" and "del_stale ab bs f n = (r, f', n')"
  shows "mget (nf_owners f') x = None"
  using assms
proof (induction bs arbitrary: f n)
  case (Cons b bs)
  obtain r1 g where g: "del_block ab (nb_vni b) (nb_nat_ip b) (nb_port_min b) (nb_port_max b) f = (r1, g)" by fastforce
  have "mwf (nf_owners g) \<and> mget (nf_owners g) x = None"
  proof -
    have "nf_owners g = nf_owners f \<or> (\<exists>es bad h. remove_prefixes es (f, False) = (h, bad) \<and> nf_owners g = nf_owners h)"
      using g by (auto simp: del_block_def Let_def split: option.splits if_splits prod.splits bool.splits) blast+
    then show ?thesis using Cons.prems(1,2) remove_prefixes_ok [OF Cons.prems(1)] by fastforce
  qed
  then show ?case using Cons.IH [of g] Cons.prems(3) g by (cases r1) auto
qed simp

text \<open>
  C32: A replace never completes a block that is listed already. If a prefix of a listed IPv4 block is
  missing from the trie, as a failed write or a failed removal leaves it, then a replace with a set
  that holds the block leaves the prefix missing, whether or not its own writes succeed.
\<close>

theorem replace_keeps_gap:
  assumes "list_all nat_op_ok ops" and "mget (nf_blocks (nc_v4 (nat_run ops))) (block_key b) = Some b"
    and "x \<in> fst ` set (owner_prefixes 32 b)" and "mget (nf_owners (nc_v4 (nat_run ops))) x = None"
    and "b \<in> set v4" and "list_all (\<lambda>b. length (nb_nat_ip b) = 4) v4"
    and "replace_neighbor_nats v4 v6 (nat_run ops) = (r, c)"
  shows "mget (nf_owners (nc_v4 c)) x = None"
proof (cases "check_block_set (block_items v4) = None \<and> check_block_set (block_items v6) = None")
  case False
  then have "c = nat_run ops" using assms(7) by (auto simp: replace_neighbor_nats_def split: option.splits)
  with assms(4) show ?thesis by simp
next
  case True
  let ?f = "nc_v4 (nat_run ops)"
  have inv: "nat_inv 32 ?f" using nat_run_inv [OF assms(1)] by (simp add: core_inv_def)
  have wf: "mwf (nf_owners ?f)" using inv by (simp add: nat_inv_def)
  have set_ok: "block_set_ok 32 v4" using True check_block_set_ok by blast
  obtain r1 f1 n1 where d: "del_stale 32 (stale_blocks v4 ?f) ?f no_counts = (r1, f1, n1)" by (metis prod_cases3)
  note D = del_stale_fam [OF inv d]
  have gap: "mget (nf_owners f1) x = None" by (rule del_stale_absent [OF wf assms(4) d])
  have other: "mget (nf_owners f2) x = None" if "r1 = None" "add_new 32 (listed_ids f1) v4 f1 n = (r2, f2, n2)" for n r2 f2 n2
  proof -
    have "mget (nf_blocks f1) (block_key b) = Some b" using D that(1) assms(2,5) by blast
    then have listed: "id_of b \<in> set (listed_ids f1)" by (force simp: listed_ids_def dest: mget_in)
    have "id_of b' \<in> set (listed_ids f1) \<or> x \<notin> fst ` set (owner_prefixes 32 b')" if b': "b' \<in> set v4" for b'
    proof (cases "b' = b")
      case False
      have "x \<notin> fst ` set (owner_prefixes 32 b')"
      proof
        assume "x \<in> fst ` set (owner_prefixes 32 b')"
        with assms(3) obtain ow ow' where "(x, ow) \<in> set (owner_prefixes 32 b)" "(x, ow') \<in> set (owner_prefixes 32 b')" by force
        then show False
          by (rule owner_prefixes_shared) (use set_ok b' assms(5) False in \<open>fastforce simp: block_set_ok_def\<close>)
      qed
      then show ?thesis ..
    qed (use listed in simp)
    then have "mget (nf_owners f2) x = mget (nf_owners f1) x"
      by (intro add_new_other [OF _ that(2)]) (use D in \<open>auto simp: fam_rel_def nat_inv_def\<close>)
    with gap show ?thesis by simp
  qed
  show ?thesis
  proof (cases r1)
    case (Some e)
    then show ?thesis using assms(7) True d gap by (auto simp: replace_neighbor_nats_def nat_bits)
  next
    case None
    then show ?thesis using assms(7) True d gap other [OF None]
      by (auto simp: replace_neighbor_nats_def nat_bits split: prod.splits option.splits)
  qed
qed

section \<open>Witnesses\<close>

definition node_a :: "byte list" where "node_a = [1]"

definition node_b :: "byte list" where "node_b = [2]"

definition shared_ip :: "byte list" where "shared_ip = [203, 0, 113, 1]"

definition block_a :: NeighborNatEntry where "block_a = the_block 7 shared_ip 4 8 node_a"

definition block_b :: NeighborNatEntry where "block_b = the_block 7 shared_ip 8 11 node_b"

lemma prefixes_4_8: "port_prefixes 4 7 = [(4, 14)]"
proof -
  have "lowbit 4 = 4" "trailing_zeros 4 = 2" "fit 4 7 4 = 4" by (simp_all add: lowbit.simps trailing_zeros.simps fit.simps)
  moreover have "prefix_loop 8 7 = []" by (subst prefix_loop.simps) simp
  ultimately have "prefix_loop 4 7 = [(4, 14)]" by (subst prefix_loop.simps) (simp add: block_size_def Let_def)
  then show ?thesis by (simp add: port_prefixes_def)
qed

lemma prefixes_8_11: "port_prefixes 8 10 = [(8, 15), (10, 16)]"
proof -
  have "lowbit 10 = 2" "trailing_zeros 1 = 0" "fit 10 10 2 = 1" by (simp_all add: lowbit.simps trailing_zeros.simps fit.simps)
  moreover have "prefix_loop 11 10 = []" by (subst prefix_loop.simps) simp
  ultimately have tail: "prefix_loop 10 10 = [(10, 16)]" by (subst prefix_loop.simps) (simp add: block_size_def Let_def)
  have "lowbit 8 = 8" "trailing_zeros 2 = 1" "fit 8 10 8 = 2" by (simp_all add: lowbit.simps trailing_zeros.simps fit.simps)
  with tail have "prefix_loop 8 10 = [(8, 15), (10, 16)]" by (subst prefix_loop.simps) (simp add: block_size_def Let_def)
  then show ?thesis by (simp add: port_prefixes_def)
qed

lemma owner_prefixes_a:
  "owner_prefixes 32 (the_block vni ip 4 8 ul) = [((46, \<lparr>ok_nat_ip = ip, ok_port = [0, 4]\<rparr>), block_owner (the_block vni ip 4 8 ul))]"
  by (simp add: owner_prefixes_def the_block_def prefixes_4_8 to_be_bytes_def)

lemma owner_prefixes_b:
  "owner_prefixes 32 (the_block vni ip 8 11 ul) = [((47, \<lparr>ok_nat_ip = ip, ok_port = [0, 8]\<rparr>), block_owner (the_block vni ip 8 11 ul)),
     ((48, \<lparr>ok_nat_ip = ip, ok_port = [0, 10]\<rparr>), block_owner (the_block vni ip 8 11 ul))]"
  by (simp add: owner_prefixes_def the_block_def prefixes_8_11 to_be_bytes_def)

definition fam_a :: NatFam where
  "fam_a = \<lparr>nf_owners = [((46, \<lparr>ok_nat_ip = shared_ip, ok_port = [0, 4]\<rparr>), block_owner block_a)], nf_upsert_fault = None, nf_remove_fault = None,
     nf_walk_cut = None, nf_blocks = [((shared_ip, 4), block_a)], nf_count = 1\<rparr>"

text \<open>The second prefix of block b cannot be written and its first one cannot be removed again.\<close>

definition stuck :: NatOp where
  "stuck = NFault (Some (48, \<lparr>ok_nat_ip = shared_ip, ok_port = [0, 10]\<rparr>)) (Some (47, \<lparr>ok_nat_ip = shared_ip, ok_port = [0, 8]\<rparr>))"

definition fam_stuck :: NatFam where
  "fam_stuck = \<lparr>nf_owners = [((46, \<lparr>ok_nat_ip = shared_ip, ok_port = [0, 4]\<rparr>), block_owner block_a), ((47, \<lparr>ok_nat_ip = shared_ip, ok_port = [0, 8]\<rparr>), block_owner block_b)],
     nf_upsert_fault = Some (48, \<lparr>ok_nat_ip = shared_ip, ok_port = [0, 10]\<rparr>), nf_remove_fault = Some (47, \<lparr>ok_nat_ip = shared_ip, ok_port = [0, 8]\<rparr>),
     nf_walk_cut = None, nf_blocks = [((shared_ip, 4), block_a), ((shared_ip, 8), block_b)], nf_count = 3\<rparr>"

definition add_a :: NatOp where "add_a = NAdd 7 shared_ip 4 8 node_a"

definition add_b :: NatOp where "add_b = NAdd 7 shared_ip 8 11 node_b"

lemmas eval_nat = add_neighbor_nat_def on_v4_def on_v6_def add_block_def overlaps_def next_back_def next_from_def btree_def
  store_block_def list_block_def nat_owner_upsert_def nat_owner_remove_def block_key_def mput_def mdel_def mget_def nat_bits
  NAT_OWNERS_MAX_def owner_prefixes_a owner_prefixes_b Let_def

lemma run_a: "nat_run [add_a] = \<lparr>nc_v4 = fam_a, nc_v6 = empty_fam\<rparr>"
  by (simp add: nat_run_def add_a_def eval_nat nat_new_def empty_fam_def fam_a_def block_a_def) (simp add: the_block_def)

lemma run_stuck: "nat_run [add_a, stuck, add_b] = \<lparr>nc_v4 = fam_stuck, nc_v6 = empty_fam\<rparr>"
proof -
  have "nat_run [add_a, stuck, add_b] = nat_exec add_b (nat_exec stuck (nat_run [add_a]))" by (simp add: nat_run_def)
  also have "\<dots> = \<lparr>nc_v4 = fam_stuck, nc_v6 = empty_fam\<rparr>"
    unfolding run_a by (simp add: add_b_def stuck_def set_faults_def eval_nat fam_a_def fam_stuck_def block_a_def block_b_def)
      (simp add: the_block_def)
  finally show ?thesis .
qed

theorem neighbor_nat_owned_witness:
  "list_all nat_op_ok [add_a, stuck, add_b] \<and> nf_count (nc_v4 (nat_run [add_a, stuck, add_b])) = 3
   \<and> mget (nf_blocks (nc_v4 (nat_run [add_a, stuck, add_b]))) (shared_ip, 8) = Some block_b
   \<and> (nb_port_max block_a \<le> nb_port_min block_b \<or> nb_port_max block_b \<le> nb_port_min block_a)
   \<and> (\<exists>k b. mget (nf_blocks (nc_v4 (nat_run [add_a, stuck, add_b]))) k = Some b
        \<and> (47, \<lparr>ok_nat_ip = shared_ip, ok_port = [0, 8]\<rparr>) \<in> fst ` set (owner_prefixes 32 b))"
proof -
  have ok: "list_all nat_op_ok [add_a, stuck, add_b]" by (simp add: add_a_def stuck_def add_b_def shared_ip_def)
  have "nf_count (nc_v4 (nat_run [add_a, stuck, add_b])) = 3"
    "mget (nf_blocks (nc_v4 (nat_run [add_a, stuck, add_b]))) (shared_ip, 8) = Some block_b"
    "mget (nf_blocks (nc_v4 (nat_run [add_a, stuck, add_b]))) (shared_ip, 4) = Some block_a"
    "mget (nf_owners (nc_v4 (nat_run [add_a, stuck, add_b]))) (47, \<lparr>ok_nat_ip = shared_ip, ok_port = [0, 8]\<rparr>) = Some (block_owner block_b)"
    by (simp_all add: run_stuck fam_stuck_def mget_def)
  moreover have "nb_nat_ip block_a = nb_nat_ip block_b" "(shared_ip, 4 :: u16) \<noteq> (shared_ip, 8)" by (simp_all add: block_a_def block_b_def the_block_def)
  ultimately show ?thesis using ok neighbor_nat_owned [OF ok, of 32 "nc_v4 (nat_run [add_a, stuck, add_b])"] by blast
qed

theorem neighbor_nat_lookup_witness:
  "neighbor_nat_owner (nf_owners (nc_v4 (nat_run [add_a]))) 7 shared_ip 5 = Some node_a
   \<and> neighbor_nat_owner (nf_owners (nc_v4 (nat_run [add_a]))) 7 shared_ip 8 \<noteq> Some node_a"
proof -
  have ok: "list_all nat_op_ok [add_a]" "\<not> list_ex is_fault [add_a]" by (simp_all add: add_a_def shared_ip_def)
  have blocks: "mget (nf_blocks (nc_v4 (nat_run [add_a]))) k = Some b \<longleftrightarrow> k = (shared_ip, 4) \<and> b = block_a" for k b
    by (auto simp: run_a fam_a_def mget_def)
  have len: "length shared_ip = 4" by (simp add: shared_ip_def)
  show ?thesis
    using neighbor_nat_lookup [OF ok, of shared_ip 7 5 node_a "[]"] neighbor_nat_lookup [OF ok, of shared_ip 7 8 node_a "[]"]
    unfolding blocks by (simp add: len block_a_def the_block_def)
qed

lemma check_block_b: "check_block_set (block_items [block_b]) = None"
  by (simp add: check_block_set_def block_items_def block_b_def the_block_def prefix_count_def NAT_OWNERS_MAX_def
      length_owner_prefixes [of 32 "the_block 7 shared_ip 8 11 node_b", simplified owner_prefixes_b, unfolded the_block_def prefix_count_def, simplified, symmetric])

theorem replaced_set_is_listed_witness:
  "\<exists>n c. replace_neighbor_nats [block_b] [] (nat_run [add_a]) = (Inr n, c)
     \<and> neighbor_nat_owner (nf_owners (nc_v4 c)) 7 shared_ip 9 = Some node_b
     \<and> neighbor_nat_owner (nf_owners (nc_v4 c)) 7 shared_ip 5 \<noteq> Some node_a"
proof -
  obtain r c where rc: "replace_neighbor_nats [block_b] [] (nat_run [add_a]) = (r, c)" by fastforce
  have ok: "list_all nat_op_ok [add_a]" "\<not> list_ex is_fault [add_a]" by (simp_all add: add_a_def shared_ip_def)
  have len: "list_all (\<lambda>b. length (nb_nat_ip b) = 4) [block_b]" "list_all (\<lambda>b. length (nb_nat_ip b) = 16) []"
    by (simp_all add: block_b_def the_block_def shared_ip_def)
  note rep = replaced_set_is_listed [OF ok len rc]
  have "check_block_set (block_items []) = None" by (simp add: check_block_set_def block_items_def NAT_OWNERS_MAX_def)
  with rep check_block_b obtain n where n: "r = Inr n" by blast
  have "length shared_ip = 4" by (simp add: shared_ip_def)
  with rep n have "neighbor_nat_owner (nf_owners (nc_v4 c)) 7 shared_ip port = Some ul
      \<longleftrightarrow> nb_nat_ip block_b = shared_ip \<and> nb_port_min block_b \<le> port \<and> port < nb_port_max block_b \<and> nb_vni block_b = 7 \<and> nb_underlay block_b = ul" for port ul
    by auto
  then show ?thesis using rc n by (intro exI [of _ n] exI [of _ c]) (simp add: block_b_def the_block_def)
qed

text \<open>A trie with a whole block and a leftover of a range that starts inside it.\<close>

definition leftover_fam :: NatFam where
  "leftover_fam = fam_a\<lparr>nf_owners := nf_owners fam_a @ [((48, \<lparr>ok_nat_ip = shared_ip, ok_port = [0, 6]\<rparr>), block_owner (the_block 7 shared_ip 6 9 node_b))]\<rparr>"

theorem adopt_any_trie_witness:
  "\<exists>f'. adopt_fam 32 leftover_fam = (False, f') \<and> nf_count f' = all_prefixes 32 (nf_blocks f')
     \<and> (\<forall>x ow. mget (nf_owners f') x = Some ow \<longleftrightarrow> (\<exists>k b. mget (nf_blocks f') k = Some b \<and> (x, ow) \<in> set (owner_prefixes 32 b)))"
proof -
  obtain e f' where a: "adopt_fam 32 leftover_fam = (e, f')" by fastforce
  have "mwf (nf_owners leftover_fam)" "\<forall>x \<in> set (mkeys (nf_owners leftover_fam)). 8 * length (ok_nat_ip (snd x)) = 32"
    "nf_walk_cut leftover_fam = None" "nf_upsert_fault leftover_fam = None" "nf_remove_fault leftover_fam = None"
    by (simp_all add: leftover_fam_def fam_a_def mwf_def mkeys_def shared_ip_def)
  note ad = adopt_any_trie [OF this a]
  then have "adopt_fam 32 leftover_fam = (False, f')" using a by simp
  with ad show ?thesis by blast
qed

text \<open>The failed add leaves block b listed without its second prefix; the replace counts it as kept.\<close>

theorem replace_keeps_gap_witness:
  "mget (nf_blocks (nc_v4 (nat_run [add_a, stuck, add_b, NFault None None]))) (block_key block_b) = Some block_b
   \<and> mget (nf_owners (nc_v4 (snd (replace_neighbor_nats [block_b] [] (nat_run [add_a, stuck, add_b, NFault None None])))))
        (48, \<lparr>ok_nat_ip = shared_ip, ok_port = [0, 10]\<rparr>) = None"
proof -
  let ?ops = "[add_a, stuck, add_b, NFault None None]" and ?x = "(48, \<lparr>ok_nat_ip = shared_ip, ok_port = [0, 10]\<rparr>)"
  have run: "nat_run ?ops = \<lparr>nc_v4 = set_faults None None fam_stuck, nc_v6 = empty_fam\<rparr>"
  proof -
    have "nat_run ?ops = nat_exec (NFault None None) (nat_run [add_a, stuck, add_b])" by (simp add: nat_run_def)
    then show ?thesis by (simp add: run_stuck)
  qed
  have ok: "list_all nat_op_ok ?ops" by (simp add: add_a_def stuck_def add_b_def shared_ip_def)
  have b: "mget (nf_blocks (nc_v4 (nat_run ?ops))) (block_key block_b) = Some block_b"
    unfolding run by (simp add: set_faults_def fam_stuck_def mget_def block_key_def block_b_def the_block_def)
  have x: "?x \<in> fst ` set (owner_prefixes 32 block_b)" unfolding block_b_def owner_prefixes_b by simp
  have none: "mget (nf_owners (nc_v4 (nat_run ?ops))) ?x = None" unfolding run by (simp add: set_faults_def fam_stuck_def mget_def)
  have len: "list_all (\<lambda>b. length (nb_nat_ip b) = 4) [block_b]" by (simp add: block_b_def the_block_def shared_ip_def)
  show ?thesis using b replace_keeps_gap [OF ok b x none _ len prod.collapse [symmetric], of "[]"] by simp
qed

end
