(* ===== verification/Spec2Isabelle.thy ===== *)
theory Spec2Isabelle
  imports Reflector_Properties Rib_Properties Portblock Ipam Mac Agent_Restart Mesh Mesh_Announce Edge_Lbs Fw_Manage Natowner_Run
begin

text \<open>
  A verification of ectobase, a multi-tenant overlay network: a Go control plane and a Rust
  dataplane. A \<^emph>\<open>reflector\<close> keeps the table of all routes, NAT blocks and public prefixes and streams
  it to the nodes; an \<^emph>\<open>agent\<close> on each node announces what the node hosts, learns what the others
  announce and programs the node's \<^emph>\<open>dataplane\<close>; \<^emph>\<open>allocators\<close> hand out addresses, MAC addresses and
  SNAT port blocks. Paths below are relative to \<^verbatim>\<open>src/\<close>.

  \<^bold>\<open>How code becomes definitions.\<close> A struct is a record with the source's fields, an enum a datatype, a
  method a function from the state to its result and the new state. Errors are values of an option or
  sum type; every early return is a branch. Machine integers are words of their width
  (\<^verbatim>\<open>u16\<close>, \<^verbatim>\<open>u32\<close>, \<^verbatim>\<open>u64\<close>, bytes), so arithmetic wraps as in the source. A Go map or a Rust hash map is an
  association list whose order stands for an arbitrary iteration order; a \<^verbatim>\<open>BTreeMap\<close> is read in key
  order. Goroutines are steps of an inductive relation, so a property of all runs is a property of all
  interleavings. Code outside \<^verbatim>\<open>src/\<close> is a parameter: the dataplane as the agent calls it is the record
  \<open>Dataplane\<close> of functions with named hypotheses on what its calls do, and Go's \<^verbatim>\<open>net/netip\<close> is
  modelled in \<open>Netip\<close>.

  \<^bold>\<open>Shared.\<close> \<open>Prelude\<close>: maps, sets and sorted unions, with the interface \<open>go_map\<close> interpreted on
  association lists. \<open>Netip\<close>: parsing and printing of addresses and prefixes. \<open>Routebus\<close>: the messages
  of the route bus and the types both ends share (\<^verbatim>\<open>mesh/routebus\<close>).

  \<^bold>\<open>Reflector\<close> (\<^verbatim>\<open>mesh/reflector\<close>).
  \<^item> \<open>Session_Queue\<close>: the outbound queue and its drain (\<^verbatim>\<open>queue.go\<close>). No wakeup is lost and what is
    drained is what was sent.
  \<^item> \<open>Rib\<close>, \<open>Rib_Global\<close>: the route table and the two global tables (\<^verbatim>\<open>rib.go\<close>, \<^verbatim>\<open>nattable.go\<close>,
    \<^verbatim>\<open>publictable.go\<close>). \<open>Rib_Ops\<close> joins the operations to one step function with its invariant,
    \<open>Rib_Spec\<close> gives the abstract table without indices and the refinement of every operation,
    \<open>Rib_View\<close> what a subscriber that applies its messages ends up with. \<open>Rib_Properties\<close> states the
    results: refinement, exact advertisements and views, fences, session claims, ownership.
  \<^item> \<open>Reflector\<close>: certificates, the session handler and the admin service (\<^verbatim>\<open>underlayauthz.go\<close>,
    \<^verbatim>\<open>authz.go\<close>, \<^verbatim>\<open>server.go\<close>, \<^verbatim>\<open>admin.go\<close>) as steps of all sessions together; \<open>Reflector_Properties\<close>
    holds for every interleaving: a session sees exactly the advertised routes once its queue is
    empty, and no nexthop or owner is stored that the announcing certificate does not cover.

  \<^bold>\<open>Agent\<close> (\<^verbatim>\<open>mesh/agent\<close>).
  \<^item> \<open>Desired\<close>: the announcement set and its diff (\<^verbatim>\<open>desired.go\<close>), with the interface \<open>keyed_records\<close>.
  \<^item> \<open>Dataplane\<close>, \<open>Agent_Bus\<close>, \<open>Agent_Edge\<close>, \<open>Agent_Session\<close>: the bus driver, what a WAN edge programs
    and one session (\<^verbatim>\<open>bus.go\<close>, \<^verbatim>\<open>public.go\<close>).
  \<^item> \<open>Agent_Routes\<close>, \<open>Agent_Converge\<close>, \<open>Agent_Restart\<close>: the record of programmed routes is right
    under failing calls; once calls succeed, a bounded number of ticks converges; a restarted
    dataplane is programmed anew. The bound is 60 ticks for the longest back-off and one more per 256
    differing keys, the number of calls a tick makes.
  \<^item> \<open>Edge_Frame\<close>, \<open>Edge_Lbs\<close>: load balancers at an edge, and the pruning at the end of a snapshot.
  \<^item> \<open>Agent_Learn\<close>, \<open>Mesh\<close>, \<open>Mesh_Announce\<close>: reflector and agent composed, in both directions.

  \<^bold>\<open>Allocators\<close> (\<^verbatim>\<open>mesh/allocator\<close>). \<open>Portblock\<close>, \<open>Ipam\<close>, \<open>Mac\<close>: disjoint port blocks that survive a
  reseed, the lowest free address, derived MAC addresses. Their loops run over a finite range of
  candidates and are total functions; the MAC search has the source's own limit of attempts.

  \<^bold>\<open>Dataplane firewall\<close> (\<^verbatim>\<open>flowplane\<close>).
  \<^item> \<open>Packet\<close>: header reads (\<^verbatim>\<open>flowplane-core/src/parse.rs\<close>). \<open>Fw_Ports\<close>: port ranges as aligned prefixes
    (\<^verbatim>\<open>flowplane-control/src/ports.rs\<close>), at most 30 and exactly covering.
  \<^item> \<open>Fw_Class\<close>: the compiler of rule lists to tries (\<^verbatim>\<open>fwclass.rs\<close>). \<open>Fw_Eval\<close>: the evaluator and the
    first-match reference (\<^verbatim>\<open>flowplane-core/src/firewall.rs\<close>, \<^verbatim>\<open>flowplane-sim/src/fw_oracle.rs\<close>).
    \<open>Fw_Bits\<close>, \<open>Fw_Shadow\<close> (with the interface \<open>lpm_trie\<close>), \<open>Fw_Policy\<close>, \<open>Fw_Family\<close>, \<open>Fw_Correct\<close>:
    the compiled tries decide as the first matching rule.
  \<^item> \<open>Fw_Control\<close>, \<open>Fw_Control_Inv\<close>, \<open>Fw_Manage\<close>: the control core (\<^verbatim>\<open>firewall.rs\<close>) over the in-memory
    writer with its injected faults; verdicts and scopes through replaces, failures and restarts.

  \<^bold>\<open>Dataplane neighbor NAT.\<close>
  \<^item> \<open>Natowner\<close>: port blocks of shared addresses and their prefixes in the owner tries
    (\<^verbatim>\<open>flowplane-control/src/nat.rs\<close>, \<^verbatim>\<open>natowner.rs\<close>). The IPv4 and IPv6 functions are one body over the
    width of an address.
  \<^item> \<open>Natowner_Inv\<close>, \<open>Natowner_Adopt\<close>, \<open>Natowner_Replace\<close>, \<open>Natowner_Manage\<close>, \<open>Natowner_Run\<close>: blocks never
    overlap and own every trie entry whichever writes fail; without failures the lookup of a port
    finds exactly the listed block that holds it; a replace lists exactly its set; adopting repairs any
    trie; and a replace does not complete a block that a failure left half written.

  \<^bold>\<open>Fuel and bounds.\<close> No definition has fuel: the loops of the source are structural recursions or
  functions with a termination proof. The hypotheses on runs are that addresses have the width of
  their type, that the scope ids of different firewall scopes differ (they are 64-bit hashes of the
  content), and the named contracts of the dataplane calls. Witnesses show each can hold.

  \<^bold>\<open>Not modelled.\<close> Guest source NAT, routes, interfaces and load balancers of the dataplane's control
  core; the packet path apart from the firewall and the owner lookup; the eBPF programs, devices, map
  pinning and gRPC service of the dataplane; the agent's reconcilers other than the host prefix they
  announce; the Kubernetes controllers, scheduler, failover, broker and certificate issuing, which
  act through API clients; API types and validation; the CNI plugin; the command line programs;
  generated code; and the test environment. Text of error messages, logging, metrics and time are left
  out except where a branch reads them.
\<close>

end
